(* ===== verification/FF_Prelude.thy ===== *)
theory FF_Prelude
  imports
    Main
    "HOL-Library.AList"
    "HOL-Library.Char_ord"
    "HOL-Library.List_Lexorder"
    "HOL-Library.Word"
    "HOL-Library.Multiset" "HOL-Library.Code_Target_Nat"
begin

text \<open>
  The Go vocabulary the component theories share: results, byte strings with their UTF-8 runes,
  identifiers, decimal printing, slices, maps, instants and durations. Everything here is what the
  ForgeFlow sources use of the language and of its standard library (\<open>unicode\<close>, \<open>utf8\<close>,
  \<open>strings.TrimSpace\<close>, \<open>strconv\<close>/\<open>fmt\<close> decimals, \<open>time\<close>), together with the generic lemmas the
  component proofs rest on.

  \<^item> A Go string is a byte sequence: \<open>string\<close>, whose characters are bytes. Go compares strings
    bytewise, which is the lexicographic order that \<open>List_Lexorder\<close> and \<open>Char_ord\<close> give.
  \<^item> A Go map is an association list with distinct keys (\<open>distinct (map fst m)\<close>). The list order
    is the iteration order the runtime happens to use; nothing constrains it, so a theorem about
    every association list is a theorem about every iteration order.
  \<^item> A slice distinguishes nil from empty, because \<open>reflect.DeepEqual\<close> does.
  \<^item> An instant (\<open>time.Time\<close>, always in UTC in these sources) is the number of nanoseconds since
    Go's zero time; a duration is a signed 64-bit word.
\<close>

named_theorems go_map \<open>lookups in updated Go maps\<close>
named_theorems run_defs \<open>definitions of the run operations\<close>

section \<open>Results\<close>

text \<open>\<open>(T, error)\<close> results are sums: \<open>Inl\<close> is the error. \<open>bindE\<close> is the \<open>if err != nil { return err }\<close>
  idiom.\<close>

definition bindE :: "'e + 'a \<Rightarrow> ('a \<Rightarrow> 'e + 'b) \<Rightarrow> 'e + 'b" where
  "bindE m f = (case m of Inl e \<Rightarrow> Inl e | Inr x \<Rightarrow> f x)"

definition guardE :: "bool \<Rightarrow> 'e \<Rightarrow> 'e + unit" where
  "guardE bad e = (if bad then Inl e else Inr ())"

definition wrapE :: "('e \<Rightarrow> 'f) \<Rightarrow> 'e + 'a \<Rightarrow> 'f + 'a" where
  "wrapE w m = (case m of Inl e \<Rightarrow> Inl (w e) | Inr x \<Rightarrow> Inr x)"

section \<open>Byte strings, UTF-8 and identifiers\<close>

type_synonym bytes = "nat list"

definition bytes_of :: "string \<Rightarrow> bytes" where
  "bytes_of s = map of_char s"

definition rune_error :: nat where
  "rune_error = 0xFFFD"

definition second_byte_ok :: "nat \<Rightarrow> nat \<Rightarrow> bool" where
  "second_byte_ok b0 b1 =
     (if b0 = 0xE0 then 0xA0 \<le> b1 \<and> b1 \<le> 0xBF
      else if b0 = 0xED then 0x80 \<le> b1 \<and> b1 \<le> 0x9F
      else if b0 = 0xF0 then 0x90 \<le> b1 \<and> b1 \<le> 0xBF
      else if b0 = 0xF4 then 0x80 \<le> b1 \<and> b1 \<le> 0x8F
      else 0x80 \<le> b1 \<and> b1 \<le> 0xBF)"

definition continuation_byte :: "nat \<Rightarrow> bool" where
  "continuation_byte b \<longleftrightarrow> 0x80 \<le> b \<and> b \<le> 0xBF"

text \<open>\<open>utf8.DecodeRune\<close>: the rune at the head of a byte sequence and its width; an ill-formed
  sequence is \<open>RuneError\<close> of width one.\<close>

definition decode_rune :: "nat \<Rightarrow> bytes \<Rightarrow> nat \<times> nat" where
  "decode_rune b0 bs =
     (if b0 < 0x80 then (b0, 1)
      else if b0 < 0xC2 \<or> 0xF4 < b0 then (rune_error, 1)
      else case bs of [] \<Rightarrow> (rune_error, 1)
        | b1 # bs1 \<Rightarrow>
            if \<not> second_byte_ok b0 b1 then (rune_error, 1)
            else if b0 < 0xE0 then ((b0 - 0xC0) * 64 + (b1 - 0x80), 2)
            else case bs1 of [] \<Rightarrow> (rune_error, 1)
              | b2 # bs2 \<Rightarrow>
                  if \<not> continuation_byte b2 then (rune_error, 1)
                  else if b0 < 0xF0
                    then ((b0 - 0xE0) * 4096 + (b1 - 0x80) * 64 + (b2 - 0x80), 3)
                  else case bs2 of [] \<Rightarrow> (rune_error, 1)
                    | b3 # bs3 \<Rightarrow>
                        if \<not> continuation_byte b3 then (rune_error, 1)
                        else ((b0 - 0xF0) * 262144 + (b1 - 0x80) * 4096
                                + (b2 - 0x80) * 64 + (b3 - 0x80), 4))"

text \<open>\<open>for _, character := range s\<close>: the runes of a string, each with the bytes that encode it.\<close>

fun rune_chunks :: "bytes \<Rightarrow> (nat \<times> bytes) list" where
  "rune_chunks [] = []"
| "rune_chunks (b # bs) =
     (let (r, w) = decode_rune b bs
      in (r, b # take (w - 1) bs) # rune_chunks (drop (w - 1) bs))"

definition runes :: "string \<Rightarrow> nat list" where
  "runes s = map fst (rune_chunks (bytes_of s))"

text \<open>\<open>unicode.IsSpace\<close> and \<open>unicode.IsControl\<close>.\<close>

definition IsSpace :: "nat \<Rightarrow> bool" where
  "IsSpace r \<longleftrightarrow>
     (9 \<le> r \<and> r \<le> 13) \<or> r = 32 \<or> r = 0x85 \<or> r = 0xA0 \<or> r = 0x1680 \<or>
     (0x2000 \<le> r \<and> r \<le> 0x200A) \<or> r = 0x2028 \<or> r = 0x2029 \<or> r = 0x202F \<or>
     r = 0x205F \<or> r = 0x3000"

definition IsControl :: "nat \<Rightarrow> bool" where
  "IsControl r \<longleftrightarrow> r < 0x20 \<or> (0x7F \<le> r \<and> r < 0xA0)"

definition identifier_rune :: "nat \<Rightarrow> bool" where
  "identifier_rune r \<longleftrightarrow> \<not> (IsSpace r \<or> IsControl r)"

text \<open>\<open>strings.TrimSpace\<close>: the runes that are white space are dropped at both ends.\<close>

definition TrimSpace :: "string \<Rightarrow> string" where
  "TrimSpace s =
     (let inner = dropWhile (\<lambda>c. IsSpace (fst c)) (rune_chunks (bytes_of s));
          kept = rev (dropWhile (\<lambda>c. IsSpace (fst c)) (rev inner))
      in map char_of (concat (map snd kept)))"

section \<open>Decimals\<close>

fun dec_nat :: "nat \<Rightarrow> string" where
  "dec_nat n =
     (if n < 10 then [char_of (48 + n)] else dec_nat (n div 10) @ [char_of (48 + n mod 10)])"

declare dec_nat.simps [simp del]

text \<open>\<open>fmt.Sprintf("%d", i)\<close>.\<close>

definition dec_int :: "int \<Rightarrow> string" where
  "dec_int i = (if i < 0 then CHR ''-'' # dec_nat (nat (- i)) else dec_nat (nat i))"

section \<open>Slices\<close>

datatype 'a slice = NilSlice | Slice "'a list"

fun elems :: "'a slice \<Rightarrow> 'a list" where
  "elems NilSlice = []"
| "elems (Slice xs) = xs"

text \<open>\<open>append([]T(nil), xs...)\<close>: nil when there is nothing to append.\<close>

definition append_nil :: "'a list \<Rightarrow> 'a slice" where
  "append_nil xs = (if xs = [] then NilSlice else Slice xs)"

section \<open>Maps\<close>

type_synonym ('k, 'v) gomap = "('k \<times> 'v) list"

abbreviation mget :: "('k, 'v) gomap \<Rightarrow> 'k \<Rightarrow> 'v option" where
  "mget m k \<equiv> map_of m k"

abbreviation mput :: "'k \<Rightarrow> 'v \<Rightarrow> ('k, 'v) gomap \<Rightarrow> ('k, 'v) gomap" where
  "mput k v m \<equiv> AList.update k v m"

abbreviation mdel :: "'k \<Rightarrow> ('k, 'v) gomap \<Rightarrow> ('k, 'v) gomap" where
  "mdel k m \<equiv> AList.delete k m"

definition mhas :: "('k, 'v) gomap \<Rightarrow> 'k \<Rightarrow> bool" where
  "mhas m k \<longleftrightarrow> mget m k \<noteq> None"

definition mkeys :: "('k, 'v) gomap \<Rightarrow> 'k list" where
  "mkeys m = map fst m"

definition mvals :: "('k, 'v) gomap \<Rightarrow> 'v list" where
  "mvals m = map snd m"

text \<open>\<open>m[k]\<close> with a zero value for a missing key.\<close>

definition mget_or :: "'v \<Rightarrow> ('k, 'v) gomap \<Rightarrow> 'k \<Rightarrow> 'v" where
  "mget_or z m k = (case mget m k of None \<Rightarrow> z | Some v \<Rightarrow> v)"

text \<open>\<open>for k, v := range m { m[k] = f(k, v) }\<close>: every entry is rewritten in place.\<close>

definition mmap :: "('k \<Rightarrow> 'v \<Rightarrow> 'w) \<Rightarrow> ('k, 'v) gomap \<Rightarrow> ('k, 'w) gomap" where
  "mmap f m = map (\<lambda>(k, v). (k, f k v)) m"

definition wf_map :: "('k, 'v) gomap \<Rightarrow> bool" where
  "wf_map m \<longleftrightarrow> distinct (map fst m)"

section \<open>Instants and durations\<close>

type_synonym Time = int
type_synonym Duration = "64 word"
type_synonym u64 = "64 word"

definition zero_time :: Time where
  "zero_time = 0"

definition IsZero :: "Time \<Rightarrow> bool" where
  "IsZero t \<longleftrightarrow> t = zero_time"

definition max_duration :: Duration where
  "max_duration = 0x7FFFFFFFFFFFFFFF"

text \<open>\<open>t.Add(d)\<close> and \<open>t.Sub(u)\<close>; the latter saturates at the bounds of a duration.\<close>

definition time_add :: "Time \<Rightarrow> Duration \<Rightarrow> Time" where
  "time_add t d = t + sint d"

definition time_sub :: "Time \<Rightarrow> Time \<Rightarrow> Duration" where
  "time_sub t u = word_of_int (max (- (2 ^ 63)) (min (2 ^ 63 - 1) (t - u)))"


section \<open>Lemmas\<close>

lemma bindE_simps [simp]:
  "bindE (Inl e) f = Inl e"
  "bindE (Inr x) f = f x"
  by (simp_all add: bindE_def)

lemma bindE_Inr_iff: "bindE m f = Inr y \<longleftrightarrow> (\<exists>x. m = Inr x \<and> f x = Inr y)"
  by (cases m) (auto simp: bindE_def)

lemma bindE_Inl_iff: "bindE m f = Inl e \<longleftrightarrow> m = Inl e \<or> (\<exists>x. m = Inr x \<and> f x = Inl e)"
  by (cases m) (auto simp: bindE_def)

lemma guardE_simps [simp]:
  "guardE True e = Inl e"
  "guardE False e = Inr ()"
  by (simp_all add: guardE_def)

lemma guardE_Inr_iff [simp]: "guardE b e = Inr u \<longleftrightarrow> \<not> b"
  by (simp add: guardE_def)

lemma guardE_Inl_iff [simp]: "guardE b e = Inl e' \<longleftrightarrow> b \<and> e' = e"
  by (auto simp: guardE_def)

lemma wrapE_simps [simp]:
  "wrapE w (Inl e) = Inl (w e)"
  "wrapE w (Inr x) = Inr x"
  by (simp_all add: wrapE_def)

lemma wrapE_Inr_iff [simp]: "wrapE w m = Inr y \<longleftrightarrow> m = Inr y"
  by (cases m) (simp_all add: wrapE_def)

lemma wrapE_Inl_iff: "wrapE w m = Inl e \<longleftrightarrow> (\<exists>e'. m = Inl e' \<and> e = w e')"
  by (cases m) (auto simp: wrapE_def)

lemma sum_not_Inl: "(\<forall>e. m \<noteq> Inl e) \<longleftrightarrow> (\<exists>x. m = Inr x)"
  by (cases m) auto

subsection \<open>Slices\<close>

lemma elems_append_nil [simp]: "elems (append_nil xs) = xs"
  by (simp add: append_nil_def)

lemma append_nil_inj [simp]: "append_nil xs = append_nil ys \<longleftrightarrow> xs = ys"
  by (auto simp: append_nil_def)

subsection \<open>Maps\<close>

lemma mget_mput [go_map]: "mget (mput k v m) k' = (if k' = k then Some v else mget m k')"
  by (simp add: update_conv')

lemma mget_mdel [go_map]: "mget (mdel k m) k' = (if k' = k then None else mget m k')"
  by (simp add: delete_conv')

lemma mget_mmap [go_map]: "mget (mmap f m) k = map_option (f k) (mget m k)"
  by (induction m) (auto simp: mmap_def)

lemma mmap_simps [simp]:
  "mmap f [] = []"
  "mmap f ((k, v) # m) = (k, f k v) # mmap f m"
  by (simp_all add: mmap_def)

lemma map_fst_mmap [simp]: "map fst (mmap f m) = map fst m"
  by (induction m) auto

lemma wf_map_Nil [simp]: "wf_map []"
  by (simp add: wf_map_def)

lemma wf_map_mput [simp]: "wf_map m \<Longrightarrow> wf_map (mput k v m)"
  by (simp add: wf_map_def distinct_update)

lemma wf_map_mdel [simp]: "wf_map m \<Longrightarrow> wf_map (mdel k m)"
  by (simp add: wf_map_def distinct_delete)

lemma wf_map_mmap [simp]: "wf_map (mmap f m) = wf_map m"
  by (simp add: wf_map_def)

lemma wf_map_distinct: "wf_map m \<Longrightarrow> distinct m"
  by (simp add: wf_map_def distinct_map)

lemma mget_Some_iff: "wf_map m \<Longrightarrow> mget m k = Some v \<longleftrightarrow> (k, v) \<in> set m"
  by (simp add: wf_map_def)

lemma mhas_iff: "mhas m k \<longleftrightarrow> k \<in> fst ` set m"
  by (simp add: mhas_def map_of_eq_None_iff)

lemma mhas_mkeys: "mhas m k \<longleftrightarrow> k \<in> set (mkeys m)"
  by (simp add: mhas_iff mkeys_def)

lemma mhas_mput [simp]: "mhas (mput k v m) k' \<longleftrightarrow> k' = k \<or> mhas m k'"
  by (simp add: mhas_def go_map)

lemma mhas_mdel: "mhas (mdel k m) k' \<longleftrightarrow> k' \<noteq> k \<and> mhas m k'"
  by (simp add: mhas_def go_map)

lemma mhas_mmap [simp]: "mhas (mmap f m) k = mhas m k"
  by (simp add: mhas_def go_map)

lemma mkeys_mmap [simp]: "mkeys (mmap f m) = mkeys m"
  by (simp add: mkeys_def)

lemma mkeys_mput_existing: "mhas m k \<Longrightarrow> mkeys (mput k v m) = mkeys m"
  by (induction m) (auto simp: mkeys_def mhas_def split: if_splits)

lemma set_mput_existing:
  "wf_map m \<Longrightarrow> set (mput k v m) = insert (k, v) {p \<in> set m. fst p \<noteq> k}"
  by (induction m) (auto simp: wf_map_def rev_image_eqI)

lemma mvals_mmap: "mvals (mmap f m) = map (\<lambda>(k, v). f k v) m"
  by (simp add: mvals_def mmap_def case_prod_unfold)

lemma filter_mmap:
  "filter P (mmap f m) = map (\<lambda>(k, v). (k, f k v)) (filter (\<lambda>(k, v). P (k, f k v)) m)"
  by (induction m) auto

lemma map_of_perm:
  assumes "mset m = mset m'" "wf_map m"
  shows "mget m = mget m'"
proof -
  have "mset (map fst m) = mset (map fst m')"
    using assms(1) by (metis mset_map)
  then have "distinct (map fst m')"
    using assms(2) unfolding wf_map_def by (metis mset_eq_imp_distinct_iff)
  moreover have "set m = set m'"
    using assms(1) by (metis set_mset_mset)
  ultimately show ?thesis
    using assms(2) by (auto simp: wf_map_def intro: map_of_inject_set [THEN iffD2])
qed


subsection \<open>Runes and identifiers\<close>

lemma decode_rune_width:
  "snd (decode_rune b bs) - 1 \<le> length bs"
  by (auto simp: decode_rune_def split: list.splits if_splits)

lemma second_byte_ok_ascii: "a < 0x80 \<Longrightarrow> \<not> second_byte_ok b a"
  by (simp add: second_byte_ok_def)

lemma continuation_byte_ascii: "a < 0x80 \<Longrightarrow> \<not> continuation_byte a"
  by (simp add: continuation_byte_def)

lemma decode_rune_append_ascii:
  "a < 0x80 \<Longrightarrow> decode_rune b (bs @ a # cs) = decode_rune b bs"
  by (auto simp: decode_rune_def second_byte_ok_ascii continuation_byte_ascii
           split: list.splits)

lemma rune_chunks_append_ascii:
  assumes "a < 0x80"
  shows "rune_chunks (xs @ a # ys) = rune_chunks xs @ rune_chunks (a # ys)"
proof (induction xs rule: rune_chunks.induct)
  case 1
  then show ?case by simp
next
  case (2 b bs)
  obtain r w where rw: "decode_rune b bs = (r, w)" by fastforce
  then have w: "w - 1 \<le> length bs"
    using decode_rune_width [of b bs] by simp
  have "rune_chunks (drop (w - 1) bs @ a # ys)
        = rune_chunks (drop (w - 1) bs) @ rune_chunks (a # ys)"
    using "2.IH" [OF rw [symmetric] refl] by simp
  moreover have "decode_rune b (bs @ a # ys) = (r, w)"
    using assms rw by (simp add: decode_rune_append_ascii)
  ultimately show ?case
    using rw w by simp
qed

lemma rune_chunks_ascii: "a < 0x80 \<Longrightarrow> rune_chunks (a # ys) = (a, [a]) # rune_chunks ys"
  by (simp add: decode_rune_def)

lemma runes_append_ascii:
  assumes "of_char c < (0x80 :: nat)"
  shows "runes (s @ c # t) = runes s @ of_char c # runes t"
  using assms rune_chunks_append_ascii [of "of_char c" "bytes_of s" "bytes_of t"]
  by (simp add: runes_def bytes_of_def rune_chunks_ascii del: rune_chunks.simps(2))

lemma runes_Nil [simp]: "runes [] = []"
  by (simp add: runes_def bytes_of_def)

lemma runes_Cons_ascii: "of_char c < (0x80 :: nat) \<Longrightarrow> runes (c # t) = of_char c # runes t"
  using runes_append_ascii [of c "[]" t] by simp

lemma runes_append_ascii_string:
  assumes "\<And>c. c \<in> set s \<Longrightarrow> of_char c < (0x80 :: nat)"
  shows "runes (s @ t) = map of_char s @ runes t"
  using assms by (induction s) (simp_all add: runes_Cons_ascii)

lemma runes_ascii_string:
  assumes "\<And>c. c \<in> set s \<Longrightarrow> of_char c < (0x80 :: nat)"
  shows "runes s = map of_char s"
  using runes_append_ascii_string [of s "[]"] assms by simp

lemma concat_rune_chunks: "concat (map snd (rune_chunks bs)) = bs"
  by (induction bs rule: rune_chunks.induct) (auto split: prod.splits)

lemma rune_chunks_snd_nonempty: "c \<in> set (rune_chunks bs) \<Longrightarrow> snd c \<noteq> []"
  by (induction bs rule: rune_chunks.induct) (auto split: prod.splits)

lemma TrimSpace_empty_iff: "TrimSpace s = [] \<longleftrightarrow> list_all IsSpace (runes s)"
proof -
  let ?P = "\<lambda>c :: nat \<times> bytes. IsSpace (fst c)"
  let ?cs = "rune_chunks (bytes_of s)"
  let ?kept = "rev (dropWhile ?P (rev (dropWhile ?P ?cs)))"
  have sub: "set ?kept \<subseteq> set ?cs"
  proof
    fix c assume "c \<in> set ?kept"
    then have "c \<in> set (dropWhile ?P (rev (dropWhile ?P ?cs)))" by (simp only: set_rev)
    then have "c \<in> set (rev (dropWhile ?P ?cs))" by (rule set_dropWhileD)
    then have "c \<in> set (dropWhile ?P ?cs)" by (simp only: set_rev)
    then show "c \<in> set ?cs" by (rule set_dropWhileD)
  qed
  then have ne: "\<forall>c \<in> set ?kept. snd c \<noteq> []"
    by (meson rune_chunks_snd_nonempty subsetD)
  have "TrimSpace s = [] \<longleftrightarrow> concat (map snd ?kept) = []"
    by (simp only: TrimSpace_def Let_def map_is_Nil_conv)
  also have "\<dots> \<longleftrightarrow> ?kept = []"
    using ne by (cases ?kept) (simp_all del: rev_is_Nil_conv)
  also have "\<dots> \<longleftrightarrow> dropWhile ?P (dropWhile ?P ?cs) = []"
    by (simp only: rev_is_Nil_conv dropWhile_eq_Nil_conv set_rev)
  also have "\<dots> \<longleftrightarrow> (\<forall>c \<in> set ?cs. ?P c)"
    by (simp only: dropWhile_idem dropWhile_eq_Nil_conv)
  finally show ?thesis
    by (simp add: runes_def list_all_iff)
qed

subsection \<open>Decimals\<close>

definition digit_char :: "char \<Rightarrow> bool" where
  "digit_char c \<longleftrightarrow> (48 :: nat) \<le> of_char c \<and> (of_char c :: nat) \<le> 57"

fun undec :: "nat \<Rightarrow> string \<Rightarrow> nat" where
  "undec acc [] = acc"
| "undec acc (c # cs) = undec (10 * acc + (of_char c - 48)) cs"

lemma of_char_digit: "n < 10 \<Longrightarrow> of_char (char_of (48 + n :: nat)) = (48 + n :: nat)"
  by (simp add: of_char_of)

lemma dec_nat_digits: "c \<in> set (dec_nat n) \<Longrightarrow> digit_char c"
proof (induction n rule: dec_nat.induct)
  case (1 n)
  then show ?case
    by (subst (asm) (2) dec_nat.simps)
       (auto simp: digit_char_def of_char_digit split: if_splits)
qed

lemma dec_nat_nonempty: "dec_nat n \<noteq> []"
  by (subst dec_nat.simps) simp

lemma undec_append: "undec acc (s @ t) = undec (undec acc s) t"
  by (induction s arbitrary: acc) auto

lemma undec_dec_nat: "undec 0 (dec_nat n) = n"
proof (induction n rule: dec_nat.induct)
  case (1 n)
  show ?case
  proof (cases "n < 10")
    case True
    then show ?thesis by (subst dec_nat.simps) (simp add: of_char_digit)
  next
    case False
    then show ?thesis using 1 by (subst dec_nat.simps) (simp add: undec_append of_char_digit)
  qed
qed

lemma dec_nat_inj [simp]: "dec_nat m = dec_nat n \<longleftrightarrow> m = n"
  by (metis undec_dec_nat)

lemma dec_nat_no_minus: "CHR ''-'' \<notin> set (dec_nat n)"
  using dec_nat_digits [of "CHR ''-''" n] by (auto simp: digit_char_def)

lemma dec_int_inj [simp]: "dec_int i = dec_int j \<longleftrightarrow> i = j"
proof -
  have "CHR ''-'' # s \<noteq> dec_nat n" "dec_nat n \<noteq> CHR ''-'' # s" for s n
    using dec_nat_no_minus [of n] by (metis list.set_intros(1))+
  then show ?thesis by (auto simp: dec_int_def)
qed

lemma dec_int_chars: "c \<in> set (dec_int i) \<Longrightarrow> digit_char c \<or> c = CHR ''-''"
  by (auto simp: dec_int_def dest: dec_nat_digits split: if_splits)

lemma dec_int_no_colon: "CHR '':'' \<notin> set (dec_int i)"
  using dec_int_chars [of "CHR '':''" i] by (auto simp: digit_char_def)

lemma digit_identifier_rune: "digit_char c \<Longrightarrow> identifier_rune (of_char c)"
  by (simp add: digit_char_def identifier_rune_def IsSpace_def IsControl_def)

lemma dec_int_identifier: "c \<in> set (dec_int i) \<Longrightarrow> identifier_rune (of_char c)"
  using dec_int_chars [of c i] digit_identifier_rune
  by (auto simp: identifier_rune_def IsSpace_def IsControl_def)

lemma dec_int_ascii: "c \<in> set (dec_int i) \<Longrightarrow> of_char c < (0x80 :: nat)"
  using dec_int_chars [of c i] by (auto simp: digit_char_def)

text \<open>A string splits uniquely around the first, and around the last, occurrence of a byte.\<close>

lemma append_Cons_first_unique:
  "\<lbrakk>xs @ c # ys = xs' @ c # ys'; c \<notin> set xs; c \<notin> set xs'\<rbrakk> \<Longrightarrow> xs = xs' \<and> ys = ys'"
proof (induction xs arbitrary: xs')
  case Nil
  then show ?case by (cases xs') auto
next
  case (Cons x xs)
  then show ?case by (cases xs') auto
qed

lemma append_Cons_last_unique:
  assumes "xs @ c # ys = xs' @ c # ys'" "c \<notin> set ys" "c \<notin> set ys'"
  shows "xs = xs' \<and> ys = ys'"
proof -
  from assms(1) have "rev ys @ c # rev xs = rev ys' @ c # rev xs'"
    by (metis append.assoc append_Cons append_Nil rev.simps(2) rev_append)
  with assms(2,3) show ?thesis
    using append_Cons_first_unique [of "rev ys" c "rev xs" "rev ys'" "rev xs'"] by simp
qed

end
