(* ===== verification/FF_Heap.thy ===== *)
theory FF_Heap
  imports FF_Prelude
begin

text \<open>
  The priority queue behind the scheduler's deterministic order: \<open>container/heap\<close> over the slice
  type \<open>taskIDHeap\<close> of \<open>internal/workflow/graph.go\<close>. The slice methods (\<open>Len\<close>, \<open>Less\<close>, \<open>Swap\<close>,
  \<open>Push\<close>, \<open>Pop\<close>) are the program's; \<open>heap_up\<close>, \<open>heap_down\<close>, \<open>heap_Init\<close>, \<open>heap_Push\<close> and
  \<open>heap_Pop\<close> are the standard library's sifting algorithm over them. The locale \<open>min_queue\<close> is the
  contract the topological sort relies on; its interpretation \<open>task_heap\<close> shows that the binary heap
  meets it.
\<close>

section \<open>The slice methods of taskIDHeap\<close>

definition heap_Len :: "'a list \<Rightarrow> nat" where
  "heap_Len taskIDs = length taskIDs"

definition heap_Less :: "'a::linorder list \<Rightarrow> nat \<Rightarrow> nat \<Rightarrow> bool" where
  "heap_Less taskIDs left right \<longleftrightarrow> taskIDs ! left < taskIDs ! right"

definition heap_Swap :: "'a list \<Rightarrow> nat \<Rightarrow> nat \<Rightarrow> 'a list" where
  "heap_Swap taskIDs left right = taskIDs[left := taskIDs ! right, right := taskIDs ! left]"

definition slice_Push :: "'a list \<Rightarrow> 'a \<Rightarrow> 'a list" where
  "slice_Push taskIDs v = taskIDs @ [v]"

definition slice_Pop :: "'a list \<Rightarrow> 'a \<times> 'a list" where
  "slice_Pop taskIDs =
     (let lastIndex = length taskIDs - 1 in (taskIDs ! lastIndex, take lastIndex taskIDs))"

section \<open>container/heap\<close>

function heap_up :: "'a::linorder list \<Rightarrow> nat \<Rightarrow> 'a list" where
  "heap_up h j =
     (let i = (j - 1) div 2
      in if i = j \<or> \<not> heap_Less h j i then h else heap_up (heap_Swap h i j) i)"
  by pat_completeness auto
termination by (relation "measure snd") auto

function heap_down :: "'a::linorder list \<Rightarrow> nat \<Rightarrow> nat \<Rightarrow> 'a list" where
  "heap_down h i n =
     (let j1 = 2 * i + 1
      in if n \<le> j1 then h
         else let j = (if j1 + 1 < n \<and> heap_Less h (j1 + 1) j1 then j1 + 1 else j1)
              in if \<not> heap_Less h j i then h else heap_down (heap_Swap h i j) j n)"
  by pat_completeness auto
termination by (relation "measure (\<lambda>(h, i, n). n - i)") (auto split: if_splits)

declare heap_up.simps [simp del] heap_down.simps [simp del]

text \<open>The loop \<open>for i := n/2 - 1; i >= 0; i--\<close> of \<open>heap.Init\<close>.\<close>

fun heapify :: "'a::linorder list \<Rightarrow> nat \<Rightarrow> 'a list" where
  "heapify h 0 = h"
| "heapify h (Suc i) = heapify (heap_down h i (length h)) i"

definition heap_Init :: "'a::linorder list \<Rightarrow> 'a list" where
  "heap_Init h = heapify h (heap_Len h div 2)"

definition heap_Push :: "'a::linorder list \<Rightarrow> 'a \<Rightarrow> 'a list" where
  "heap_Push h x = (let h1 = slice_Push h x in heap_up h1 (heap_Len h1 - 1))"

definition heap_Pop :: "'a::linorder list \<Rightarrow> 'a \<times> 'a list" where
  "heap_Pop h = (let n = heap_Len h - 1 in slice_Pop (heap_down (heap_Swap h 0 n) 0 n))"

section \<open>The contract of a priority queue\<close>

locale min_queue =
  fixes qinit :: "'a::linorder list \<Rightarrow> 'q"
    and qpush :: "'q \<Rightarrow> 'a \<Rightarrow> 'q"
    and qpop :: "'q \<Rightarrow> 'a \<times> 'q"
    and elements :: "'q \<Rightarrow> 'a multiset"
    and invar :: "'q \<Rightarrow> bool"
  assumes invar_init: "invar (qinit xs)"
    and elements_init: "elements (qinit xs) = mset xs"
    and invar_push: "invar q \<Longrightarrow> invar (qpush q x)"
    and elements_push: "invar q \<Longrightarrow> elements (qpush q x) = add_mset x (elements q)"
    and invar_pop: "\<lbrakk>invar q; elements q \<noteq> {#}; qpop q = (x, q')\<rbrakk> \<Longrightarrow> invar q'"
    and elements_pop: "\<lbrakk>invar q; elements q \<noteq> {#}; qpop q = (x, q')\<rbrakk> \<Longrightarrow> elements q = add_mset x (elements q')"
    and pop_least: "\<lbrakk>invar q; elements q \<noteq> {#}; qpop q = (x, q'); y \<in># elements q\<rbrakk> \<Longrightarrow> x \<le> y"
begin

lemma pop_is_Min:
  assumes "invar q" "elements q \<noteq> {#}" "qpop q = (x, q')"
  shows "x = Min (set_mset (elements q))"
proof (rule Min_eqI [symmetric])
  show "x \<in># elements q" using elements_pop [OF assms] by simp
  show "x \<le> y" if "y \<in># elements q" for y using pop_least [OF assms that] .
qed simp

lemma pop_distinct:
  assumes "invar q" "A \<noteq> {}" "finite A" "elements q = mset_set A" "qpop q = (x, q')"
  shows "x = Min A" "elements q' = mset_set (A - {x})" "invar q'"
proof -
  have ne: "elements q \<noteq> {#}"
    using assms(2-4) by (simp add: mset_set_empty_iff)
  show "x = Min A"
    using pop_is_Min [OF assms(1) ne assms(5)] assms(3,4) by simp
  then have "x \<in> A" using assms(2,3) by simp
  moreover have "mset_set A = add_mset x (elements q')"
    using elements_pop [OF assms(1) ne assms(5)] assms(4) by simp
  ultimately show "elements q' = mset_set (A - {x})"
    using assms(3) by (metis add_mset_remove_trivial mset_set.remove)
  show "invar q'" by (rule invar_pop [OF assms(1) ne assms(5)])
qed

end

section \<open>The binary heap meets the contract\<close>

definition parent :: "nat \<Rightarrow> nat" where
  "parent j = (j - 1) div 2"

definition heap_from :: "nat \<Rightarrow> nat \<Rightarrow> 'a::linorder list \<Rightarrow> bool" where
  "heap_from k n h \<longleftrightarrow> (\<forall>j. 0 < j \<and> j < n \<and> k \<le> parent j \<longrightarrow> h ! parent j \<le> h ! j)"

definition down_pre :: "nat \<Rightarrow> nat \<Rightarrow> nat \<Rightarrow> 'a::linorder list \<Rightarrow> bool" where
  "down_pre k i n h \<longleftrightarrow>
     (\<forall>j. 0 < j \<and> j < n \<and> k \<le> parent j \<and> parent j \<noteq> i \<longrightarrow> h ! parent j \<le> h ! j) \<and>
     (\<forall>j. 0 < j \<and> j < n \<and> parent j = i \<and> 0 < i \<and> k \<le> parent i \<longrightarrow> h ! parent i \<le> h ! j)"

definition up_pre :: "nat \<Rightarrow> 'a::linorder list \<Rightarrow> bool" where
  "up_pre i h \<longleftrightarrow>
     (\<forall>j. 0 < j \<and> j < length h \<and> j \<noteq> i \<longrightarrow> h ! parent j \<le> h ! j) \<and>
     (\<forall>j. 0 < j \<and> j < length h \<and> parent j = i \<and> 0 < i \<longrightarrow> h ! parent i \<le> h ! j)"

lemma length_heap_Swap [simp]: "length (heap_Swap h i j) = length h"
  by (simp add: heap_Swap_def)

lemma nth_heap_Swap:
  "\<lbrakk>i < length h; j < length h; i \<noteq> j\<rbrakk> \<Longrightarrow>
   heap_Swap h i j ! k = (if k = i then h ! j else if k = j then h ! i else h ! k)"
  by (simp add: heap_Swap_def nth_list_update)

lemma mset_heap_Swap: "\<lbrakk>i < length h; j < length h\<rbrakk> \<Longrightarrow> mset (heap_Swap h i j) = mset h"
  by (simp add: heap_Swap_def mset_swap)

lemma parent_less: "0 < j \<Longrightarrow> parent j < j"
  by (simp add: parent_def)

lemma parent_children: "0 < j \<Longrightarrow> parent j = i \<longleftrightarrow> j = 2 * i + 1 \<or> j = 2 * i + 2"
  by (auto simp: parent_def)

lemma length_heap_down [simp]: "length (heap_down h i n) = length h"
proof (induction h i n rule: heap_down.induct)
  case (1 h i n)
  show ?case by (subst heap_down.simps) (use 1 in \<open>simp add: Let_def\<close>)
qed

lemma length_heap_up [simp]: "length (heap_up h j) = length h"
proof (induction h j rule: heap_up.induct)
  case (1 h j)
  show ?case by (subst heap_up.simps) (use 1 in \<open>simp add: Let_def\<close>)
qed

lemma length_heapify [simp]: "length (heapify h i) = length h"
  by (induction h i rule: heapify.induct) simp_all

text \<open>One round of \<open>heap_down\<close>: either the loop stops, or it moves to the smaller child \<open>j\<close>.\<close>

lemma heap_down_cases:
  assumes "i < n" "n \<le> length h"
  obtains (stop) "heap_down h i n = h" "\<And>j. 0 < j \<Longrightarrow> j < n \<Longrightarrow> parent j = i \<Longrightarrow> h ! i \<le> h ! j"
    | (move) j where "heap_down h i n = heap_down (heap_Swap h i j) j n" "i < j" "j < n"
        "parent j = i" "h ! j < h ! i" "\<And>j'. 0 < j' \<Longrightarrow> j' < n \<Longrightarrow> parent j' = i \<Longrightarrow> h ! j \<le> h ! j'"
proof (cases "n \<le> 2 * i + 1")
  case True
  show ?thesis
  proof (rule stop)
    show "heap_down h i n = h" using True by (subst heap_down.simps) simp
    show "h ! i \<le> h ! j" if "0 < j" "j < n" "parent j = i" for j
      using that True by (simp add: parent_children)
  qed
next
  case False
  define j where "j = (if 2 * i + 1 + 1 < n \<and> heap_Less h (2 * i + 1 + 1) (2 * i + 1)
                       then 2 * i + 1 + 1 else 2 * i + 1)"
  have j: "i < j" "j < n" "parent j = i"
    using False by (auto simp: j_def parent_def)
  have least: "h ! j \<le> h ! j'" if "0 < j'" "j' < n" "parent j' = i" for j'
    using that by (auto simp: parent_children j_def heap_Less_def)
  have unf: "heap_down h i n = (if \<not> heap_Less h j i then h else heap_down (heap_Swap h i j) j n)"
    using False by (subst heap_down.simps) (simp only: Let_def j_def if_False)
  show ?thesis
  proof (cases "heap_Less h j i")
    case True
    show ?thesis
      by (rule move [of j]) (use True j unf least in \<open>simp_all add: heap_Less_def\<close>)
  next
    case False
    show ?thesis
    proof (rule stop)
      show "heap_down h i n = h" using False unf by simp
      show "h ! i \<le> h ! j'" if "0 < j'" "j' < n" "parent j' = i" for j'
        using False least [OF that] by (auto simp: heap_Less_def)
    qed
  qed
qed

text \<open>Induction over the rounds of \<open>heap_down\<close>.\<close>

lemma heap_down_induct [consumes 2, case_names stop move]:
  assumes "i < n" "n \<le> length h"
    and stop: "\<And>h i. \<lbrakk>i < n; n \<le> length h; heap_down h i n = h;
           \<And>j. 0 < j \<Longrightarrow> j < n \<Longrightarrow> parent j = i \<Longrightarrow> h ! i \<le> h ! j\<rbrakk> \<Longrightarrow> P h i"
    and move: "\<And>h i j. \<lbrakk>i < j; j < n; n \<le> length h; parent j = i; h ! j < h ! i;
           heap_down h i n = heap_down (heap_Swap h i j) j n;
           \<And>j'. 0 < j' \<Longrightarrow> j' < n \<Longrightarrow> parent j' = i \<Longrightarrow> h ! j \<le> h ! j'; P (heap_Swap h i j) j\<rbrakk> \<Longrightarrow> P h i"
  shows "P h i"
  using assms(1,2)
proof (induction "n - i" arbitrary: h i rule: less_induct)
  case less
  from less.prems show ?case
  proof (cases rule: heap_down_cases)
    case stop
    then show ?thesis using less.prems by (intro assms(3)) auto
  next
    case (move j)
    have "P (heap_Swap h i j) j" using move less.prems by (intro less.hyps) auto
    then show ?thesis using move less.prems by (intro assms(4) [of i j h]) auto
  qed
qed

lemma mset_heap_down: "\<lbrakk>i < n; n \<le> length h\<rbrakk> \<Longrightarrow> mset (heap_down h i n) = mset h"
  by (induction rule: heap_down_induct) (simp_all add: mset_heap_Swap)

lemma heap_down_nth_ge: "\<lbrakk>i < n; n \<le> length h; n \<le> k\<rbrakk> \<Longrightarrow> heap_down h i n ! k = h ! k"
  by (induction rule: heap_down_induct) (simp_all add: nth_heap_Swap)

lemma down_pre_Swap:
  assumes "down_pre k i n h" "i < j" "j < n" "n \<le> length h" "parent j = i" "k \<le> i" "h ! j < h ! i"
    and least: "\<And>j'. 0 < j' \<Longrightarrow> j' < n \<Longrightarrow> parent j' = i \<Longrightarrow> h ! j \<le> h ! j'"
  shows "down_pre k j n (heap_Swap h i j)"
proof -
  note sw = nth_heap_Swap [of i h j]
  have ij: "i < length h" "j < length h" "i \<noteq> j" using assms(2-4) by simp_all
  have 1: "heap_Swap h i j ! parent c \<le> heap_Swap h i j ! c"
    if "0 < c" "c < n" "k \<le> parent c" "parent c \<noteq> j" for c
  proof (cases "parent c = i")
    case True
    then have "c \<noteq> i" using parent_less [of c] that(1) by auto
    then show ?thesis
      using True ij least [of c] assms(7) that by (auto simp: sw)
  next
    case False
    then have "c \<noteq> j" using assms(5) by auto
    show ?thesis
    proof (cases "c = i")
      case True
      then have "h ! parent i \<le> h ! j"
        using assms(1-3,5) that unfolding down_pre_def by auto
      then show ?thesis using True ij False that by (simp add: sw)
    next
      case c: False
      then have "h ! parent c \<le> h ! c" using assms(1) False that unfolding down_pre_def by blast
      then show ?thesis using c \<open>c \<noteq> j\<close> ij False that by (simp add: sw)
    qed
  qed
  have 2: "heap_Swap h i j ! parent j \<le> heap_Swap h i j ! c"
    if "0 < c" "c < n" "parent c = j" for c
  proof -
    have "c \<noteq> i" "c \<noteq> j" using parent_less [of c] that assms(2) by auto
    moreover have "h ! j \<le> h ! c"
      using assms(1,2,6) that ij unfolding down_pre_def by fastforce
    ultimately show ?thesis using ij assms(5) by (simp add: sw)
  qed
  show ?thesis unfolding down_pre_def using 1 2 by blast
qed

lemma heap_down_heap_from:
  "\<lbrakk>i < n; n \<le> length h; down_pre k i n h; k \<le> i\<rbrakk> \<Longrightarrow> heap_from k n (heap_down h i n)"
proof (induction rule: heap_down_induct)
  case (stop h i)
  then show ?case unfolding heap_from_def down_pre_def by (metis (no_types, lifting))
next
  case (move h i j)
  have "down_pre k j n (heap_Swap h i j)"
    using move by (intro down_pre_Swap) auto
  then show ?case using move by simp
qed

lemma heap_from_imp_down_pre: "heap_from (Suc i) n h \<Longrightarrow> down_pre i i n h"
  unfolding heap_from_def down_pre_def
  by (auto simp: parent_def)

lemma heapify_heap:
  "\<lbrakk>2 * i \<le> length h; heap_from i (length h) h\<rbrakk> \<Longrightarrow>
   heap_from 0 (length h) (heapify h i) \<and> mset (heapify h i) = mset h"
proof (induction i arbitrary: h)
  case 0
  then show ?case by simp
next
  case (Suc i)
  have "heap_from i (length h) (heap_down h i (length h))"
    using Suc.prems by (intro heap_down_heap_from heap_from_imp_down_pre) auto
  moreover have "mset (heap_down h i (length h)) = mset h"
    using Suc.prems by (intro mset_heap_down) auto
  ultimately show ?case
    using Suc.IH [of "heap_down h i (length h)"] Suc.prems by simp
qed

lemma heap_Init_heap: "heap_from 0 (length h) (heap_Init h) \<and> mset (heap_Init h) = mset h"
  unfolding heap_Init_def heap_Len_def
  by (rule heapify_heap) (auto simp: heap_from_def parent_def)

lemma up_pre_Swap:
  assumes "up_pre j h" "0 < j" "j < length h" "h ! j < h ! parent j"
  shows "up_pre (parent j) (heap_Swap h (parent j) j)"
proof -
  define i where "i = parent j"
  have i: "i < j" using parent_less [OF assms(2)] by (simp add: i_def)
  note sw = nth_heap_Swap [of i h j]
  have ij: "i < length h" "j < length h" "i \<noteq> j" using assms(3) i by simp_all
  have ord: "h ! parent c \<le> h ! c" if "0 < c" "c < length h" "c \<noteq> j" for c
    using assms(1) that unfolding up_pre_def by blast
  have 1: "heap_Swap h i j ! parent c \<le> heap_Swap h i j ! c"
    if "0 < c" "c < length h" "c \<noteq> i" for c
  proof -
    consider "c = j" | "c \<noteq> j" "parent c = j" | "c \<noteq> j" "parent c = i" | "c \<noteq> j" "parent c \<noteq> i" "parent c \<noteq> j"
      by blast
    then show ?thesis
    proof cases
      case 1
      then show ?thesis using assms(4) ij by (simp add: sw i_def [symmetric])
    next
      case 2
      then have "h ! i \<le> h ! c"
        using assms(1,2) that unfolding up_pre_def i_def by blast
      then show ?thesis using 2 ij that by (simp add: sw)
    next
      case 3
      then show ?thesis using ord [of c] assms(4) ij that by (simp add: sw i_def [symmetric])
    next
      case 4
      then show ?thesis using ord [of c] ij that by (simp add: sw)
    qed
  qed
  have 2: "heap_Swap h i j ! parent i \<le> heap_Swap h i j ! c"
    if "0 < c" "c < length h" "parent c = i" "0 < i" for c
  proof -
    have pi: "parent i < i" "h ! parent i \<le> h ! i"
      using parent_less [OF that(4)] ord [of i] ij that by auto
    show ?thesis
    proof (cases "c = j")
      case True
      then show ?thesis using pi i ij by (simp add: sw)
    next
      case False
      then have "h ! i \<le> h ! c" "c \<noteq> i" using ord [of c] parent_less [of c] that by auto
      then show ?thesis using pi i ij False by (auto simp: sw)
    qed
  qed
  show ?thesis unfolding up_pre_def i_def [symmetric] using 1 2 by simp
qed

lemma heap_up_heap:
  "\<lbrakk>j < length h; up_pre j h\<rbrakk> \<Longrightarrow>
   heap_from 0 (length h) (heap_up h j) \<and> mset (heap_up h j) = mset h"
proof (induction j arbitrary: h rule: less_induct)
  case (less j)
  show ?case
  proof (cases "0 < j \<and> h ! j < h ! parent j")
    case True
    then have p: "parent j < j" by (simp add: parent_less)
    have "heap_up h j = heap_up (heap_Swap h (parent j) j) (parent j)"
      using True p by (subst heap_up.simps) (simp add: heap_Less_def parent_def Let_def)
    then show ?thesis
      using less.IH [OF p, of "heap_Swap h (parent j) j"] up_pre_Swap [of j h] True p less.prems
      by (simp add: mset_heap_Swap)
  next
    case False
    then have "heap_up h j = h"
      by (subst heap_up.simps) (auto simp: heap_Less_def parent_def Let_def)
    moreover have "heap_from 0 (length h) h"
      using False less.prems unfolding heap_from_def up_pre_def
      by (metis not_less)
    ultimately show ?thesis by simp
  qed
qed

lemma heap_Push_heap:
  assumes "heap_from 0 (length h) h"
  shows "heap_from 0 (Suc (length h)) (heap_Push h x) \<and> mset (heap_Push h x) = add_mset x (mset h)"
proof -
  have old: "(h @ [x]) ! parent j \<le> (h @ [x]) ! j" if "0 < j" "j < length h" for j
    using assms that parent_less [OF that(1)] by (simp add: heap_from_def nth_append)
  have "parent j \<noteq> length h" if "0 < j" "j < Suc (length h)" for j
    using that parent_less [OF that(1)] by simp
  then have "up_pre (length h) (h @ [x])"
    using old unfolding up_pre_def by (auto simp: less_Suc_eq)
  then show ?thesis
    using heap_up_heap [of "length h" "h @ [x]"]
    by (simp add: heap_Push_def slice_Push_def heap_Len_def Let_def)
qed

lemma heap_root_least: "\<lbrakk>heap_from 0 n h; j < n\<rbrakk> \<Longrightarrow> h ! 0 \<le> h ! j"
proof (induction j rule: less_induct)
  case (less j)
  show ?case
  proof (cases "j = 0")
    case False
    then have "h ! 0 \<le> h ! parent j" "h ! parent j \<le> h ! j"
      using less parent_less [of j] by (auto simp: heap_from_def)
    then show ?thesis by simp
  qed simp
qed

lemma heap_Pop_heap:
  assumes "heap_from 0 (length h) h" "h \<noteq> []" "heap_Pop h = (x, h')"
  shows "heap_from 0 (length h') h'" "mset h = add_mset x (mset h')" "x = h ! 0"
proof -
  define n where "n = length h - 1"
  define g where "g = heap_Swap h 0 n"
  define d where "d = heap_down g 0 n"
  have n: "n < length h" "length h = Suc n" "length g = Suc n" "length d = Suc n"
    using assms(2) by (simp_all add: n_def g_def d_def)
  have "heap_Pop h = (d ! n, take n d)"
    using n(4) unfolding heap_Pop_def slice_Pop_def heap_Len_def Let_def
      n_def [symmetric] g_def [symmetric] d_def [symmetric] by simp
  then have x: "x = d ! n" and h': "h' = take n d" using assms(3) by simp_all
  have gn: "g ! n = h ! 0" and mg: "mset g = mset h"
    using n by (auto simp: g_def heap_Swap_def mset_swap nth_list_update)
  have d: "d ! n = g ! n \<and> mset d = mset g \<and> heap_from 0 n d"
  proof (cases "n = 0")
    case True
    then show ?thesis by (simp add: d_def heap_from_def heap_down.simps)
  next
    case False
    have "g ! parent j \<le> g ! j" if "0 < j" "j < n" "parent j \<noteq> 0" for j
    proof -
      have "h ! parent j \<le> h ! j" using assms(1) n that by (simp add: heap_from_def)
      then show ?thesis using that n parent_less [OF that(1)] by (simp add: g_def nth_heap_Swap)
    qed
    then have "down_pre 0 0 n g" by (simp add: down_pre_def)
    then show ?thesis
      using False n by (simp add: d_def heap_down_nth_ge mset_heap_down heap_down_heap_from)
  qed
  show "x = h ! 0" using x d gn by simp
  have "d = take n d @ [d ! n]" using n by (simp add: take_Suc_conv_app_nth [symmetric])
  then have "mset d = add_mset (d ! n) (mset (take n d))"
    by (metis add_mset_add_single mset.simps mset_append)
  then show "mset h = add_mset x (mset h')" using d mg x h' by simp
  have "parent j < n" if "0 < j" "j < n" for j using parent_less [OF that(1)] that by simp
  then show "heap_from 0 (length h') h'"
    using d n unfolding h' heap_from_def by simp
qed

interpretation task_heap: min_queue heap_Init heap_Push heap_Pop mset "\<lambda>h. heap_from 0 (length h) h"
proof
  fix xs h h' :: "'a list" and x y
  show "heap_from 0 (length (heap_Init xs)) (heap_Init xs)"
    using heap_Init_heap [of xs] by (simp add: heap_Init_def)
  show "mset (heap_Init xs) = mset xs" using heap_Init_heap [of xs] by simp
  assume inv: "heap_from 0 (length h) h"
  have "length (heap_Push h x) = Suc (length h)"
    by (simp add: heap_Push_def slice_Push_def Let_def)
  then show "heap_from 0 (length (heap_Push h x)) (heap_Push h x)"
    using heap_Push_heap [OF inv, of x] by simp
  show "mset (heap_Push h x) = add_mset x (mset h)" using heap_Push_heap [OF inv, of x] by simp
  assume ne: "mset h \<noteq> {#}" and pop: "heap_Pop h = (x, h')"
  then have "h \<noteq> []" by simp
  note * = heap_Pop_heap [OF inv this pop]
  show "heap_from 0 (length h') h'" "mset h = add_mset x (mset h')" using * by simp_all
  assume "y \<in># mset h"
  then show "x \<le> y" using *(3) heap_root_least [OF inv] by (auto simp: in_set_conv_nth)
qed

lemma length_heap_Push [simp]: "length (heap_Push h x) = Suc (length h)"
  by (simp add: heap_Push_def slice_Push_def Let_def)

lemma length_heap_Pop: "\<lbrakk>heap_Pop h = (x, h'); h \<noteq> []\<rbrakk> \<Longrightarrow> Suc (length h') = length h"
  by (auto simp: heap_Pop_def slice_Pop_def heap_Len_def Let_def)

end
