(* ===== verification/FF_Workflow.thy ===== *)
theory FF_Workflow
  imports FF_Heap
begin

text \<open>
  Workflow definitions and their dependency semantics: \<open>internal/workflow/definition.go\<close>,
  \<open>errors.go\<close> and \<open>graph.go\<close>. The graph is built with the same maps, in the same order and with the
  same early returns as \<open>buildDependencyGraph\<close>; the topological sort is the code's Kahn loop over the
  binary heap of \<open>FF_Heap\<close>, a total function because every round removes one heap entry and every
  push consumes one unit of remaining indegree.
\<close>

section \<open>definition.go\<close>

type_synonym WorkflowID = string
type_synonym TaskID = string
type_synonym HandlerName = string

record RetryPolicy =
  MaxAttempts :: int
  InitialBackoff :: Duration
  MaxBackoff :: Duration

definition EffectiveMaxAttempts :: "RetryPolicy \<Rightarrow> int" where
  "EffectiveMaxAttempts policy = (if MaxAttempts policy = 0 then 1 else MaxAttempts policy)"

text \<open>The loop \<open>for attempt := 1; attempt < completedAttempt; attempt++\<close>: the first argument after
  the policy counts the rounds left.\<close>

fun retry_delay_loop :: "RetryPolicy \<Rightarrow> nat \<Rightarrow> Duration \<Rightarrow> Duration" where
  "retry_delay_loop policy 0 delay =
     (if 0 < sint (MaxBackoff policy) \<and> sint (MaxBackoff policy) < sint delay
      then MaxBackoff policy else delay)"
| "retry_delay_loop policy (Suc rounds) delay =
     (if 0 < sint (MaxBackoff policy) \<and> sint (MaxBackoff policy) \<le> sint delay
      then MaxBackoff policy
      else retry_delay_loop policy rounds
             (if (2 ^ 63 - 1) div 2 < sint delay then max_duration else delay * 2))"

definition RetryDelay :: "RetryPolicy \<Rightarrow> int \<Rightarrow> Duration" where
  "RetryDelay policy completedAttempt =
     (if completedAttempt < 1 \<or> sint (InitialBackoff policy) \<le> 0 then 0
      else retry_delay_loop policy (nat (completedAttempt - 1)) (InitialBackoff policy))"

record TaskDefinition =
  td_ID :: TaskID
  td_Name :: string
  td_Dependencies :: "TaskID slice"
  td_Handler :: HandlerName
  td_Input :: string
  td_Retry :: RetryPolicy

record WorkflowDefinition =
  wd_ID :: WorkflowID
  wd_Tasks :: "TaskDefinition list"

section \<open>errors.go\<close>

datatype ValidationCode =
    ValidationInvalidWorkflowID
  | ValidationEmptyWorkflow
  | ValidationInvalidTaskID
  | ValidationInvalidTaskName
  | ValidationDuplicateTaskID
  | ValidationInvalidDependencyID
  | ValidationMissingDependency
  | ValidationSelfDependency
  | ValidationDuplicateDependency
  | ValidationCycle
  | ValidationUnknownCompletedTask
  | ValidationInvalidRetryPolicy

record ValidationError =
  ve_Code :: ValidationCode
  ve_WorkflowID :: WorkflowID
  ve_TaskID :: TaskID
  ve_DependencyID :: TaskID
  ve_Reason :: string

definition validation_error :: "ValidationCode \<Rightarrow> WorkflowID \<Rightarrow> ValidationError" where
  "validation_error code workflowID =
     \<lparr>ve_Code = code, ve_WorkflowID = workflowID, ve_TaskID = '''', ve_DependencyID = '''', ve_Reason = ''''\<rparr>"

section \<open>graph.go: building the graph\<close>

record dependencyGraph =
  tasks :: "(TaskID, TaskDefinition) gomap"
  taskIDs :: "TaskID list"
  indegree :: "(TaskID, int) gomap"
  dependents :: "(TaskID, TaskID list) gomap"

definition workflow_validIdentifier :: "string \<Rightarrow> bool" where
  "workflow_validIdentifier identifier \<longleftrightarrow>
     (if identifier = '''' then False
      else list_all (\<lambda>character. \<not> (IsSpace character \<or> IsControl character)) (runes identifier))"

definition invalidRetryPolicyReason :: "RetryPolicy \<Rightarrow> string" where
  "invalidRetryPolicyReason policy =
     (if MaxAttempts policy < 0 then ''maximum attempts must not be negative''
      else if sint (InitialBackoff policy) < 0 then ''initial backoff must not be negative''
      else if sint (MaxBackoff policy) < 0 then ''maximum backoff must not be negative''
      else if 0 < sint (MaxBackoff policy) \<and> sint (MaxBackoff policy) < sint (InitialBackoff policy)
        then ''maximum backoff must not be less than initial backoff''
      else '''')"

definition sortTaskIDs :: "TaskID list \<Rightarrow> TaskID list" where
  "sortTaskIDs ids = sort ids"

text \<open>The first loop of \<open>buildDependencyGraph\<close>: register every task.\<close>

fun add_tasks :: "WorkflowID \<Rightarrow> TaskDefinition list \<Rightarrow> dependencyGraph \<Rightarrow> ValidationError + dependencyGraph" where
  "add_tasks wid [] graph = Inr graph"
| "add_tasks wid (task # rest) graph =
     (if \<not> workflow_validIdentifier (td_ID task) then
        Inl ((validation_error ValidationInvalidTaskID wid)\<lparr>ve_TaskID := td_ID task\<rparr>)
      else if TrimSpace (td_Name task) = '''' then
        Inl ((validation_error ValidationInvalidTaskName wid)\<lparr>ve_TaskID := td_ID task\<rparr>)
      else if invalidRetryPolicyReason (td_Retry task) \<noteq> '''' then
        Inl ((validation_error ValidationInvalidRetryPolicy wid)
               \<lparr>ve_TaskID := td_ID task, ve_Reason := invalidRetryPolicyReason (td_Retry task)\<rparr>)
      else if mhas (tasks graph) (td_ID task) then
        Inl ((validation_error ValidationDuplicateTaskID wid)\<lparr>ve_TaskID := td_ID task\<rparr>)
      else add_tasks wid rest
             (graph\<lparr>tasks := mput (td_ID task) task (tasks graph),
                    taskIDs := taskIDs graph @ [td_ID task],
                    indegree := mput (td_ID task) 0 (indegree graph)\<rparr>))"

text \<open>The inner loop over one task's dependencies; \<open>seen\<close> is \<open>seenDependencies\<close>.\<close>

fun add_edges :: "WorkflowID \<Rightarrow> TaskID \<Rightarrow> TaskID list \<Rightarrow> TaskID list \<Rightarrow> dependencyGraph
                  \<Rightarrow> ValidationError + dependencyGraph" where
  "add_edges wid tid seen [] graph = Inr graph"
| "add_edges wid tid seen (dep # rest) graph =
     (if \<not> workflow_validIdentifier dep then
        Inl ((validation_error ValidationInvalidDependencyID wid)\<lparr>ve_TaskID := tid, ve_DependencyID := dep\<rparr>)
      else if dep = tid then
        Inl ((validation_error ValidationSelfDependency wid)\<lparr>ve_TaskID := tid, ve_DependencyID := dep\<rparr>)
      else if dep \<in> set seen then
        Inl ((validation_error ValidationDuplicateDependency wid)\<lparr>ve_TaskID := tid, ve_DependencyID := dep\<rparr>)
      else if \<not> mhas (tasks graph) dep then
        Inl ((validation_error ValidationMissingDependency wid)\<lparr>ve_TaskID := tid, ve_DependencyID := dep\<rparr>)
      else add_edges wid tid (dep # seen) rest
             (graph\<lparr>indegree := mput tid (mget_or 0 (indegree graph) tid + 1) (indegree graph),
                    dependents := mput dep (mget_or [] (dependents graph) dep @ [tid]) (dependents graph)\<rparr>))"

text \<open>The zero value a Go map lookup yields for an absent task.\<close>

definition zero_TaskDefinition :: TaskDefinition where
  "zero_TaskDefinition =
     \<lparr>td_ID = '''', td_Name = '''', td_Dependencies = NilSlice, td_Handler = '''', td_Input = '''',
      td_Retry = \<lparr>MaxAttempts = 0, InitialBackoff = 0, MaxBackoff = 0\<rparr>\<rparr>"

definition graph_task :: "dependencyGraph \<Rightarrow> TaskID \<Rightarrow> TaskDefinition" where
  "graph_task graph taskID = mget_or zero_TaskDefinition (tasks graph) taskID"

fun add_all_edges :: "WorkflowID \<Rightarrow> TaskID list \<Rightarrow> dependencyGraph \<Rightarrow> ValidationError + dependencyGraph" where
  "add_all_edges wid [] graph = Inr graph"
| "add_all_edges wid (taskID # rest) graph =
     bindE (add_edges wid (td_ID (graph_task graph taskID)) []
              (elems (td_Dependencies (graph_task graph taskID))) graph)
       (add_all_edges wid rest)"

definition empty_graph :: dependencyGraph where
  "empty_graph = \<lparr>tasks = [], taskIDs = [], indegree = [], dependents = []\<rparr>"

definition buildDependencyGraph :: "WorkflowDefinition \<Rightarrow> ValidationError + dependencyGraph" where
  "buildDependencyGraph definition =
     (if \<not> workflow_validIdentifier (wd_ID definition) then
        Inl (validation_error ValidationInvalidWorkflowID (wd_ID definition))
      else if wd_Tasks definition = [] then
        Inl (validation_error ValidationEmptyWorkflow (wd_ID definition))
      else bindE (add_tasks (wd_ID definition) (wd_Tasks definition) empty_graph) (\<lambda>registered.
           let graph = registered\<lparr>taskIDs := sortTaskIDs (taskIDs registered)\<rparr>
           in bindE (add_all_edges (wd_ID definition) (taskIDs graph) graph) (\<lambda>linked.
              Inr (linked\<lparr>dependents := mmap (\<lambda>_. sortTaskIDs) (dependents linked)\<rparr>))))"

section \<open>graph.go: the topological sort\<close>

text \<open>The inner loop: decrement every dependent and push those that reach zero.\<close>

fun relax :: "TaskID list \<Rightarrow> (TaskID, int) gomap \<Rightarrow> TaskID list \<Rightarrow> (TaskID, int) gomap \<times> TaskID list" where
  "relax [] remaining ready = (remaining, ready)"
| "relax (dependentID # rest) remaining ready =
     (let left = mget_or 0 remaining dependentID - 1;
          remaining' = mput dependentID left remaining
      in relax rest remaining' (if left = 0 then heap_Push ready dependentID else ready))"

definition indegree_left :: "(TaskID, int) gomap \<Rightarrow> nat" where
  "indegree_left remaining = sum_list (map (nat \<circ> snd) remaining)"

lemma indegree_left_mput:
  "mget m k = Some v \<Longrightarrow> indegree_left (mput k w m) + nat v = indegree_left m + nat w"
  by (induction m) (auto simp: indegree_left_def split: if_splits)

lemma indegree_left_mput_None:
  "mget m k = None \<Longrightarrow> indegree_left (mput k w m) = indegree_left m + nat w"
  by (induction m) (auto simp: indegree_left_def split: if_splits)

lemma relax_measure:
  "relax ds rem ready = (rem', ready') \<Longrightarrow>
   length ready' + indegree_left rem' \<le> length ready + indegree_left rem"
proof (induction ds rem ready rule: relax.induct)
  case (2 d ds rem ready)
  define left where "left = mget_or 0 rem d - 1"
  have "(if left = 0 then 1 else 0) + indegree_left (mput d left rem) \<le> indegree_left rem"
    using indegree_left_mput [of rem d _ left] indegree_left_mput_None [of rem d left]
    by (cases "mget rem d") (auto simp: left_def mget_or_def)
  then show ?case using 2 by (force simp: left_def [symmetric] Let_def split: if_splits)
qed simp

function topo_loop :: "(TaskID, TaskID list) gomap \<Rightarrow> (TaskID, int) gomap \<Rightarrow> TaskID list \<Rightarrow> TaskID list
                       \<Rightarrow> TaskID list" where
  "topo_loop deps remaining ready order =
     (if heap_Len ready = 0 then order
      else case heap_Pop ready of (taskID, ready1) \<Rightarrow>
             case relax (mget_or [] deps taskID) remaining ready1 of (remaining2, ready2) \<Rightarrow>
               topo_loop deps remaining2 ready2 (order @ [taskID]))"
  by pat_completeness auto
termination
proof (relation "measure (\<lambda>(deps, remaining, ready, order). length ready + indegree_left remaining)")
  fix deps :: "(TaskID, TaskID list) gomap" and remaining :: "(TaskID, int) gomap"
    and ready order :: "TaskID list" and taskID ready1 remaining2 ready2
  assume "heap_Len ready \<noteq> 0" and x: "(taskID, ready1) = heap_Pop ready"
    and y: "(remaining2, ready2) = relax (mget_or [] deps taskID) remaining ready1"
  then have "Suc (length ready1) = length ready"
    by (intro length_heap_Pop [of ready taskID]) (auto simp: heap_Len_def)
  moreover have "length ready2 + indegree_left remaining2 \<le> length ready1 + indegree_left remaining"
    using y by (intro relax_measure) auto
  ultimately show "((deps, remaining2, ready2, order @ [taskID]), deps, remaining, ready, order)
      \<in> measure (\<lambda>(deps, remaining, ready, order). length ready + indegree_left remaining)"
    by simp
qed simp

declare topo_loop.simps [simp del]

definition graph_topologicalOrder :: "dependencyGraph \<Rightarrow> TaskID list \<times> bool" where
  "graph_topologicalOrder graph =
     (let remainingIndegree = map (\<lambda>taskID. (taskID, mget_or 0 (indegree graph) taskID)) (taskIDs graph);
          ready = filter (\<lambda>taskID. mget_or 0 (indegree graph) taskID = 0) (taskIDs graph);
          order = topo_loop (dependents graph) remainingIndegree (heap_Init ready) []
      in (order, length order = length (taskIDs graph)))"

definition IsAcyclic :: "WorkflowDefinition \<Rightarrow> ValidationError + bool" where
  "IsAcyclic definition =
     bindE (buildDependencyGraph definition) (\<lambda>graph. Inr (snd (graph_topologicalOrder graph)))"

definition TopologicalOrder :: "WorkflowDefinition \<Rightarrow> ValidationError + TaskID list" where
  "TopologicalOrder definition =
     bindE (buildDependencyGraph definition) (\<lambda>graph.
       case graph_topologicalOrder graph of (order, is_acyclic) \<Rightarrow>
         if \<not> is_acyclic then Inl (validation_error ValidationCycle (wd_ID definition)) else Inr order)"

definition workflow_Validate :: "WorkflowDefinition \<Rightarrow> ValidationError + unit" where
  "workflow_Validate definition = bindE (TopologicalOrder definition) (\<lambda>_. Inr ())"

definition RootTasks :: "WorkflowDefinition \<Rightarrow> ValidationError + TaskDefinition list" where
  "RootTasks definition =
     bindE (buildDependencyGraph definition) (\<lambda>graph.
       if \<not> snd (graph_topologicalOrder graph) then
         Inl (validation_error ValidationCycle (wd_ID definition))
       else Inr (map (graph_task graph)
                   (filter (\<lambda>taskID. mget_or 0 (indegree graph) taskID = 0) (taskIDs graph))))"

text \<open>\<open>completed\<close> is a \<open>map[TaskID]struct{}\<close>: the list of its keys.\<close>

definition ReadyTasks :: "WorkflowDefinition \<Rightarrow> TaskID list \<Rightarrow> ValidationError + TaskDefinition list" where
  "ReadyTasks definition completed =
     bindE (buildDependencyGraph definition) (\<lambda>graph.
       if \<not> snd (graph_topologicalOrder graph) then
         Inl (validation_error ValidationCycle (wd_ID definition))
       else
         let unknownCompleted = sortTaskIDs (filter (\<lambda>taskID. \<not> mhas (tasks graph) taskID) completed)
         in if unknownCompleted \<noteq> [] then
              Inl ((validation_error ValidationUnknownCompletedTask (wd_ID definition))
                     \<lparr>ve_TaskID := hd unknownCompleted\<rparr>)
            else Inr (map (graph_task graph)
                   (filter (\<lambda>taskID. taskID \<notin> set completed \<and>
                        list_all (\<lambda>dep. dep \<in> set completed) (elems (td_Dependencies (graph_task graph taskID))))
                      (taskIDs graph))))"

section \<open>Retry delays\<close>

text \<open>The delay the policy describes, over unbounded integers: exponential, saturating at the largest
  duration and then at \<open>MaxBackoff\<close>.\<close>

definition exp_delay :: "RetryPolicy \<Rightarrow> int \<Rightarrow> nat \<Rightarrow> int" where
  "exp_delay policy d n =
     (let raw = min (d * 2 ^ n) (2 ^ 63 - 1)
      in if 0 < sint (MaxBackoff policy) then min raw (sint (MaxBackoff policy)) else raw)"

lemma sint_max_duration [simp]: "sint max_duration = 2 ^ 63 - 1"
  by (simp add: max_duration_def)

lemma sint_double: "\<lbrakk>0 < sint d; sint d \<le> (2 ^ 63 - 1) div 2\<rbrakk> \<Longrightarrow> sint (d * 2 :: 64 word) = sint d * 2"
  by (simp add: sint_word_ariths signed_take_bit_int_eq_self)

lemma le_mult_pow: "0 < (d :: int) \<Longrightarrow> d \<le> d * 2 ^ n"
  using mult_left_mono [of 1 "2 ^ n :: int" d] by (simp only: mult_1_right) simp

lemma min_pow_saturated:
  assumes "0 < (d :: int)" "2 ^ 63 - 1 \<le> d * 2"
  shows "min (d * 2 * 2 ^ n) (2 ^ 63 - 1) = 2 ^ 63 - 1"
proof (rule min_absorb2)
  have "d * 2 \<le> d * 2 * 2 ^ n" using assms(1) by (intro le_mult_pow) simp
  with assms(2) show "2 ^ 63 - 1 \<le> d * 2 * 2 ^ n" by (rule order_trans)
qed

lemma sint_retry_delay_loop:
  "0 < sint d \<Longrightarrow> sint (retry_delay_loop policy n d) = exp_delay policy (sint d) n"
proof (induction n arbitrary: d)
  case 0
  then show ?case using sint_lt [of d] by (simp add: exp_delay_def Let_def)
next
  case (Suc n)
  define m where "m = sint (MaxBackoff policy)"
  have m: "m \<le> 2 ^ 63 - 1" using sint_lt [of "MaxBackoff policy"] by (simp add: m_def)
  have one: "1 \<le> (2 :: int) ^ n" by simp
  show ?case
  proof (cases "0 < m \<and> m \<le> sint d")
    case True
    have "m \<le> sint d * 2 ^ Suc n"
      using le_mult_pow [OF Suc.prems, of "Suc n"] True by linarith
    then have "min (min (sint d * 2 ^ Suc n) (2 ^ 63 - 1)) m = m" using m by simp
    then show ?thesis using True by (simp add: exp_delay_def m_def Let_def)
  next
    case False
    show ?thesis
    proof (cases "(2 ^ 63 - 1) div 2 < sint d")
      case True
      have "exp_delay policy (2 ^ 63 - 1) n = exp_delay policy (sint d) (Suc n)"
        using min_pow_saturated [of "sint d" n] min_pow_saturated [of "(2 ^ 63 - 1)" n] Suc.prems True one
        by (simp add: exp_delay_def Let_def mult.assoc)
      then show ?thesis using False True Suc.IH [of max_duration] by (auto simp: m_def)
    next
      case small: False
      then have "sint (d * 2) = sint d * 2" using Suc.prems by (intro sint_double) auto
      then show ?thesis
        using False small Suc.IH [of "d * 2"] Suc.prems by (simp add: m_def exp_delay_def Let_def mult.assoc)
    qed
  qed
qed

lemma sint_RetryDelay:
  "sint (RetryDelay policy c) =
     (if c < 1 \<or> sint (InitialBackoff policy) \<le> 0 then 0
      else exp_delay policy (sint (InitialBackoff policy)) (nat (c - 1)))"
  by (simp add: RetryDelay_def sint_retry_delay_loop)

lemma exp_delay_mono:
  assumes "0 \<le> d" "n \<le> n'"
  shows "exp_delay policy d n \<le> exp_delay policy d n'"
proof -
  have "d * 2 ^ n \<le> d * 2 ^ n'" using assms by (intro mult_left_mono power_increasing) simp_all
  then show ?thesis unfolding exp_delay_def Let_def by (simp add: min.coboundedI1 min.mono)
qed

lemma policy_nonneg:
  assumes "invalidRetryPolicyReason policy = ''''"
  shows "0 \<le> MaxAttempts policy" "0 \<le> sint (InitialBackoff policy)" "0 \<le> sint (MaxBackoff policy)"
  using assms by (auto simp: invalidRetryPolicyReason_def split: if_splits)

lemma exp_delay_nonneg: "\<lbrakk>invalidRetryPolicyReason policy = ''''; 0 \<le> d\<rbrakk> \<Longrightarrow> 0 \<le> exp_delay policy d n"
  using policy_nonneg [of policy] by (simp add: exp_delay_def Let_def)

lemma RetryDelay_nonneg: "invalidRetryPolicyReason policy = '''' \<Longrightarrow> 0 \<le> sint (RetryDelay policy c)"
  using policy_nonneg [of policy] exp_delay_nonneg [of policy] by (simp add: sint_RetryDelay)

lemma EffectiveMaxAttempts_pos: "invalidRetryPolicyReason policy = '''' \<Longrightarrow> 1 \<le> EffectiveMaxAttempts policy"
  using policy_nonneg(1) [of policy] by (simp add: EffectiveMaxAttempts_def)

section \<open>The graph a definition builds\<close>

text \<open>Structural validity, stated on the definition alone: what \<open>buildDependencyGraph\<close> accepts.\<close>

definition task_ok :: "TaskDefinition \<Rightarrow> bool" where
  "task_ok task \<longleftrightarrow> workflow_validIdentifier (td_ID task) \<and> TrimSpace (td_Name task) \<noteq> '''' \<and>
     invalidRetryPolicyReason (td_Retry task) = ''''"

definition task_ids :: "WorkflowDefinition \<Rightarrow> TaskID list" where
  "task_ids definition = map td_ID (wd_Tasks definition)"

definition deps_ok :: "TaskID set \<Rightarrow> TaskDefinition \<Rightarrow> bool" where
  "deps_ok ids task \<longleftrightarrow> distinct (elems (td_Dependencies task)) \<and>
     (\<forall>d \<in> set (elems (td_Dependencies task)). workflow_validIdentifier d \<and> d \<noteq> td_ID task \<and> d \<in> ids)"

definition structurally_valid :: "WorkflowDefinition \<Rightarrow> bool" where
  "structurally_valid definition \<longleftrightarrow>
     workflow_validIdentifier (wd_ID definition) \<and> wd_Tasks definition \<noteq> [] \<and>
     distinct (task_ids definition) \<and>
     (\<forall>task \<in> set (wd_Tasks definition). task_ok task \<and> deps_ok (set (task_ids definition)) task)"

definition task_table :: "WorkflowDefinition \<Rightarrow> (TaskID, TaskDefinition) gomap" where
  "task_table definition = map (\<lambda>task. (td_ID task, task)) (wd_Tasks definition)"

definition task_at :: "WorkflowDefinition \<Rightarrow> TaskID \<Rightarrow> TaskDefinition" where
  "task_at definition t = mget_or zero_TaskDefinition (task_table definition) t"

definition deps_of :: "WorkflowDefinition \<Rightarrow> TaskID \<Rightarrow> TaskID list" where
  "deps_of definition t = elems (td_Dependencies (task_at definition t))"

definition dep_rel :: "WorkflowDefinition \<Rightarrow> (TaskID \<times> TaskID) set" where
  "dep_rel definition =
     {(d, t). t \<in> set (task_ids definition) \<and> d \<in> set (deps_of definition t)}"

lemma mput_fresh: "\<not> mhas m k \<Longrightarrow> mput k v m = m @ [(k, v)]"
  by (induction m) (auto simp: mhas_def split: if_splits)

lemma add_tasks_Inr_iff:
  "add_tasks wid ts g = Inr g' \<longleftrightarrow>
     (\<forall>t \<in> set ts. task_ok t) \<and> distinct (map td_ID ts) \<and> (\<forall>t \<in> set ts. \<not> mhas (tasks g) (td_ID t)) \<and>
     g' = g\<lparr>tasks := tasks g @ map (\<lambda>t. (td_ID t, t)) ts, taskIDs := taskIDs g @ map td_ID ts,
            indegree := fold (\<lambda>t. mput (td_ID t) 0) ts (indegree g)\<rparr>"
  by (induction wid ts g rule: add_tasks.induct)
     (auto simp: task_ok_def mput_fresh mhas_iff split: if_splits, metis imageI)

definition edges_ok :: "TaskID \<Rightarrow> TaskID set \<Rightarrow> TaskID set \<Rightarrow> TaskID list \<Rightarrow> bool" where
  "edges_ok tid seen ids ds \<longleftrightarrow> distinct ds \<and> set ds \<inter> seen = {} \<and>
     (\<forall>d \<in> set ds. workflow_validIdentifier d \<and> d \<noteq> tid \<and> d \<in> ids)"

lemma add_edges_exists:
  "(\<exists>g'. add_edges wid tid seen ds g = Inr g') \<longleftrightarrow> edges_ok tid (set seen) (set (mkeys (tasks g))) ds"
  by (induction wid tid seen ds g rule: add_edges.induct)
     (auto simp: edges_ok_def mhas_iff mkeys_def)

lemma add_edges_graph:
  "add_edges wid tid seen ds g = Inr g' \<Longrightarrow>
     tasks g' = tasks g \<and> taskIDs g' = taskIDs g \<and>
     (\<forall>t. mget_or 0 (indegree g') t = mget_or 0 (indegree g) t + (if t = tid then int (length ds) else 0)) \<and>
     (\<forall>d. mget_or [] (dependents g') d = mget_or [] (dependents g) d @ (if d \<in> set ds then [tid] else []))"
proof (induction wid tid seen ds g rule: add_edges.induct)
  case (2 wid tid seen dep rest g)
  from "2.prems" have "edges_ok tid (set seen) (set (mkeys (tasks g))) (dep # rest)"
    using add_edges_exists by blast
  then have "dep \<notin> set rest" by (simp add: edges_ok_def)
  with 2 show ?case
    by (auto simp: mget_or_def go_map split: if_splits)
qed simp

lemma add_all_edges_exists:
  "(\<exists>g'. add_all_edges wid ids g = Inr g') \<longleftrightarrow>
   (\<forall>t \<in> set ids. edges_ok (td_ID (graph_task g t)) {} (set (mkeys (tasks g)))
                     (elems (td_Dependencies (graph_task g t))))"
proof (induction wid ids g rule: add_all_edges.induct)
  case (2 wid t rest g)
  note ex = add_edges_exists [of wid "td_ID (graph_task g t)" "[]" "elems (td_Dependencies (graph_task g t))" g]
  show ?case
  proof (cases "add_edges wid (td_ID (graph_task g t)) [] (elems (td_Dependencies (graph_task g t))) g")
    case (Inl e)
    then show ?thesis using ex by auto
  next
    case (Inr g1)
    have "tasks g1 = tasks g" using add_edges_graph [OF Inr] by simp
    then have "graph_task g1 = graph_task g" by (auto simp: graph_task_def)
    then show ?thesis using "2.IH" [of g1] Inr \<open>tasks g1 = tasks g\<close> ex by auto
  qed
qed simp

lemma add_all_edges_graph:
  "\<lbrakk>add_all_edges wid ids g = Inr g'; distinct ids; \<forall>t \<in> set ids. td_ID (graph_task g t) = t\<rbrakk> \<Longrightarrow>
     tasks g' = tasks g \<and> taskIDs g' = taskIDs g \<and>
     (\<forall>t. mget_or 0 (indegree g') t =
            mget_or 0 (indegree g) t + (if t \<in> set ids then int (length (elems (td_Dependencies (graph_task g t)))) else 0)) \<and>
     (\<forall>d. mget_or [] (dependents g') d =
            mget_or [] (dependents g) d @ filter (\<lambda>t. d \<in> set (elems (td_Dependencies (graph_task g t)))) ids)"
proof (induction wid ids g rule: add_all_edges.induct)
  case (2 wid t rest g)
  then obtain g1 where g1: "add_edges wid t [] (elems (td_Dependencies (graph_task g t))) g = Inr g1"
    and rest: "add_all_edges wid rest g1 = Inr g'"
    by (auto simp: bindE_Inr_iff)
  note e = add_edges_graph [OF g1]
  then have gt: "graph_task g1 = graph_task g" by (auto simp: graph_task_def)
  from "2.IH" [of g1] rest "2.prems" e gt show ?case by auto
qed simp

end
