(* ===== verification/FF_Errors.thy ===== *)
theory FF_Errors
  imports FF_Workflow
begin

text \<open>
  The error values of the program and the two status enumerations they mention:
  \<open>internal/execution/errors.go\<close>, the status constants of \<open>run.go\<close>, and the error types of the
  \<open>broker\<close>, \<open>security\<close> and \<open>api\<close> packages. An error is a value of \<open>go_error\<close>, one constructor per Go
  error type or sentinel. \<open>Errorf\<close> keeps a format string with its arguments instead of the rendered
  text (no decision of the program reads the text), \<open>ErrorfText\<close> embeds the recorded text of another
  error without wrapping it, \<open>Wrapf\<close> is a format with \<open>%w\<close>, \<open>JoinedError\<close> is
  \<open>errors.Join\<close>. \<open>errors_As\<close> walks the \<open>Unwrap\<close> chain.
\<close>

section \<open>Statuses\<close>

type_synonym RunID = string
type_synonym TaskRunID = string
type_synonym AttemptID = string
type_synonym WorkerID = string
type_synonym MessageID = string

text \<open>A status is a string with named constants; the last constructor is any other text.\<close>

datatype WorkflowRunStatus =
    WorkflowRunPending
  | WorkflowRunRunning
  | WorkflowRunSucceeded
  | WorkflowRunFailed
  | WorkflowRunCanceled
  | WorkflowRunOther string

datatype TaskRunStatus =
    TaskRunPending
  | TaskRunReady
  | TaskRunRunning
  | TaskRunRetryWaiting
  | TaskRunSucceeded
  | TaskRunFailed
  | TaskRunCanceled
  | TaskRunOther string

fun workflow_status_valid :: "WorkflowRunStatus \<Rightarrow> bool" where
  "workflow_status_valid WorkflowRunPending = True"
| "workflow_status_valid WorkflowRunRunning = True"
| "workflow_status_valid WorkflowRunSucceeded = True"
| "workflow_status_valid WorkflowRunFailed = True"
| "workflow_status_valid WorkflowRunCanceled = True"
| "workflow_status_valid _ = False"

fun task_status_valid :: "TaskRunStatus \<Rightarrow> bool" where
  "task_status_valid TaskRunPending = True"
| "task_status_valid TaskRunReady = True"
| "task_status_valid TaskRunRunning = True"
| "task_status_valid TaskRunRetryWaiting = True"
| "task_status_valid TaskRunSucceeded = True"
| "task_status_valid TaskRunFailed = True"
| "task_status_valid TaskRunCanceled = True"
| "task_status_valid _ = False"

section \<open>Errors\<close>

datatype fmt_arg =
    FStr string
  | FNum int
  | FTask TaskRunStatus
  | FFlow WorkflowRunStatus

datatype (plugins only: code size) go_error =
    Errorf string "fmt_arg list"
  | ErrorfText string string "go_error option"
  | Wrapf string "fmt_arg list" go_error
  | JoinedError "go_error list"
  | ContextCanceled
  | ContextDeadlineExceeded
  | WorkflowValidation ValidationError
  | RetryableTaskError "go_error option"
  | InvalidEngineConfigError int go_error
  | HandlerRegistrationError HandlerName string
  | UnknownHandlerError TaskID HandlerName
  | TaskExecutionError RunID TaskID go_error
  | LeaseExpiredError RunID TaskID AttemptID
  | RunCanceledError RunID go_error
  | InvalidRunIDError RunID
  | SnapshotValidationError RunID string "fmt_arg list"
  | WorkflowConflictError WorkflowID
  | WorkflowNotFoundError WorkflowID
  | RunAlreadyExistsError RunID
  | RunVersionConflictError RunID u64 u64
  | RunNotFoundError RunID
  | PersistenceError string RunID go_error
  | BrokerOperationError string RunID MessageID go_error
  | UnknownTaskRunError RunID TaskID
  | TaskTransitionError RunID TaskID TaskRunStatus TaskRunStatus
  | WorkflowTransitionError RunID WorkflowRunStatus WorkflowRunStatus
  | ErrWorkerDisappeared
  | ErrBrokerClosed
  | ErrDeliverySettled
  | BrokerValidationError string string string
  | MessageConflictError MessageID
  | ErrUnauthenticated
  | ProjectAlreadyExistsError string
  | ProjectNotFoundError string
  | UserDisabledError string
  | WorkflowOwnershipConflictError WorkflowID
  | AuditEventAlreadyExistsError string
  | ErrRunAlreadyActive
  | ErrManagerClosed

definition errors_New :: "string \<Rightarrow> go_error" where
  "errors_New text = Errorf text []"

text \<open>\<open>Unwrap\<close>: the errors one step down the tree.\<close>

definition unwrap :: "go_error \<Rightarrow> go_error list" where
  "unwrap e = (case e of
       Wrapf _ _ cause \<Rightarrow> [cause]
     | JoinedError causes \<Rightarrow> causes
     | RetryableTaskError (Some cause) \<Rightarrow> [cause]
     | TaskExecutionError _ _ cause \<Rightarrow> [cause]
     | RunCanceledError _ cause \<Rightarrow> [cause]
     | PersistenceError _ _ cause \<Rightarrow> [cause]
     | BrokerOperationError _ _ _ cause \<Rightarrow> [cause]
     | _ \<Rightarrow> [])"

lemma size_unwrap [termination_simp]: "c \<in> set (unwrap e) \<Longrightarrow> size c < size e"
  by (cases e) (auto simp: unwrap_def less_Suc_eq_le size_list_estimation' split: option.splits)

text \<open>\<open>errors.As\<close> and \<open>errors.Is\<close>: does some error of the \<open>Unwrap\<close> tree satisfy \<open>p\<close>?\<close>

fun errors_As :: "(go_error \<Rightarrow> bool) \<Rightarrow> go_error \<Rightarrow> bool" where
  "errors_As p e \<longleftrightarrow> p e \<or> list_ex (errors_As p) (unwrap e)"

declare errors_As.simps [simp del]

definition errors_Is :: "go_error \<Rightarrow> go_error \<Rightarrow> bool" where
  "errors_Is e target \<longleftrightarrow> errors_As (\<lambda>x. x = target) e"

definition Retryable :: "go_error option \<Rightarrow> go_error option" where
  "Retryable cause = map_option (\<lambda>e. RetryableTaskError (Some e)) cause"

definition is_RetryableTaskError :: "go_error \<Rightarrow> bool" where
  "is_RetryableTaskError e = (case e of RetryableTaskError _ \<Rightarrow> True | _ \<Rightarrow> False)"

definition IsRetryable :: "go_error \<Rightarrow> bool" where
  "IsRetryable err = errors_As is_RetryableTaskError err"

definition lift_validation :: "ValidationError + 'a \<Rightarrow> go_error + 'a" where
  "lift_validation r = map_sum WorkflowValidation id r"

lemma lift_validation_simps [simp]:
  "lift_validation (Inl e) = Inl (WorkflowValidation e)"
  "lift_validation (Inr x) = Inr x"
  by (simp_all add: lift_validation_def)

lemma lift_validation_Inr_iff [simp]: "lift_validation r = Inr x \<longleftrightarrow> r = Inr x"
  by (cases r) simp_all

lemma IsRetryable_Retryable: "map_option IsRetryable (Retryable cause) = map_option (\<lambda>_. True) cause"
  by (cases cause) (simp_all add: Retryable_def IsRetryable_def errors_As.simps is_RetryableTaskError_def)

end
