(* ===== verification/FF_Run.thy ===== *)
theory FF_Run
  imports FF_Errors
begin

text \<open>
  One workflow execution: \<open>internal/execution/run.go\<close> (the aggregate and its two state machines) and
  \<open>reliability.go\<close> (leases, heartbeats, identified completions, retries and recovery). The mutex makes
  every method atomic, so each is a function from the run (and the clock reading \<open>now\<close> that its one
  call of \<open>run.now\<close> returns) to the run it leaves. Loops that range over \<open>run.tasks\<close> rewrite each entry
  from that entry alone, so they are \<open>mmap\<close>. A task's recorded error text is the error value.
\<close>

section \<open>run.go: data\<close>

record TaskLease =
  tl_WorkerID :: WorkerID
  tl_TaskRunID :: TaskRunID
  tl_AttemptID :: AttemptID
  tl_ExpiresAt :: Time

record WorkerHeartbeat =
  wh_WorkerID :: WorkerID
  wh_LastHeartbeatAt :: Time

record TaskRun =
  tr_TaskID :: TaskID
  tr_TaskRunID :: TaskRunID
  tr_Status :: TaskRunStatus
  tr_Output :: string
  tr_Error :: "go_error option"
  tr_AttemptCount :: int
  tr_CurrentAttemptID :: AttemptID
  tr_NextAttemptAt :: Time
  tr_Lease :: "TaskLease option"
  tr_UpdatedAt :: Time
  tr_StartedAt :: Time
  tr_FinishedAt :: Time

record WorkflowRun =
  run_id :: RunID
  run_definition :: WorkflowDefinition
  run_version :: u64
  run_status :: WorkflowRunStatus
  run_tasks :: "(TaskID, TaskRun) gomap"
  run_workers :: "(WorkerID, WorkerHeartbeat) gomap"
  run_createdAt :: Time
  run_updatedAt :: Time

record WorkflowRunSnapshot =
  ws_ID :: RunID
  ws_WorkflowID :: WorkflowID
  ws_Version :: u64
  ws_Status :: WorkflowRunStatus
  ws_CreatedAt :: Time
  ws_UpdatedAt :: Time
  ws_Tasks :: "TaskRun list"
  ws_Workers :: "WorkerHeartbeat list"

section \<open>Identities\<close>

definition validIdentifier :: "string \<Rightarrow> bool" where
  "validIdentifier identifier \<longleftrightarrow>
     (if identifier = '''' then False
      else list_all (\<lambda>character. \<not> (IsSpace character \<or> IsControl character)) (runes identifier))"

definition validRunID :: "string \<Rightarrow> bool" where
  "validRunID runID = validIdentifier runID"

definition TaskRunIDFor :: "RunID \<Rightarrow> TaskID \<Rightarrow> TaskRunID" where
  "TaskRunIDFor runID taskID = dec_int (int (length (bytes_of runID))) @ '':'' @ runID @ '':'' @ taskID"

definition AttemptIDFor :: "TaskRunID \<Rightarrow> int \<Rightarrow> AttemptID" where
  "AttemptIDFor taskRunID attempt = taskRunID @ '':attempt:'' @ dec_int attempt"

section \<open>run.go: operations\<close>

definition cloneDefinition :: "WorkflowDefinition \<Rightarrow> WorkflowDefinition" where
  "cloneDefinition definition =
     \<lparr>wd_ID = wd_ID definition,
      wd_Tasks = map (\<lambda>task. task\<lparr>td_Dependencies := append_nil (elems (td_Dependencies task))\<rparr>) (wd_Tasks definition)\<rparr>"

text \<open>A copy of a task run; values have no identity here, so the copy is the value.\<close>

definition cloneTaskRun :: "TaskRun \<Rightarrow> TaskRun" where
  "cloneTaskRun task = (case tr_Lease task of None \<Rightarrow> task | Some lease \<Rightarrow> task\<lparr>tr_Lease := Some lease\<rparr>)"

definition new_task_run :: "RunID \<Rightarrow> Time \<Rightarrow> TaskID \<Rightarrow> TaskRun" where
  "new_task_run runID createdAt taskID =
     \<lparr>tr_TaskID = taskID, tr_TaskRunID = TaskRunIDFor runID taskID, tr_Status = TaskRunPending,
      tr_Output = '''', tr_Error = None, tr_AttemptCount = 0, tr_CurrentAttemptID = '''',
      tr_NextAttemptAt = zero_time, tr_Lease = None, tr_UpdatedAt = createdAt,
      tr_StartedAt = zero_time, tr_FinishedAt = zero_time\<rparr>"

definition newWorkflowRun :: "RunID \<Rightarrow> WorkflowDefinition \<Rightarrow> Time \<Rightarrow> go_error + WorkflowRun" where
  "newWorkflowRun runID definition now =
     (if \<not> validRunID runID then Inl (InvalidRunIDError runID)
      else bindE (lift_validation (workflow_Validate definition)) (\<lambda>_.
        let definition = cloneDefinition definition
        in Inr \<lparr>run_id = runID, run_definition = definition, run_version = 0,
                run_status = WorkflowRunPending,
                run_tasks = fold (\<lambda>task. mput (td_ID task) (new_task_run runID now (td_ID task))) (wd_Tasks definition) [],
                run_workers = [], run_createdAt = now, run_updatedAt = now\<rparr>))"

definition run_Task :: "WorkflowRun \<Rightarrow> TaskID \<Rightarrow> TaskRun option" where
  "run_Task run taskID = map_option cloneTaskRun (mget (run_tasks run) taskID)"

definition sortedTasksLocked :: "WorkflowRun \<Rightarrow> TaskRun list" where
  "sortedTasksLocked run = sort_key tr_TaskID (map cloneTaskRun (mvals (run_tasks run)))"

definition sortedWorkersLocked :: "WorkflowRun \<Rightarrow> WorkerHeartbeat list" where
  "sortedWorkersLocked run = sort_key wh_WorkerID (mvals (run_workers run))"

definition Snapshot :: "WorkflowRun \<Rightarrow> WorkflowRunSnapshot" where
  "Snapshot run =
     \<lparr>ws_ID = run_id run, ws_WorkflowID = wd_ID (run_definition run), ws_Version = run_version run,
      ws_Status = run_status run, ws_CreatedAt = run_createdAt run, ws_UpdatedAt = run_updatedAt run,
      ws_Tasks = sortedTasksLocked run, ws_Workers = sortedWorkersLocked run\<rparr>"

definition setPersistedVersion :: "WorkflowRun \<Rightarrow> u64 \<Rightarrow> WorkflowRun" where
  "setPersistedVersion run version = run\<lparr>run_version := version\<rparr>"

definition taskStatus :: "WorkflowRun \<Rightarrow> TaskID \<Rightarrow> go_error + TaskRunStatus" where
  "taskStatus run taskID = (case mget (run_tasks run) taskID of
       None \<Rightarrow> Inl (UnknownTaskRunError (run_id run) taskID)
     | Some task \<Rightarrow> Inr (tr_Status task))"

definition nextTimestampLocked :: "WorkflowRun \<Rightarrow> Time \<Rightarrow> Time" where
  "nextTimestampLocked run now = (if now < run_updatedAt run then run_updatedAt run else now)"

fun legalTaskTransition :: "TaskRunStatus \<Rightarrow> TaskRunStatus \<Rightarrow> bool" where
  "legalTaskTransition TaskRunPending to \<longleftrightarrow> to = TaskRunReady \<or> to = TaskRunCanceled"
| "legalTaskTransition TaskRunReady to \<longleftrightarrow> to = TaskRunRunning \<or> to = TaskRunCanceled"
| "legalTaskTransition TaskRunRunning to \<longleftrightarrow> to = TaskRunSucceeded \<or> to = TaskRunFailed \<or> to = TaskRunCanceled"
| "legalTaskTransition TaskRunRetryWaiting to \<longleftrightarrow> to = TaskRunReady \<or> to = TaskRunCanceled"
| "legalTaskTransition _ to \<longleftrightarrow> False"

fun legalWorkflowTransition :: "WorkflowRunStatus \<Rightarrow> WorkflowRunStatus \<Rightarrow> bool" where
  "legalWorkflowTransition WorkflowRunPending to \<longleftrightarrow> to = WorkflowRunRunning \<or> to = WorkflowRunCanceled"
| "legalWorkflowTransition WorkflowRunRunning to \<longleftrightarrow>
     to = WorkflowRunSucceeded \<or> to = WorkflowRunFailed \<or> to = WorkflowRunCanceled"
| "legalWorkflowTransition _ to \<longleftrightarrow> False"

definition terminal :: "TaskRunStatus \<Rightarrow> bool" where
  "terminal status \<longleftrightarrow> status = TaskRunSucceeded \<or> status = TaskRunFailed \<or> status = TaskRunCanceled"

text \<open>The body of \<open>transitionTask\<close> on the task itself, statement by statement.\<close>

definition transition_task_run :: "WorkflowRun \<Rightarrow> Time \<Rightarrow> TaskID \<Rightarrow> TaskRunStatus \<Rightarrow> string \<Rightarrow> go_error option \<Rightarrow> TaskRun \<Rightarrow> TaskRun" where
  "transition_task_run run timestamp taskID target output taskErr task =
     (let task = task\<lparr>tr_Status := target, tr_Output := '''', tr_Error := None, tr_UpdatedAt := timestamp\<rparr>;
          task = (if target = TaskRunRunning
                  then task\<lparr>tr_AttemptCount := tr_AttemptCount task + 1,
                            tr_TaskRunID := TaskRunIDFor (run_id run) taskID,
                            tr_CurrentAttemptID := AttemptIDFor (TaskRunIDFor (run_id run) taskID) (tr_AttemptCount task + 1),
                            tr_StartedAt := timestamp, tr_FinishedAt := zero_time, tr_NextAttemptAt := zero_time\<rparr>
                  else task);
          task = (if target = TaskRunSucceeded then task\<lparr>tr_Output := output\<rparr> else task);
          task = (if (target = TaskRunFailed \<or> target = TaskRunCanceled) \<and> taskErr \<noteq> None
                  then task\<lparr>tr_Error := taskErr\<rparr> else task)
      in if terminal target
         then task\<lparr>tr_FinishedAt := timestamp, tr_Lease := None, tr_NextAttemptAt := zero_time\<rparr>
         else task)"

definition transitionTask :: "WorkflowRun \<Rightarrow> Time \<Rightarrow> TaskID \<Rightarrow> TaskRunStatus \<Rightarrow> string \<Rightarrow> go_error option \<Rightarrow> go_error + WorkflowRun" where
  "transitionTask run now taskID target output taskErr =
     (case mget (run_tasks run) taskID of
        None \<Rightarrow> Inl (UnknownTaskRunError (run_id run) taskID)
      | Some task \<Rightarrow>
          if \<not> legalTaskTransition (tr_Status task) target
          then Inl (TaskTransitionError (run_id run) taskID (tr_Status task) target)
          else let timestamp = nextTimestampLocked run now
               in Inr (run\<lparr>run_tasks := mput taskID (transition_task_run run timestamp taskID target output taskErr task) (run_tasks run),
                           run_updatedAt := timestamp\<rparr>))"

definition transitionWorkflow :: "WorkflowRun \<Rightarrow> Time \<Rightarrow> WorkflowRunStatus \<Rightarrow> go_error + WorkflowRun" where
  "transitionWorkflow run now target =
     (if \<not> legalWorkflowTransition (run_status run) target
      then Inl (WorkflowTransitionError (run_id run) (run_status run) target)
      else Inr (run\<lparr>run_status := target, run_updatedAt := nextTimestampLocked run now\<rparr>))"

definition cancelable :: "TaskRun \<Rightarrow> bool" where
  "cancelable task \<longleftrightarrow> \<not> (tr_Status task \<noteq> TaskRunPending \<and> tr_Status task \<noteq> TaskRunReady \<and>
     tr_Status task \<noteq> TaskRunRunning \<and> tr_Status task \<noteq> TaskRunRetryWaiting)"

definition cancel_task_run :: "Time \<Rightarrow> go_error option \<Rightarrow> TaskRun \<Rightarrow> TaskRun" where
  "cancel_task_run timestamp cause task =
     (if \<not> cancelable task then task
      else task\<lparr>tr_Status := TaskRunCanceled, tr_Output := '''', tr_Error := cause,
                tr_UpdatedAt := timestamp, tr_FinishedAt := timestamp,
                tr_NextAttemptAt := zero_time, tr_Lease := None\<rparr>)"

definition cancelUnfinished :: "WorkflowRun \<Rightarrow> Time \<Rightarrow> go_error option \<Rightarrow> WorkflowRun" where
  "cancelUnfinished run now cause =
     (let timestamp = nextTimestampLocked run now;
          tasks = mmap (\<lambda>taskID task. cancel_task_run timestamp cause task) (run_tasks run);
          changed = list_ex cancelable (mvals (run_tasks run))
      in run\<lparr>run_tasks := tasks, run_updatedAt := (if changed then timestamp else run_updatedAt run)\<rparr>)"

section \<open>reliability.go\<close>

datatype CompletionOutcome = CompletionIgnored | CompletionSucceeded | CompletionRetryScheduled | CompletionFailed

record LeaseRecovery =
  lr_TaskID :: TaskID
  lr_AttemptID :: AttemptID
  lr_WorkerID :: WorkerID
  lr_Outcome :: CompletionOutcome

fun find_retry_policy :: "TaskID \<Rightarrow> TaskDefinition list \<Rightarrow> RetryPolicy" where
  "find_retry_policy taskID [] = \<lparr>MaxAttempts = 0, InitialBackoff = 0, MaxBackoff = 0\<rparr>"
| "find_retry_policy taskID (task # rest) = (if td_ID task = taskID then td_Retry task else find_retry_policy taskID rest)"

definition retryPolicyLocked :: "WorkflowRun \<Rightarrow> TaskID \<Rightarrow> RetryPolicy" where
  "retryPolicyLocked run taskID = find_retry_policy taskID (wd_Tasks (run_definition run))"

text \<open>One round of the heartbeat loop: renew a live lease of this worker.\<close>

definition renew_task_run :: "Time \<Rightarrow> WorkerID \<Rightarrow> Duration \<Rightarrow> TaskRun \<Rightarrow> TaskRun" where
  "renew_task_run timestamp workerID leaseDuration task =
     (case tr_Lease task of
        None \<Rightarrow> task
      | Some lease \<Rightarrow>
          if tr_Status task \<noteq> TaskRunRunning \<or> tl_WorkerID lease \<noteq> workerID then task
          else if \<not> timestamp < tl_ExpiresAt lease then task
          else task\<lparr>tr_Lease := Some (lease\<lparr>tl_ExpiresAt := time_add timestamp leaseDuration\<rparr>),
                    tr_UpdatedAt := timestamp\<rparr>)"

definition recordWorkerHeartbeat :: "WorkflowRun \<Rightarrow> Time \<Rightarrow> WorkerID \<Rightarrow> Duration \<Rightarrow> go_error + WorkflowRun" where
  "recordWorkerHeartbeat run now workerID leaseDuration =
     (if \<not> validIdentifier workerID then Inl (Errorf ''worker ID %q is invalid'' [FStr workerID])
      else if sint leaseDuration \<le> 0 then Inl (Errorf ''lease duration must be positive'' [])
      else let timestamp = nextTimestampLocked run now
           in Inr (run\<lparr>run_workers := mput workerID \<lparr>wh_WorkerID = workerID, wh_LastHeartbeatAt = timestamp\<rparr> (run_workers run),
                       run_tasks := mmap (\<lambda>taskID task. renew_task_run timestamp workerID leaseDuration task) (run_tasks run),
                       run_updatedAt := timestamp\<rparr>))"

definition start_task_run :: "WorkflowRun \<Rightarrow> Time \<Rightarrow> TaskID \<Rightarrow> WorkerID \<Rightarrow> Duration \<Rightarrow> TaskRun \<Rightarrow> TaskRun" where
  "start_task_run run timestamp taskID workerID leaseDuration task =
     (let taskRunID = TaskRunIDFor (run_id run) taskID;
          attempts = tr_AttemptCount task + 1;
          attemptID = AttemptIDFor taskRunID attempts
      in task\<lparr>tr_TaskRunID := taskRunID, tr_AttemptCount := attempts, tr_CurrentAttemptID := attemptID,
              tr_Status := TaskRunRunning, tr_Output := '''', tr_Error := None, tr_NextAttemptAt := zero_time,
              tr_StartedAt := timestamp, tr_FinishedAt := zero_time, tr_UpdatedAt := timestamp,
              tr_Lease := Some \<lparr>tl_WorkerID = workerID, tl_TaskRunID = taskRunID, tl_AttemptID = attemptID,
                                tl_ExpiresAt = time_add timestamp leaseDuration\<rparr>\<rparr>)"

definition startTaskAttempt :: "WorkflowRun \<Rightarrow> Time \<Rightarrow> TaskID \<Rightarrow> WorkerID \<Rightarrow> Duration \<Rightarrow> go_error + AttemptID \<times> WorkflowRun" where
  "startTaskAttempt run now taskID workerID leaseDuration =
     (if \<not> validIdentifier workerID then Inl (Errorf ''worker ID %q is invalid'' [FStr workerID])
      else if sint leaseDuration \<le> 0 then Inl (Errorf ''lease duration must be positive'' [])
      else case mget (run_tasks run) taskID of
        None \<Rightarrow> Inl (UnknownTaskRunError (run_id run) taskID)
      | Some task \<Rightarrow>
          if tr_Status task \<noteq> TaskRunReady
          then Inl (TaskTransitionError (run_id run) taskID (tr_Status task) TaskRunRunning)
          else let timestamp = nextTimestampLocked run now;
                   task = start_task_run run timestamp taskID workerID leaseDuration task
               in Inr (tr_CurrentAttemptID task,
                       run\<lparr>run_tasks := mput taskID task (run_tasks run),
                           run_workers := mput workerID \<lparr>wh_WorkerID = workerID, wh_LastHeartbeatAt = timestamp\<rparr> (run_workers run),
                           run_updatedAt := timestamp\<rparr>))"

text \<open>The guard of \<open>completeTaskAttempt\<close>: does the completion name the attempt that holds the lease?\<close>

definition completion_matches :: "TaskRun \<Rightarrow> TaskRunID \<Rightarrow> WorkerID \<Rightarrow> AttemptID \<Rightarrow> bool" where
  "completion_matches task taskRunID workerID attemptID \<longleftrightarrow>
     tr_Status task = TaskRunRunning \<and> tr_TaskRunID task = taskRunID \<and> tr_CurrentAttemptID task = attemptID \<and>
     (case tr_Lease task of None \<Rightarrow> False
      | Some lease \<Rightarrow> tl_AttemptID lease = attemptID \<and> tl_WorkerID lease = workerID)"

text \<open>Rescheduling after a failed attempt: ready at once when the delay is zero, else waiting.\<close>

definition schedule_retry :: "Time \<Rightarrow> Duration \<Rightarrow> TaskRun \<Rightarrow> TaskRun" where
  "schedule_retry timestamp delay task =
     (if delay = 0 then task\<lparr>tr_Status := TaskRunReady\<rparr>
      else task\<lparr>tr_Status := TaskRunRetryWaiting, tr_NextAttemptAt := time_add timestamp delay\<rparr>)"

definition complete_task_run :: "WorkflowRun \<Rightarrow> Time \<Rightarrow> TaskID \<Rightarrow> string \<Rightarrow> go_error option \<Rightarrow> TaskRun \<Rightarrow> CompletionOutcome \<times> TaskRun" where
  "complete_task_run run timestamp taskID output taskErr task =
     (let task = task\<lparr>tr_Lease := None, tr_UpdatedAt := timestamp, tr_FinishedAt := timestamp, tr_NextAttemptAt := zero_time\<rparr>
      in case taskErr of
           None \<Rightarrow> (CompletionSucceeded, task\<lparr>tr_Status := TaskRunSucceeded, tr_Output := output, tr_Error := None\<rparr>)
         | Some err \<Rightarrow>
             let task = task\<lparr>tr_Output := '''', tr_Error := Some err\<rparr>;
                 policy = retryPolicyLocked run taskID
             in if IsRetryable err \<and> tr_AttemptCount task < EffectiveMaxAttempts policy
                then (CompletionRetryScheduled, schedule_retry timestamp (RetryDelay policy (tr_AttemptCount task)) task)
                else (CompletionFailed, task\<lparr>tr_Status := TaskRunFailed\<rparr>))"

definition completeTaskAttempt ::
  "WorkflowRun \<Rightarrow> Time \<Rightarrow> TaskID \<Rightarrow> TaskRunID \<Rightarrow> WorkerID \<Rightarrow> AttemptID \<Rightarrow> string \<Rightarrow> go_error option
   \<Rightarrow> go_error + CompletionOutcome \<times> WorkflowRun" where
  "completeTaskAttempt run now taskID taskRunID workerID attemptID output taskErr =
     (case mget (run_tasks run) taskID of
        None \<Rightarrow> Inl (UnknownTaskRunError (run_id run) taskID)
      | Some task \<Rightarrow>
          if \<not> completion_matches task taskRunID workerID attemptID then Inr (CompletionIgnored, run)
          else let timestamp = nextTimestampLocked run now
               in case complete_task_run run timestamp taskID output taskErr task of (outcome, task) \<Rightarrow>
                  Inr (outcome, run\<lparr>run_tasks := mput taskID task (run_tasks run), run_updatedAt := timestamp\<rparr>))"

text \<open>One round of the recovery loop: nothing for a task that is not running or whose lease is live.\<close>

definition lease_live :: "Time \<Rightarrow> TaskRun \<Rightarrow> bool" where
  "lease_live timestamp task = (case tr_Lease task of None \<Rightarrow> False | Some lease \<Rightarrow> timestamp < tl_ExpiresAt lease)"

definition recover_task_run :: "WorkflowRun \<Rightarrow> Time \<Rightarrow> TaskID \<Rightarrow> TaskRun \<Rightarrow> (LeaseRecovery \<times> TaskRun) option" where
  "recover_task_run run timestamp taskID task =
     (if tr_Status task \<noteq> TaskRunRunning then None
      else if lease_live timestamp task then None
      else
        let workerID = (case tr_Lease task of None \<Rightarrow> '''' | Some lease \<Rightarrow> tl_WorkerID lease);
            derived = AttemptIDFor (TaskRunIDFor (run_id run) taskID) (tr_AttemptCount task);
            task = (if tr_CurrentAttemptID task = '''' \<and> 0 < tr_AttemptCount task
                    then task\<lparr>tr_TaskRunID := TaskRunIDFor (run_id run) taskID, tr_CurrentAttemptID := derived\<rparr>
                    else task);
            attemptID = tr_CurrentAttemptID task;
            task = task\<lparr>tr_Lease := None, tr_Output := '''',
                        tr_Error := Some (LeaseExpiredError (run_id run) taskID attemptID),
                        tr_UpdatedAt := timestamp, tr_FinishedAt := timestamp, tr_NextAttemptAt := zero_time\<rparr>;
            policy = retryPolicyLocked run taskID;
            (outcome, task) = (if tr_AttemptCount task < EffectiveMaxAttempts policy
               then (CompletionRetryScheduled, schedule_retry timestamp (RetryDelay policy (tr_AttemptCount task)) task)
               else (CompletionFailed, task\<lparr>tr_Status := TaskRunFailed\<rparr>))
        in Some (\<lparr>lr_TaskID = taskID, lr_AttemptID = attemptID, lr_WorkerID = workerID, lr_Outcome = outcome\<rparr>, task))"

definition recovered_task_run :: "WorkflowRun \<Rightarrow> Time \<Rightarrow> TaskID \<Rightarrow> TaskRun \<Rightarrow> TaskRun" where
  "recovered_task_run run timestamp taskID task =
     (case recover_task_run run timestamp taskID task of None \<Rightarrow> task | Some (_, task') \<Rightarrow> task')"

definition recoverExpiredLeases :: "WorkflowRun \<Rightarrow> Time \<Rightarrow> LeaseRecovery list \<times> WorkflowRun" where
  "recoverExpiredLeases run now =
     (let timestamp = nextTimestampLocked run now;
          recoveries = List.map_filter (\<lambda>(taskID, task). map_option fst (recover_task_run run timestamp taskID task)) (run_tasks run);
          tasks = mmap (recovered_task_run run timestamp) (run_tasks run)
      in (sort_key lr_TaskID recoveries,
          run\<lparr>run_tasks := tasks, run_updatedAt := (if recoveries \<noteq> [] then timestamp else run_updatedAt run)\<rparr>))"

definition retry_due :: "Time \<Rightarrow> TaskRun \<Rightarrow> bool" where
  "retry_due timestamp task \<longleftrightarrow> \<not> (tr_Status task \<noteq> TaskRunRetryWaiting \<or> timestamp < tr_NextAttemptAt task)"

definition promote_task_run :: "Time \<Rightarrow> TaskRun \<Rightarrow> TaskRun" where
  "promote_task_run timestamp task =
     (if retry_due timestamp task
      then task\<lparr>tr_Status := TaskRunReady, tr_NextAttemptAt := zero_time, tr_UpdatedAt := timestamp\<rparr>
      else task)"

definition promoteDueRetries :: "WorkflowRun \<Rightarrow> Time \<Rightarrow> TaskID list \<times> WorkflowRun" where
  "promoteDueRetries run now =
     (let timestamp = nextTimestampLocked run now;
          promoted = map fst (filter (\<lambda>(taskID, task). retry_due timestamp task) (run_tasks run));
          tasks = mmap (\<lambda>taskID task. promote_task_run timestamp task) (run_tasks run)
      in (sort promoted,
          run\<lparr>run_tasks := tasks, run_updatedAt := (if promoted \<noteq> [] then timestamp else run_updatedAt run)\<rparr>))"

text \<open>The loop of \<open>nextReliabilityDeadline\<close>: \<open>Inl\<close> is its early return.\<close>

fun deadline_loop :: "Time \<Rightarrow> TaskRun list \<Rightarrow> Time \<Rightarrow> Time + Time" where
  "deadline_loop updatedAt [] deadline = Inr deadline"
| "deadline_loop updatedAt (task # rest) deadline =
     (let consider_candidate = (\<lambda>candidate.
            deadline_loop updatedAt rest (if IsZero deadline \<or> candidate < deadline then candidate else deadline))
      in if tr_Status task = TaskRunRunning
         then (case tr_Lease task of None \<Rightarrow> Inl updatedAt | Some lease \<Rightarrow> consider_candidate (tl_ExpiresAt lease))
         else if tr_Status task = TaskRunRetryWaiting then consider_candidate (tr_NextAttemptAt task)
         else deadline_loop updatedAt rest deadline)"

definition nextReliabilityDeadline :: "WorkflowRun \<Rightarrow> Time \<times> bool" where
  "nextReliabilityDeadline run =
     (case deadline_loop (run_updatedAt run) (mvals (run_tasks run)) zero_time of
        Inl updatedAt \<Rightarrow> (updatedAt, True)
      | Inr deadline \<Rightarrow> (deadline, \<not> IsZero deadline))"

end
