(* ===== verification/FF_Broker.thy ===== *)
theory FF_Broker
  imports FF_Run
begin

text \<open>
  The task transport: \<open>internal/broker/broker.go\<close> (messages, subscriptions and their validation) and
  \<open>internal/broker/memory.go\<close> (the process-local broker). The broker's mutex makes each method atomic,
  except \<open>Receive\<close>, which gives the mutex up while it waits: one round of its loop under the mutex is
  \<open>receive_round\<close>, and the wait on the one-place channel \<open>notify\<close> is a step of its own in the theory
  \<open>FF_BrokerSystem\<close>. A context argument is what \<open>ctx.Err()\<close> returns at the call.
\<close>

section \<open>broker.go\<close>

type_synonym Topic = string
type_synonym ConsumerID = string

record TaskMessage =
  tm_ID :: MessageID
  tm_Topic :: Topic
  tm_Body :: string
  tm_Headers :: "(string, string) gomap option"

record Subscription =
  sub_ConsumerID :: ConsumerID
  sub_Topic :: Topic

datatype go_context = NilContext | Context "go_error option"

definition broker_contextError :: "go_context \<Rightarrow> go_error option" where
  "broker_contextError ctx = (case ctx of
       NilContext \<Rightarrow> Some (errors_New ''task broker context is nil'')
     | Context err \<Rightarrow> err)"

definition broker_validIdentifier :: "string \<Rightarrow> bool" where
  "broker_validIdentifier identifier \<longleftrightarrow>
     (if identifier = '''' then False
      else list_all (\<lambda>character. \<not> (IsSpace character \<or> IsControl character)) (runes identifier))"

text \<open>\<open>strings.ToLower\<close> on ASCII. Outside ASCII its result does not matter: the loop below rejects
  every name with a byte of 0x80 or more.\<close>

definition lower_byte :: "nat \<Rightarrow> nat" where
  "lower_byte b = (if 65 \<le> b \<and> b \<le> 90 then b + 32 else b)"

definition header_byte :: "nat \<Rightarrow> bool" where
  "header_byte b \<longleftrightarrow> (97 \<le> b \<and> b \<le> 122) \<or> (48 \<le> b \<and> b \<le> 57) \<or>
     b \<in> {33, 35, 36, 37, 38, 39, 42, 43, 45, 46, 94, 95, 96, 124, 126}"

definition validHeaderName :: "string \<Rightarrow> bool" where
  "validHeaderName name \<longleftrightarrow>
     (if name = '''' \<or> bytes_of name \<noteq> map lower_byte (bytes_of name) then False
      else list_all header_byte (bytes_of name))"

fun validate_headers :: "(string \<times> string) list \<Rightarrow> go_error + unit" where
  "validate_headers [] = Inr ()"
| "validate_headers ((name, value) # rest) =
     (if \<not> validHeaderName name then Inl (BrokerValidationError ''header name'' name '''')
      else if list_ex (\<lambda>b. b = 13 \<or> b = 10) (bytes_of value)
      then Inl (BrokerValidationError ''header value'' '''' ''must not contain a line break'')
      else validate_headers rest)"

definition message_Validate :: "TaskMessage \<Rightarrow> go_error + unit" where
  "message_Validate message =
     (if \<not> broker_validIdentifier (tm_ID message) then Inl (BrokerValidationError ''message ID'' (tm_ID message) '''')
      else if \<not> broker_validIdentifier (tm_Topic message) then Inl (BrokerValidationError ''topic'' (tm_Topic message) '''')
      else if tm_Body message = '''' then Inl (BrokerValidationError ''body'' '''' ''must not be empty'')
      else validate_headers (case tm_Headers message of None \<Rightarrow> [] | Some headers \<Rightarrow> headers))"

definition subscription_Validate :: "Subscription \<Rightarrow> go_error + unit" where
  "subscription_Validate subscription =
     (if \<not> broker_validIdentifier (sub_ConsumerID subscription)
      then Inl (BrokerValidationError ''consumer ID'' (sub_ConsumerID subscription) '''')
      else if \<not> broker_validIdentifier (sub_Topic subscription)
      then Inl (BrokerValidationError ''topic'' (sub_Topic subscription) '''')
      else Inr ())"

definition cloneMessage :: "TaskMessage \<Rightarrow> TaskMessage" where
  "cloneMessage message = (case tm_Headers message of
       None \<Rightarrow> message
     | Some headers \<Rightarrow> message\<lparr>tm_Headers := Some (fold (\<lambda>(name, value). mput name value) headers [])\<rparr>)"

section \<open>memory.go: state\<close>

type_synonym memorySubscriptionKey = "ConsumerID \<times> Topic"

text \<open>\<open>notify\<close> is a channel with room for one token; the field says whether the token is there.\<close>

record memorySubscription =
  ms_queued :: "MessageID list"
  ms_queuedSet :: "(MessageID, unit) gomap"
  ms_inFlight :: "(MessageID, u64) gomap"
  ms_acked :: "(MessageID, unit) gomap"
  ms_deliveryCount :: "(MessageID, u64) gomap"
  ms_notify :: bool

record InMemoryBroker =
  mb_closed :: bool
  mb_messages :: "(MessageID, TaskMessage) gomap"
  mb_topics :: "(Topic, MessageID list) gomap"
  mb_subscriptions :: "(memorySubscriptionKey, memorySubscription) gomap"

record memoryDelivery =
  md_key :: memorySubscriptionKey
  md_message :: TaskMessage
  md_count :: u64

section \<open>memory.go: operations\<close>

definition NewInMemoryBroker :: InMemoryBroker where
  "NewInMemoryBroker = \<lparr>mb_closed = False, mb_messages = [], mb_topics = [], mb_subscriptions = []\<rparr>"

definition signalMemorySubscription :: "memorySubscription \<Rightarrow> memorySubscription" where
  "signalMemorySubscription subscription = subscription\<lparr>ms_notify := True\<rparr>"

definition enqueueMemoryMessage :: "memorySubscription \<Rightarrow> MessageID \<Rightarrow> memorySubscription" where
  "enqueueMemoryMessage subscription messageID =
     (if mhas (ms_acked subscription) messageID then subscription
      else if mhas (ms_queuedSet subscription) messageID then subscription
      else if mhas (ms_inFlight subscription) messageID then subscription
      else signalMemorySubscription
        (subscription\<lparr>ms_queued := ms_queued subscription @ [messageID],
                      ms_queuedSet := mput messageID () (ms_queuedSet subscription)\<rparr>))"

definition memory_Publish :: "InMemoryBroker \<Rightarrow> go_context \<Rightarrow> TaskMessage \<Rightarrow> go_error option \<times> InMemoryBroker" where
  "memory_Publish broker ctx message =
     (case broker_contextError ctx of Some err \<Rightarrow> (Some err, broker)
      | None \<Rightarrow>
     (case message_Validate message of Inl err \<Rightarrow> (Some err, broker)
      | Inr _ \<Rightarrow>
        if mb_closed broker then (Some ErrBrokerClosed, broker)
        else case mget (mb_messages broker) (tm_ID message) of
          Some existing \<Rightarrow>
            if tm_Topic existing = tm_Topic message \<and> tm_Body existing = tm_Body message then (None, broker)
            else (Some (MessageConflictError (tm_ID message)), broker)
        | None \<Rightarrow>
            let message = cloneMessage message
            in (None, broker\<lparr>
                  mb_messages := mput (tm_ID message) message (mb_messages broker),
                  mb_topics := mput (tm_Topic message)
                    (mget_or [] (mb_topics broker) (tm_Topic message) @ [tm_ID message]) (mb_topics broker),
                  mb_subscriptions := mmap (\<lambda>key subscription.
                     if snd key = tm_Topic message then enqueueMemoryMessage subscription (tm_ID message) else subscription)
                     (mb_subscriptions broker)\<rparr>)))"

definition empty_subscription :: memorySubscription where
  "empty_subscription = \<lparr>ms_queued = [], ms_queuedSet = [], ms_inFlight = [], ms_acked = [],
                         ms_deliveryCount = [], ms_notify = False\<rparr>"

text \<open>The subscription for a key, created on first use from the messages its topic already has.\<close>

definition subscriptionLocked :: "InMemoryBroker \<Rightarrow> memorySubscriptionKey \<Rightarrow> memorySubscription \<times> InMemoryBroker" where
  "subscriptionLocked broker key =
     (case mget (mb_subscriptions broker) key of
        Some subscription \<Rightarrow> (subscription, broker)
      | None \<Rightarrow>
          let subscription = fold (\<lambda>messageID s. enqueueMemoryMessage s messageID)
                               (mget_or [] (mb_topics broker) (snd key)) empty_subscription
          in (subscription, broker\<lparr>mb_subscriptions := mput key subscription (mb_subscriptions broker)\<rparr>))"

text \<open>Zero value of a message, what reading a missing key of \<open>messages\<close> gives.\<close>

definition zero_TaskMessage :: TaskMessage where
  "zero_TaskMessage = \<lparr>tm_ID = '''', tm_Topic = '''', tm_Body = '''', tm_Headers = None\<rparr>"

text \<open>One round of the loop of \<open>Receive\<close>, from taking the mutex to giving it back.\<close>

datatype receive_result = ReceiveClosed | Received memoryDelivery | ReceiveWaits

definition receive_round :: "InMemoryBroker \<Rightarrow> memorySubscriptionKey \<Rightarrow> receive_result \<times> InMemoryBroker" where
  "receive_round broker key =
     (if mb_closed broker then (ReceiveClosed, broker)
      else case subscriptionLocked broker key of (state, broker) \<Rightarrow>
        (case ms_queued state of
           [] \<Rightarrow> (ReceiveWaits, broker)
         | messageID # rest \<Rightarrow>
             let count = mget_or 0 (ms_deliveryCount state) messageID + 1;
                 state = state\<lparr>ms_queued := rest, ms_queuedSet := mdel messageID (ms_queuedSet state),
                               ms_deliveryCount := mput messageID count (ms_deliveryCount state),
                               ms_inFlight := mput messageID count (ms_inFlight state)\<rparr>;
                 message = cloneMessage (mget_or zero_TaskMessage (mb_messages broker) messageID)
             in (Received \<lparr>md_key = key, md_message = message, md_count = count\<rparr>,
                 broker\<lparr>mb_subscriptions := mput key state (mb_subscriptions broker)\<rparr>)))"

text \<open>The checks of \<open>Receive\<close> before its loop.\<close>

definition receive_checks :: "go_context \<Rightarrow> Subscription \<Rightarrow> go_error + memorySubscriptionKey" where
  "receive_checks ctx subscription =
     (case broker_contextError ctx of Some err \<Rightarrow> Inl err
      | None \<Rightarrow> bindE (subscription_Validate subscription) (\<lambda>_.
          Inr (sub_ConsumerID subscription, sub_Topic subscription)))"

definition memory_Ping :: "InMemoryBroker \<Rightarrow> go_context \<Rightarrow> go_error option" where
  "memory_Ping broker ctx =
     (case broker_contextError ctx of Some err \<Rightarrow> Some err
      | None \<Rightarrow> if mb_closed broker then Some ErrBrokerClosed else None)"

definition memory_Close :: "InMemoryBroker \<Rightarrow> InMemoryBroker" where
  "memory_Close broker =
     (if mb_closed broker then broker
      else broker\<lparr>mb_closed := True,
                  mb_subscriptions := mmap (\<lambda>_ subscription. signalMemorySubscription subscription) (mb_subscriptions broker)\<rparr>)"

text \<open>The checks \<open>Ack\<close>, \<open>Nack\<close> and \<open>Progress\<close> share: the subscription of an active delivery.\<close>

definition delivery_active :: "InMemoryBroker \<Rightarrow> go_context \<Rightarrow> memoryDelivery \<Rightarrow> go_error + memorySubscription" where
  "delivery_active broker ctx delivery =
     (case broker_contextError ctx of Some err \<Rightarrow> Inl err
      | None \<Rightarrow>
        if mb_closed broker then Inl ErrBrokerClosed
        else case mget (mb_subscriptions broker) (md_key delivery) of
          None \<Rightarrow> Inl ErrDeliverySettled
        | Some subscription \<Rightarrow>
            if mget_or 0 (ms_inFlight subscription) (tm_ID (md_message delivery)) \<noteq> md_count delivery
            then Inl ErrDeliverySettled else Inr subscription)"

definition memory_Ack :: "InMemoryBroker \<Rightarrow> go_context \<Rightarrow> memoryDelivery \<Rightarrow> go_error option \<times> InMemoryBroker" where
  "memory_Ack broker ctx delivery =
     (case delivery_active broker ctx delivery of
        Inl err \<Rightarrow> (Some err, broker)
      | Inr subscription \<Rightarrow>
          let messageID = tm_ID (md_message delivery);
              subscription = subscription\<lparr>ms_inFlight := mdel messageID (ms_inFlight subscription),
                                          ms_acked := mput messageID () (ms_acked subscription)\<rparr>
          in (None, broker\<lparr>mb_subscriptions := mput (md_key delivery) subscription (mb_subscriptions broker)\<rparr>))"

definition memory_Nack :: "InMemoryBroker \<Rightarrow> go_context \<Rightarrow> memoryDelivery \<Rightarrow> go_error option \<times> InMemoryBroker" where
  "memory_Nack broker ctx delivery =
     (case delivery_active broker ctx delivery of
        Inl err \<Rightarrow> (Some err, broker)
      | Inr subscription \<Rightarrow>
          let messageID = tm_ID (md_message delivery);
              subscription = subscription\<lparr>ms_inFlight := mdel messageID (ms_inFlight subscription)\<rparr>;
              subscription = enqueueMemoryMessage subscription messageID
          in (None, broker\<lparr>mb_subscriptions := mput (md_key delivery) subscription (mb_subscriptions broker)\<rparr>))"

definition memory_Progress :: "InMemoryBroker \<Rightarrow> go_context \<Rightarrow> memoryDelivery \<Rightarrow> go_error option" where
  "memory_Progress broker ctx delivery =
     (case delivery_active broker ctx delivery of Inl err \<Rightarrow> Some err | Inr _ \<Rightarrow> None)"

end
