(* ===== verification/FF_BrokerSystem.thy ===== *)
theory FF_BrokerSystem
  imports FF_Broker
begin

text \<open>
  What the process-local broker guarantees. Its atomic methods are a labelled step relation; the
  contract of a durable queue (messages are never lost, an acknowledged message is never delivered
  again, only a delivered message is acknowledged) is a locale, interpreted on that relation. The
  second half adds the receivers that wait for a message, and examines which of them are woken up.
\<close>

section \<open>The contract of a durable queue\<close>

datatype ('k, 'm) queue_event = QPublish 'm | QDeliver 'k 'm | QAck 'k 'm | QNack 'k 'm | QNone

locale durable_queue =
  fixes inv :: "'b \<Rightarrow> bool"
    and stored :: "'b \<Rightarrow> 'k \<Rightarrow> 'm set"
    and acked :: "'b \<Rightarrow> 'k \<Rightarrow> 'm set"
    and inflight :: "'b \<Rightarrow> 'k \<Rightarrow> 'm set"
    and step :: "'b \<Rightarrow> ('k, 'm) queue_event \<Rightarrow> 'b \<Rightarrow> bool"
  assumes step_inv: "\<lbrakk>step b e b'; inv b\<rbrakk> \<Longrightarrow> inv b'"
    and step_stored: "\<lbrakk>step b e b'; inv b\<rbrakk> \<Longrightarrow> stored b k \<subseteq> stored b' k"
    and step_acked: "\<lbrakk>step b e b'; inv b\<rbrakk> \<Longrightarrow> acked b' k = acked b k \<union> {m. e = QAck k m}"
    and step_inflight: "\<lbrakk>step b e b'; inv b; m \<in> inflight b' k\<rbrakk> \<Longrightarrow> m \<in> inflight b k \<or> e = QDeliver k m"
    and deliver_unacked: "\<lbrakk>step b (QDeliver k m) b'; inv b\<rbrakk> \<Longrightarrow> m \<in> stored b k \<and> m \<notin> acked b k"
    and ack_inflight: "\<lbrakk>step b (QAck k m) b'; inv b\<rbrakk> \<Longrightarrow> m \<in> inflight b k \<and> m \<notin> acked b k"
begin

inductive trace :: "'b \<Rightarrow> ('k, 'm) queue_event list \<Rightarrow> 'b \<Rightarrow> bool" where
  nil: "trace b [] b"
| cons: "\<lbrakk>step b e b'; trace b' es b''\<rbrakk> \<Longrightarrow> trace b (e # es) b''"

lemma trace_inv: "\<lbrakk>trace b es b'; inv b\<rbrakk> \<Longrightarrow> inv b'"
  by (induction rule: trace.induct) (auto dest: step_inv)

lemma trace_stored: "\<lbrakk>trace b es b'; inv b\<rbrakk> \<Longrightarrow> stored b k \<subseteq> stored b' k"
  by (induction rule: trace.induct) (use step_stored step_inv in fastforce)+

lemma trace_acked: "\<lbrakk>trace b es b'; inv b; m \<in> acked b k\<rbrakk> \<Longrightarrow> m \<in> acked b' k \<and> QDeliver k m \<notin> set es \<and> QAck k m \<notin> set es"
proof (induction rule: trace.induct)
  case (cons b e b' es b'')
  have "m \<in> acked b' k" using cons.prems step_acked [OF cons.hyps(1)] by blast
  moreover have "inv b'" by (rule step_inv [OF cons.hyps(1) cons.prems(1)])
  moreover have "e \<noteq> QDeliver k m" "e \<noteq> QAck k m"
    using cons.prems cons.hyps(1) deliver_unacked ack_inflight by blast+
  ultimately show ?case using cons.IH by auto
qed simp

inductive_simps trace_simps: "trace b [] b'" "trace b (e # es) b'"

lemma trace_split: "trace b (xs @ ys) b'' \<longleftrightarrow> (\<exists>b'. trace b xs b' \<and> trace b' ys b'')"
  by (induction xs arbitrary: b) (simp_all add: trace_simps, blast)

lemma ack_final:
  assumes "trace b (xs @ QAck k m # ys) b'" "inv b"
  shows "QDeliver k m \<notin> set ys \<and> QAck k m \<notin> set ys \<and> m \<in> acked b' k"
proof -
  obtain b1 b2 where t: "trace b xs b1" "step b1 (QAck k m) b2" "trace b2 ys b'"
    using assms(1) by (auto simp: trace_split trace_simps)
  have i: "inv b1" "inv b2" using t trace_inv [OF _ assms(2)] step_inv by blast+
  have "m \<in> acked b2 k" using step_acked [OF t(2) i(1)] by simp
  from trace_acked [OF t(3) i(2) this] show ?thesis by blast
qed

lemma ack_delivered: "\<lbrakk>trace b es b'; inv b; QAck k m \<in> set es\<rbrakk> \<Longrightarrow> m \<in> inflight b k \<or> QDeliver k m \<in> set es"
proof (induction rule: trace.induct)
  case (cons b e b' es b'')
  have "inv b'" by (rule step_inv [OF cons.hyps(1) cons.prems(1)])
  then show ?case using cons ack_inflight step_inflight by (metis list.set_intros set_ConsD)
qed simp

end

section \<open>The invariant of the broker\<close>

definition topic_ids :: "InMemoryBroker \<Rightarrow> Topic \<Rightarrow> MessageID list" where
  "topic_ids broker topic = mget_or [] (mb_topics broker) topic"

definition sub_inv :: "MessageID list \<Rightarrow> memorySubscription \<Rightarrow> bool" where
  "sub_inv ids s \<longleftrightarrow>
     distinct (ms_queued s) \<and>
     (\<forall>m. mhas (ms_queuedSet s) m \<longleftrightarrow> m \<in> set (ms_queued s)) \<and>
     (\<forall>m. m \<in> set ids \<longleftrightarrow> m \<in> set (ms_queued s) \<or> mhas (ms_inFlight s) m \<or> mhas (ms_acked s) m) \<and>
     (\<forall>m. mhas (ms_inFlight s) m \<longrightarrow> m \<notin> set (ms_queued s) \<and> \<not> mhas (ms_acked s) m) \<and>
     (\<forall>m. mhas (ms_acked s) m \<longrightarrow> m \<notin> set (ms_queued s)) \<and>
     (\<forall>m c. mget (ms_inFlight s) m = Some c \<longrightarrow> mget (ms_deliveryCount s) m = Some c)"

definition broker_inv :: "InMemoryBroker \<Rightarrow> bool" where
  "broker_inv b \<longleftrightarrow>
     (\<forall>t. distinct (topic_ids b t)) \<and>
     (\<forall>t m. m \<in> set (topic_ids b t) \<longleftrightarrow> (\<exists>msg. mget (mb_messages b) m = Some msg \<and> tm_Topic msg = t)) \<and>
     (\<forall>m msg. mget (mb_messages b) m = Some msg \<longrightarrow> tm_ID msg = m) \<and>
     (\<forall>k s. mget (mb_subscriptions b) k = Some s \<longrightarrow> sub_inv (topic_ids b (snd k)) s)"

declare mhas_mdel [simp]

lemma mhas_Nil [simp]: "\<not> mhas [] k"
  by (simp add: mhas_def)

lemma enqueue_fresh:
  "\<lbrakk>sub_inv ids s; m \<notin> set ids\<rbrakk> \<Longrightarrow> sub_inv (ids @ [m]) (enqueueMemoryMessage s m)"
  by (auto simp: sub_inv_def enqueueMemoryMessage_def signalMemorySubscription_def)

lemma enqueue_released:
  assumes "sub_inv ids s" "mhas (ms_inFlight s) m"
  shows "sub_inv ids (enqueueMemoryMessage (s\<lparr>ms_inFlight := mdel m (ms_inFlight s)\<rparr>) m)"
  using assms by (auto simp: sub_inv_def enqueueMemoryMessage_def signalMemorySubscription_def go_map split: if_splits)

lemma sub_inv_fold:
  "\<lbrakk>distinct (done @ ids); sub_inv done s\<rbrakk> \<Longrightarrow> sub_inv (done @ ids) (fold (\<lambda>m s. enqueueMemoryMessage s m) ids s)"
proof (induction ids arbitrary: "done" s)
  case (Cons m ids)
  have "sub_inv (done @ [m]) (enqueueMemoryMessage s m)" by (rule enqueue_fresh) (use Cons.prems in auto)
  from Cons.IH [OF _ this] show ?case using Cons.prems(1) by simp
qed simp

lemma sub_inv_empty: "sub_inv [] empty_subscription"
  by (simp add: sub_inv_def empty_subscription_def mhas_def)

lemma subscriptionLocked_inv:
  assumes "broker_inv b" "subscriptionLocked b k = (s, b')"
  shows "broker_inv b' \<and> sub_inv (topic_ids b (snd k)) s \<and> mget (mb_subscriptions b') k = Some s \<and>
    mb_topics b' = mb_topics b \<and> mb_messages b' = mb_messages b \<and> mb_closed b' = mb_closed b \<and>
    (\<forall>k'. k' \<noteq> k \<longrightarrow> mget (mb_subscriptions b') k' = mget (mb_subscriptions b) k')"
proof (cases "mget (mb_subscriptions b) k")
  case (Some x)
  then have "s = x" "b' = b" using assms(2) by (simp_all add: subscriptionLocked_def)
  moreover have "sub_inv (topic_ids b (snd k)) x" using assms(1) Some unfolding broker_inv_def by blast
  ultimately show ?thesis using assms(1) Some by simp
next
  case None
  have "sub_inv ([] @ topic_ids b (snd k)) (fold (\<lambda>m s. enqueueMemoryMessage s m) (topic_ids b (snd k)) empty_subscription)"
    by (rule sub_inv_fold) (use assms(1) in \<open>auto simp: broker_inv_def sub_inv_empty\<close>)
  moreover have "s = fold (\<lambda>m s. enqueueMemoryMessage s m) (topic_ids b (snd k)) empty_subscription"
    "b' = b\<lparr>mb_subscriptions := mput k s (mb_subscriptions b)\<rparr>"
    using assms(2) None by (auto simp: subscriptionLocked_def topic_ids_def Let_def)
  ultimately show ?thesis using assms(1) by (auto simp: broker_inv_def topic_ids_def go_map)
qed

section \<open>The atomic steps of the broker\<close>

text \<open>One rule per method and outcome. A settled delivery carries the counter \<open>receive_round\<close> gave it; the
  counter is zero only after \<open>2 ^ 64\<close> deliveries of one message.\<close>

inductive broker_step ::
  "InMemoryBroker \<Rightarrow> (memorySubscriptionKey, MessageID) queue_event \<Rightarrow> InMemoryBroker \<Rightarrow> bool" where
  publish: "memory_Publish b ctx msg = (None, b') \<Longrightarrow> broker_step b (QPublish (tm_ID msg)) b'"
| publish_fails: "memory_Publish b ctx msg = (Some err, b') \<Longrightarrow> broker_step b QNone b'"
| deliver: "receive_round b k = (Received d, b') \<Longrightarrow> broker_step b (QDeliver k (tm_ID (md_message d))) b'"
| waits: "receive_round b k = (ReceiveWaits, b') \<Longrightarrow> broker_step b QNone b'"
| ack: "\<lbrakk>memory_Ack b ctx d = (None, b'); md_count d \<noteq> 0\<rbrakk> \<Longrightarrow> broker_step b (QAck (md_key d) (tm_ID (md_message d))) b'"
| ack_fails: "memory_Ack b ctx d = (Some err, b') \<Longrightarrow> broker_step b QNone b'"
| nack: "\<lbrakk>memory_Nack b ctx d = (None, b'); md_count d \<noteq> 0\<rbrakk> \<Longrightarrow> broker_step b (QNack (md_key d) (tm_ID (md_message d))) b'"
| nack_fails: "memory_Nack b ctx d = (Some err, b') \<Longrightarrow> broker_step b QNone b'"
| close: "broker_step b QNone (memory_Close b)"

lemma cloneMessage_fields [simp]:
  "tm_ID (cloneMessage msg) = tm_ID msg" "tm_Topic (cloneMessage msg) = tm_Topic msg" "tm_Body (cloneMessage msg) = tm_Body msg"
  by (simp_all add: cloneMessage_def split: option.split)

text \<open>The broker after storing a message it did not have.\<close>

definition with_message :: "InMemoryBroker \<Rightarrow> TaskMessage \<Rightarrow> InMemoryBroker" where
  "with_message b message = b\<lparr>
     mb_messages := mput (tm_ID message) (cloneMessage message) (mb_messages b),
     mb_topics := mput (tm_Topic message) (topic_ids b (tm_Topic message) @ [tm_ID message]) (mb_topics b),
     mb_subscriptions := mmap (\<lambda>key s. if snd key = tm_Topic message then enqueueMemoryMessage s (tm_ID message) else s)
       (mb_subscriptions b)\<rparr>"

lemma memory_Publish_cases:
  assumes "memory_Publish b ctx msg = (err, b')"
  obtains (same) "b' = b" "err = None \<longrightarrow> (\<exists>old. mget (mb_messages b) (tm_ID msg) = Some old \<and> tm_Topic old = tm_Topic msg \<and> tm_Body old = tm_Body msg)"
  | (new) "err = None" "mget (mb_messages b) (tm_ID msg) = None" "b' = with_message b msg"
proof -
  have "memory_Publish b ctx msg =
    (case broker_contextError ctx of Some err \<Rightarrow> (Some err, b) | None \<Rightarrow>
      case message_Validate msg of Inl err \<Rightarrow> (Some err, b) | Inr _ \<Rightarrow>
      if mb_closed b then (Some ErrBrokerClosed, b)
      else case mget (mb_messages b) (tm_ID msg) of
          Some old \<Rightarrow> (if tm_Topic old = tm_Topic msg \<and> tm_Body old = tm_Body msg then (None, b)
                       else (Some (MessageConflictError (tm_ID msg)), b))
        | None \<Rightarrow> (None, with_message b msg))"
    by (simp only: memory_Publish_def with_message_def topic_ids_def Let_def cloneMessage_fields)
  with assms show thesis
    by (cases "broker_contextError ctx"; cases "message_Validate msg"; cases "mget (mb_messages b) (tm_ID msg)")
      (auto intro: same new split: if_splits)
qed

lemma topic_ids_with_message:
  "topic_ids (with_message b msg) t = topic_ids b t @ (if t = tm_Topic msg then [tm_ID msg] else [])"
  by (simp add: topic_ids_def with_message_def mget_or_def go_map)

lemma with_message_inv:
  assumes "broker_inv b" "mget (mb_messages b) (tm_ID msg) = None"
  shows "broker_inv (with_message b msg)"
proof -
  note inv = assms(1) [unfolded broker_inv_def]
  have fresh: "tm_ID msg \<notin> set (topic_ids b t)" for t using inv assms(2) by simp
  have "sub_inv (topic_ids (with_message b msg) (snd k)) s'"
    if s': "mget (mb_subscriptions (with_message b msg)) k = Some s'" for k s'
  proof -
    obtain s where s: "mget (mb_subscriptions b) k = Some s"
      "s' = (if snd k = tm_Topic msg then enqueueMemoryMessage s (tm_ID msg) else s)"
      using s' by (auto simp: with_message_def go_map)
    have "sub_inv (topic_ids b (snd k)) s" using inv s(1) by blast
    with enqueue_fresh [OF this fresh] show ?thesis
      by (cases "snd k = tm_Topic msg") (simp_all add: topic_ids_with_message s(2))
  qed
  moreover have "distinct (topic_ids (with_message b msg) t)" for t
    using inv fresh by (simp add: topic_ids_with_message)
  moreover have "m \<in> set (topic_ids (with_message b msg) t) \<longleftrightarrow>
      (\<exists>m'. mget (mb_messages (with_message b msg)) m = Some m' \<and> tm_Topic m' = t)" for t m
  proof (cases "m = tm_ID msg")
    case True
    then show ?thesis using fresh by (simp add: topic_ids_with_message) (auto simp: with_message_def go_map)
  next
    case False
    then have "mget (mb_messages (with_message b msg)) m = mget (mb_messages b) m" by (simp add: with_message_def go_map)
    moreover have "m \<in> set (topic_ids (with_message b msg) t) \<longleftrightarrow> m \<in> set (topic_ids b t)"
      using False by (simp add: topic_ids_with_message)
    ultimately show ?thesis using inv by simp
  qed
  moreover have "tm_ID m' = m" if "mget (mb_messages (with_message b msg)) m = Some m'" for m m'
    using that inv by (auto simp: with_message_def go_map split: if_splits)
  ultimately show ?thesis unfolding broker_inv_def by blast
qed

text \<open>Every other method replaces one subscription.\<close>

definition with_subscription :: "InMemoryBroker \<Rightarrow> memorySubscriptionKey \<Rightarrow> memorySubscription \<Rightarrow> InMemoryBroker" where
  "with_subscription b k s = b\<lparr>mb_subscriptions := mput k s (mb_subscriptions b)\<rparr>"

lemma with_subscription_inv:
  "\<lbrakk>broker_inv b; sub_inv (topic_ids b (snd k)) s\<rbrakk> \<Longrightarrow> broker_inv (with_subscription b k s)"
  unfolding broker_inv_def by (cases k) (simp add: with_subscription_def topic_ids_def go_map)

definition ack_sub :: "MessageID \<Rightarrow> memorySubscription \<Rightarrow> memorySubscription" where
  "ack_sub m s = s\<lparr>ms_inFlight := mdel m (ms_inFlight s), ms_acked := mput m () (ms_acked s)\<rparr>"

definition nack_sub :: "MessageID \<Rightarrow> memorySubscription \<Rightarrow> memorySubscription" where
  "nack_sub m s = enqueueMemoryMessage (s\<lparr>ms_inFlight := mdel m (ms_inFlight s)\<rparr>) m"

definition take_sub :: "MessageID \<Rightarrow> memorySubscription \<Rightarrow> memorySubscription" where
  "take_sub m s = (let count = mget_or 0 (ms_deliveryCount s) m + 1
     in s\<lparr>ms_queued := tl (ms_queued s), ms_queuedSet := mdel m (ms_queuedSet s),
          ms_deliveryCount := mput m count (ms_deliveryCount s), ms_inFlight := mput m count (ms_inFlight s)\<rparr>)"

lemma ack_sub_inv: "\<lbrakk>sub_inv ids s; mhas (ms_inFlight s) m\<rbrakk> \<Longrightarrow> sub_inv ids (ack_sub m s)"
  by (auto simp: sub_inv_def ack_sub_def go_map split: if_splits)

lemma nack_sub_inv: "\<lbrakk>sub_inv ids s; mhas (ms_inFlight s) m\<rbrakk> \<Longrightarrow> sub_inv ids (nack_sub m s)"
  unfolding nack_sub_def by (rule enqueue_released)

lemma take_sub_inv: "\<lbrakk>sub_inv ids s; ms_queued s = m # rest\<rbrakk> \<Longrightarrow> sub_inv ids (take_sub m s)"
  by (auto simp: sub_inv_def take_sub_def Let_def go_map split: if_splits)

lemma delivery_active_InrD:
  assumes "delivery_active b ctx d = Inr s"
  shows "mget (mb_subscriptions b) (md_key d) = Some s"
    "md_count d \<noteq> 0 \<Longrightarrow> mget (ms_inFlight s) (tm_ID (md_message d)) = Some (md_count d)"
  using assms by (auto simp: delivery_active_def mget_or_def split: option.splits if_splits)

lemma memory_Ack_cases:
  assumes "memory_Ack b ctx d = (err, b')"
  obtains (failed) e where "err = Some e" "b' = b"
  | (ok) s where "err = None" "delivery_active b ctx d = Inr s"
      "b' = with_subscription b (md_key d) (ack_sub (tm_ID (md_message d)) s)"
  using assms
  by (cases "delivery_active b ctx d") (auto simp: memory_Ack_def with_subscription_def ack_sub_def Let_def intro: failed ok)

lemma memory_Nack_cases:
  assumes "memory_Nack b ctx d = (err, b')"
  obtains (failed) e where "err = Some e" "b' = b"
  | (ok) s where "err = None" "delivery_active b ctx d = Inr s"
      "b' = with_subscription b (md_key d) (nack_sub (tm_ID (md_message d)) s)"
  using assms
  by (cases "delivery_active b ctx d") (auto simp: memory_Nack_def with_subscription_def nack_sub_def Let_def intro: failed ok)

lemma receive_round_cases:
  assumes "receive_round b k = (r, b')"
  obtains (closed) "r = ReceiveClosed" "b' = b" "mb_closed b"
  | (waits) s where "r = ReceiveWaits" "subscriptionLocked b k = (s, b')" "ms_queued s = []" "\<not> mb_closed b"
  | (taken) s b1 m rest where "subscriptionLocked b k = (s, b1)" "ms_queued s = m # rest" "\<not> mb_closed b"
      "r = Received \<lparr>md_key = k, md_message = cloneMessage (mget_or zero_TaskMessage (mb_messages b1) m),
                     md_count = mget_or 0 (ms_deliveryCount s) m + 1\<rparr>"
      "b' = with_subscription b1 k (take_sub m s)"
proof (cases "mb_closed b")
  case True
  then show thesis using assms closed by (simp add: receive_round_def)
next
  case False
  obtain s b1 where l: "subscriptionLocked b k = (s, b1)" by (cases "subscriptionLocked b k")
  show thesis
  proof (cases "ms_queued s")
    case Nil
    then show thesis using assms False l waits by (simp add: receive_round_def)
  next
    case (Cons m rest)
    show thesis
      by (rule taken [OF l Cons False]) (use assms False l Cons in \<open>simp_all add: receive_round_def with_subscription_def take_sub_def Let_def\<close>)
  qed
qed

lemma broker_invD:
  assumes "broker_inv b"
  shows "distinct (topic_ids b t)"
    "m \<in> set (topic_ids b t) \<longleftrightarrow> (\<exists>msg. mget (mb_messages b) m = Some msg \<and> tm_Topic msg = t)"
    "mget (mb_messages b) m = Some msg \<Longrightarrow> tm_ID msg = m"
    "mget (mb_subscriptions b) k = Some s \<Longrightarrow> sub_inv (topic_ids b (snd k)) s"
  using assms unfolding broker_inv_def by blast+

lemma sub_invD:
  assumes "sub_inv ids s"
  shows "distinct (ms_queued s)" "mhas (ms_queuedSet s) m \<longleftrightarrow> m \<in> set (ms_queued s)"
    "m \<in> set ids \<longleftrightarrow> m \<in> set (ms_queued s) \<or> mhas (ms_inFlight s) m \<or> mhas (ms_acked s) m"
    "mhas (ms_inFlight s) m \<Longrightarrow> m \<notin> set (ms_queued s) \<and> \<not> mhas (ms_acked s) m"
    "mhas (ms_acked s) m \<Longrightarrow> m \<notin> set (ms_queued s)"
    "mget (ms_inFlight s) m = Some c \<Longrightarrow> mget (ms_deliveryCount s) m = Some c"
  using assms unfolding sub_inv_def by blast+

text \<open>The message a round delivers is the one it took from the queue.\<close>

lemma received_id:
  assumes "broker_inv b" "subscriptionLocked b k = (s, b1)" "m \<in> set (ms_queued s)"
  shows "tm_ID (cloneMessage (mget_or zero_TaskMessage (mb_messages b1) m)) = m"
proof -
  note l = subscriptionLocked_inv [OF assms(1,2)]
  then have "m \<in> set (topic_ids b (snd k))" using sub_invD(3) assms(3) by blast
  then obtain msg where "mget (mb_messages b) m = Some msg" using broker_invD(2) [OF assms(1)] by blast
  then show ?thesis using l broker_invD(3) [OF assms(1)] by (simp add: mget_or_def)
qed

lemma sub_inv_signal [simp]: "sub_inv ids (signalMemorySubscription s) = sub_inv ids s"
  by (simp add: sub_inv_def signalMemorySubscription_def)

lemma memory_Close_inv: "broker_inv b \<Longrightarrow> broker_inv (memory_Close b)"
  unfolding broker_inv_def by (auto simp: memory_Close_def topic_ids_def go_map)

lemma broker_step_inv: "\<lbrakk>broker_step b e b'; broker_inv b\<rbrakk> \<Longrightarrow> broker_inv b'"
proof (induction rule: broker_step.induct)
  case (deliver b k d b')
  from deliver.hyps show ?case
  proof (cases rule: receive_round_cases)
    case (taken s b1 m rest)
    note l = subscriptionLocked_inv [OF deliver.prems taken(1)]
    have "sub_inv (topic_ids b1 (snd k)) (take_sub m s)" using take_sub_inv taken(2) l by (simp add: topic_ids_def)
    then show ?thesis using with_subscription_inv l taken(5) by simp
  qed simp_all
next
  case (waits b k b')
  from waits.hyps show ?case by (cases rule: receive_round_cases) (use subscriptionLocked_inv [OF waits.prems] in auto)
next
  case (ack b ctx d b')
  from ack.hyps(1) show ?case
  proof (cases rule: memory_Ack_cases)
    case (ok s)
    note a = delivery_active_InrD [OF ok(2)]
    have "sub_inv (topic_ids b (snd (md_key d))) (ack_sub (tm_ID (md_message d)) s)"
      by (rule ack_sub_inv [OF broker_invD(4) [OF ack.prems a(1)]]) (simp add: mhas_def a(2) [OF ack.hyps(2)])
    then show ?thesis using with_subscription_inv ack.prems ok(3) by simp
  qed simp
next
  case (nack b ctx d b')
  from nack.hyps(1) show ?case
  proof (cases rule: memory_Nack_cases)
    case (ok s)
    note a = delivery_active_InrD [OF ok(2)]
    have "sub_inv (topic_ids b (snd (md_key d))) (nack_sub (tm_ID (md_message d)) s)"
      by (rule nack_sub_inv [OF broker_invD(4) [OF nack.prems a(1)]]) (simp add: mhas_def a(2) [OF nack.hyps(2)])
    then show ?thesis using with_subscription_inv nack.prems ok(3) by simp
  qed simp
qed (auto elim!: memory_Publish_cases memory_Ack_cases memory_Nack_cases intro: with_message_inv memory_Close_inv)

section \<open>The broker is a durable queue\<close>

definition acked_ids :: "InMemoryBroker \<Rightarrow> memorySubscriptionKey \<Rightarrow> MessageID set" where
  "acked_ids b k = (case mget (mb_subscriptions b) k of None \<Rightarrow> {} | Some s \<Rightarrow> {m. mhas (ms_acked s) m})"

definition inflight_ids :: "InMemoryBroker \<Rightarrow> memorySubscriptionKey \<Rightarrow> MessageID set" where
  "inflight_ids b k = (case mget (mb_subscriptions b) k of None \<Rightarrow> {} | Some s \<Rightarrow> {m. mhas (ms_inFlight s) m})"

lemma enqueue_fields [simp]:
  "ms_acked (enqueueMemoryMessage s m) = ms_acked s"
  "ms_inFlight (enqueueMemoryMessage s m) = ms_inFlight s"
  by (simp_all add: enqueueMemoryMessage_def signalMemorySubscription_def)

lemma fold_enqueue_fields [simp]:
  "ms_acked (fold (\<lambda>m s. enqueueMemoryMessage s m) ids s) = ms_acked s"
  "ms_inFlight (fold (\<lambda>m s. enqueueMemoryMessage s m) ids s) = ms_inFlight s"
  by (induction ids arbitrary: s) simp_all

lemma subscriptionLocked_ids:
  assumes "subscriptionLocked b k = (s, b')"
  shows "acked_ids b' = acked_ids b" "inflight_ids b' = inflight_ids b" "acked_ids b k = {m. mhas (ms_acked s) m}"
    "inflight_ids b k = {m. mhas (ms_inFlight s) m}"
proof -
  have "b' = b \<and> mget (mb_subscriptions b) k = Some s \<or>
    mget (mb_subscriptions b) k = None \<and> ms_acked s = [] \<and> ms_inFlight s = [] \<and> b' = b\<lparr>mb_subscriptions := mput k s (mb_subscriptions b)\<rparr>"
    using assms by (cases "mget (mb_subscriptions b) k") (auto simp: subscriptionLocked_def Let_def empty_subscription_def)
  then show "acked_ids b' = acked_ids b" "inflight_ids b' = inflight_ids b" "acked_ids b k = {m. mhas (ms_acked s) m}"
    "inflight_ids b k = {m. mhas (ms_inFlight s) m}"
    by (auto simp: acked_ids_def inflight_ids_def go_map fun_eq_iff split: if_splits)
qed

lemma with_subscription_ids:
  "acked_ids (with_subscription b k s) k' = (if k' = k then {m. mhas (ms_acked s) m} else acked_ids b k')"
  "inflight_ids (with_subscription b k s) k' = (if k' = k then {m. mhas (ms_inFlight s) m} else inflight_ids b k')"
  by (simp_all add: acked_ids_def inflight_ids_def with_subscription_def go_map)

lemma with_message_ids: "acked_ids (with_message b msg) = acked_ids b" "inflight_ids (with_message b msg) = inflight_ids b"
  by (auto simp: acked_ids_def inflight_ids_def with_message_def go_map fun_eq_iff split: option.split)

lemma memory_Close_ids: "acked_ids (memory_Close b) = acked_ids b" "inflight_ids (memory_Close b) = inflight_ids b"
  by (auto simp: acked_ids_def inflight_ids_def memory_Close_def signalMemorySubscription_def go_map fun_eq_iff split: option.split)

lemma sub_moves [simp]:
  "ms_acked (take_sub m s) = ms_acked s" "mhas (ms_inFlight (take_sub m s)) m' \<longleftrightarrow> m' = m \<or> mhas (ms_inFlight s) m'"
  "mhas (ms_acked (ack_sub m s)) m' \<longleftrightarrow> m' = m \<or> mhas (ms_acked s) m'"
  "mhas (ms_inFlight (ack_sub m s)) m' \<longleftrightarrow> m' \<noteq> m \<and> mhas (ms_inFlight s) m'"
  "ms_acked (nack_sub m s) = ms_acked s"
  "mhas (ms_inFlight (nack_sub m s)) m' \<longleftrightarrow> m' \<noteq> m \<and> mhas (ms_inFlight s) m'"
  by (simp_all add: take_sub_def ack_sub_def nack_sub_def Let_def)

text \<open>What each step does to the two sets, and which event it can carry.\<close>

lemma broker_step_effect:
  assumes "broker_step b e b'" "broker_inv b"
  shows "(\<forall>t. set (topic_ids b t) \<subseteq> set (topic_ids b' t)) \<and>
    (\<forall>k. acked_ids b' k = acked_ids b k \<union> {m. e = QAck k m}) \<and>
    (\<forall>k m. m \<in> inflight_ids b' k \<longrightarrow> m \<in> inflight_ids b k \<or> e = QDeliver k m) \<and>
    (\<forall>k m. e = QDeliver k m \<longrightarrow> m \<in> set (topic_ids b (snd k)) \<and> m \<notin> acked_ids b k) \<and>
    (\<forall>k m. e = QAck k m \<longrightarrow> m \<in> inflight_ids b k \<and> m \<notin> acked_ids b k)"
  using assms
proof (induction rule: broker_step.induct)
  case (deliver b k d b')
  from deliver.hyps show ?case
  proof (cases rule: receive_round_cases)
    case (taken s b1 m rest)
    note l = subscriptionLocked_inv [OF deliver.prems taken(1)] and ids = subscriptionLocked_ids [OF taken(1)]
    have m: "tm_ID (md_message d) = m" using taken(4) received_id [OF deliver.prems taken(1), of m] taken(2) by simp
    have "m \<in> set (topic_ids b (snd k))" "m \<notin> acked_ids b k"
      using l sub_invD(3,5) taken(2) ids(3) by (metis list.set_intros(1), metis list.set_intros(1) mem_Collect_eq)
    moreover have "topic_ids b' = topic_ids b" using l taken(5) by (simp add: topic_ids_def with_subscription_def fun_eq_iff)
    ultimately show ?thesis using m ids by (simp add: taken(5) with_subscription_ids)
  qed simp_all
next
  case (waits b k b')
  from waits.hyps show ?case
  proof (cases rule: receive_round_cases)
    case (waits s)
    then show ?thesis using subscriptionLocked_inv [OF \<open>broker_inv b\<close> waits(2)] subscriptionLocked_ids [OF waits(2)]
      by (simp add: topic_ids_def)
  qed simp_all
next
  case (ack b ctx d b')
  from ack.hyps(1) show ?case
  proof (cases rule: memory_Ack_cases)
    case (ok s)
    note a = delivery_active_InrD [OF ok(2)]
    have i: "mhas (ms_inFlight s) (tm_ID (md_message d))" by (simp add: mhas_def a(2) [OF ack.hyps(2)])
    have "\<not> mhas (ms_acked s) (tm_ID (md_message d))" using sub_invD(4) [OF broker_invD(4) [OF ack.prems a(1)] i] by blast
    moreover have "acked_ids b (md_key d) = {m. mhas (ms_acked s) m}" "inflight_ids b (md_key d) = {m. mhas (ms_inFlight s) m}"
      by (simp_all add: acked_ids_def inflight_ids_def a(1))
    moreover have "topic_ids b' = topic_ids b" by (simp add: ok(3) topic_ids_def with_subscription_def fun_eq_iff)
    ultimately show ?thesis using i by (auto simp: ok(3) with_subscription_ids split: if_splits)
  qed simp
next
  case (nack b ctx d b')
  from nack.hyps(1) show ?case
  proof (cases rule: memory_Nack_cases)
    case (ok s)
    note a = delivery_active_InrD(1) [OF ok(2)]
    have "acked_ids b (md_key d) = {m. mhas (ms_acked s) m}" "inflight_ids b (md_key d) = {m. mhas (ms_inFlight s) m}"
      by (simp_all add: acked_ids_def inflight_ids_def a)
    moreover have "topic_ids b' = topic_ids b" by (simp add: ok(3) topic_ids_def with_subscription_def fun_eq_iff)
    ultimately show ?thesis by (auto simp: ok(3) with_subscription_ids split: if_splits)
  qed simp
next
  case (publish b ctx msg b')
  from publish.hyps show ?case
    by (cases rule: memory_Publish_cases) (simp_all add: with_message_ids topic_ids_with_message)
next
  case (publish_fails b ctx msg err b')
  from publish_fails.hyps show ?case by (cases rule: memory_Publish_cases) simp_all
next
  case (ack_fails b ctx d err b')
  from ack_fails.hyps show ?case by (cases rule: memory_Ack_cases) simp_all
next
  case (nack_fails b ctx d err b')
  from nack_fails.hyps show ?case by (cases rule: memory_Nack_cases) simp_all
next
  case (close b)
  then show ?case by (simp add: memory_Close_ids) (simp add: memory_Close_def topic_ids_def)
qed

interpretation memq: durable_queue broker_inv "\<lambda>b k. set (topic_ids b (snd k))" acked_ids inflight_ids broker_step
proof
  show "broker_inv b'" if "broker_step b e b'" "broker_inv b" for b e b' using that by (rule broker_step_inv)
qed (use broker_step_effect in blast)+

lemma distinct_count: "distinct xs \<Longrightarrow> count_list xs x = of_bool (x \<in> set xs)"
  by (induction xs) auto

lemma New_inv: "broker_inv NewInMemoryBroker"
  by (simp add: broker_inv_def NewInMemoryBroker_def topic_ids_def mget_or_def)

lemma trace_published:
  "\<lbrakk>memq.trace b es b'; broker_inv b; QPublish m \<in> set es \<or> mhas (mb_messages b) m\<rbrakk> \<Longrightarrow> mhas (mb_messages b') m"
proof (induction rule: memq.trace.induct)
  case (cons b e b' es b'')
  have inv: "broker_inv b'" by (rule broker_step_inv [OF cons.hyps(1) cons.prems(1)])
  have "mhas (mb_messages b') m" if pub: "e = QPublish m \<or> mhas (mb_messages b) m"
  proof (cases "mhas (mb_messages b) m")
    case True
    then obtain msg where "mget (mb_messages b) m = Some msg" by (auto simp: mhas_def)
    then have "m \<in> set (topic_ids b (tm_Topic msg))" using broker_invD(2) [OF cons.prems(1)] by blast
    then have "m \<in> set (topic_ids b' (tm_Topic msg))" using broker_step_effect [OF cons.hyps(1) cons.prems(1)] by blast
    then show ?thesis using broker_invD(2) [OF inv] by (auto simp: mhas_def)
  next
    case False
    with pub have "broker_step b (QPublish m) b'" using cons.hyps(1) by simp
    then show ?thesis
    proof (cases rule: broker_step.cases)
      case (publish ctx msg)
      from publish(2) show ?thesis
        by (cases rule: memory_Publish_cases) (use False publish(1) in \<open>auto simp: mhas_def with_message_def go_map\<close>)
    qed
  qed
  then show ?case using cons.IH [OF inv] cons.prems(2) by auto
qed simp

text \<open>C12: no message is lost or duplicated. After any sequence of broker operations, a published message
  is stored, and in every subscription of its topic it is queued exactly once, in flight, or
  acknowledged, and exactly one of these.\<close>

theorem message_conservation:
  assumes "memq.trace NewInMemoryBroker es b" "QPublish m \<in> set es"
  shows "\<exists>msg. mget (mb_messages b) m = Some msg \<and> tm_ID msg = m \<and>
    (\<forall>c s. mget (mb_subscriptions b) (c, tm_Topic msg) = Some s \<longrightarrow>
       count_list (ms_queued s) m + of_bool (mhas (ms_inFlight s) m) + of_bool (mhas (ms_acked s) m) = 1)"
proof -
  have inv: "broker_inv b" by (rule memq.trace_inv [OF assms(1) New_inv])
  obtain msg where msg: "mget (mb_messages b) m = Some msg"
    using trace_published [OF assms(1) New_inv, of m] assms(2) by (auto simp: mhas_def)
  have "count_list (ms_queued s) m + of_bool (mhas (ms_inFlight s) m) + of_bool (mhas (ms_acked s) m) = 1"
    if s: "mget (mb_subscriptions b) (c, tm_Topic msg) = Some s" for c s
  proof -
    note si = sub_invD [OF broker_invD(4) [OF inv s]]
    have "m \<in> set (topic_ids b (tm_Topic msg))" using broker_invD(2) [OF inv] msg by blast
    then have "m \<in> set (ms_queued s) \<or> mhas (ms_inFlight s) m \<or> mhas (ms_acked s) m" using si(3) by simp
    moreover have "count_list (ms_queued s) m = of_bool (m \<in> set (ms_queued s))"
      by (rule distinct_count [OF si(1)])
    ultimately show ?thesis using si(4,5) [of m] by auto
  qed
  then show ?thesis using msg broker_invD(3) [OF inv msg] by blast
qed

text \<open>C31: an acknowledgement is final. Only a message that was delivered to a subscription is
  acknowledged there, and afterwards it is never delivered or acknowledged again.\<close>

theorem acknowledged_once:
  assumes "memq.trace NewInMemoryBroker (xs @ QAck k m # ys) b"
  shows "QDeliver k m \<in> set xs \<and> QDeliver k m \<notin> set ys \<and> QAck k m \<notin> set ys"
proof -
  have "xs @ QAck k m # ys = (xs @ [QAck k m]) @ ys" by simp
  then obtain b' where "memq.trace NewInMemoryBroker (xs @ [QAck k m]) b'"
    using assms memq.trace_split [of _ "xs @ [QAck k m]" ys] by metis
  from memq.ack_delivered [OF this New_inv, of k m]
  have "QDeliver k m \<in> set xs" by (auto simp: inflight_ids_def NewInMemoryBroker_def)
  with memq.ack_final [OF assms New_inv] show ?thesis by blast
qed

text \<open>C32: publishing is idempotent. Once a message is stored, publishing the same topic and body under
  its ID succeeds and changes nothing, whatever the headers; different content is refused and changes
  nothing either.\<close>

theorem publish_idempotent:
  assumes "memory_Publish b ctx msg = (None, b')" "message_Validate msg' = Inr ()" "tm_ID msg' = tm_ID msg"
  shows "memory_Publish b' (Context None) msg' =
    (if tm_Topic msg' = tm_Topic msg \<and> tm_Body msg' = tm_Body msg then (None, b')
     else (Some (MessageConflictError (tm_ID msg)), b'))"
proof -
  have open_b: "\<not> mb_closed b"
    using assms(1) by (auto simp: memory_Publish_def split: option.splits sum.splits if_splits)
  from assms(1) obtain old where "mget (mb_messages b') (tm_ID msg) = Some old" "tm_Topic old = tm_Topic msg"
    "tm_Body old = tm_Body msg" "\<not> mb_closed b'"
    by (cases rule: memory_Publish_cases) (use open_b in \<open>auto simp: with_message_def go_map\<close>)
  then show ?thesis using assms(2,3) by (auto simp: memory_Publish_def broker_contextError_def)
qed

section \<open>Order and redelivery\<close>

text \<open>The deliveries of up to \<open>n\<close> rounds of \<open>Receive\<close> on one subscription, with nothing in between.\<close>

fun receive_many :: "nat \<Rightarrow> InMemoryBroker \<Rightarrow> memorySubscriptionKey \<Rightarrow> memoryDelivery list \<times> InMemoryBroker" where
  "receive_many 0 b k = ([], b)"
| "receive_many (Suc n) b k =
     (case receive_round b k of
        (Received d, b') \<Rightarrow> (case receive_many n b' k of (ds, b'') \<Rightarrow> (d # ds, b''))
      | (_, b') \<Rightarrow> ([], b'))"

lemma subscriptionLocked_existing: "mget (mb_subscriptions b) k = Some s \<Longrightarrow> subscriptionLocked b k = (s, b)"
  by (simp add: subscriptionLocked_def)

lemma receive_round_existing:
  assumes "broker_inv b" "\<not> mb_closed b" "mget (mb_subscriptions b) k = Some s" "ms_queued s = m # rest"
  obtains d where "receive_round b k = (Received d, with_subscription b k (take_sub m s))" "md_key d = k"
    "tm_ID (md_message d) = m" "md_count d = mget_or 0 (ms_deliveryCount s) m + 1"
proof -
  note l = subscriptionLocked_existing [OF assms(3)]
  have "tm_ID (cloneMessage (mget_or zero_TaskMessage (mb_messages b) m)) = m"
    by (rule received_id [OF assms(1) l]) (simp add: assms(4))
  moreover have "receive_round b k =
     (Received \<lparr>md_key = k, md_message = cloneMessage (mget_or zero_TaskMessage (mb_messages b) m),
                md_count = mget_or 0 (ms_deliveryCount s) m + 1\<rparr>, with_subscription b k (take_sub m s))"
    using assms(2,4) l by (simp add: receive_round_def with_subscription_def take_sub_def Let_def)
  ultimately show thesis using that by simp
qed

lemma receive_many_spec:
  "\<lbrakk>broker_inv b; \<not> mb_closed b; mget (mb_subscriptions b) k = Some s\<rbrakk> \<Longrightarrow>
   map (\<lambda>d. (md_key d, tm_ID (md_message d), md_count d)) (fst (receive_many n b k)) =
     map (\<lambda>m. (k, m, mget_or 0 (ms_deliveryCount s) m + 1)) (take n (ms_queued s)) \<and>
   (\<exists>s'. mget (mb_subscriptions (snd (receive_many n b k))) k = Some s' \<and> ms_queued s' = drop n (ms_queued s))"
proof (induction n arbitrary: b s)
  case (Suc n)
  show ?case
  proof (cases "ms_queued s")
    case Nil
    then have "receive_round b k = (ReceiveWaits, b)"
      using Suc.prems by (simp add: receive_round_def subscriptionLocked_existing)
    then show ?thesis using Nil Suc.prems(3) by simp
  next
    case (Cons m rest)
    obtain d where d: "receive_round b k = (Received d, with_subscription b k (take_sub m s))" "md_key d = k"
      "tm_ID (md_message d) = m" "md_count d = mget_or 0 (ms_deliveryCount s) m + 1"
      using receive_round_existing [OF Suc.prems Cons] .
    have inv: "broker_inv (with_subscription b k (take_sub m s))" by (rule broker_step_inv [OF broker_step.deliver [OF d(1)] Suc.prems(1)])
    have get: "mget (mb_subscriptions (with_subscription b k (take_sub m s))) k = Some (take_sub m s)"
      "\<not> mb_closed (with_subscription b k (take_sub m s))" using Suc.prems(2) by (simp_all add: with_subscription_def go_map)
    have q: "ms_queued (take_sub m s) = rest" by (simp add: take_sub_def Let_def Cons)
    have "m \<notin> set rest" using sub_invD(1) [OF broker_invD(4) [OF Suc.prems(1,3)]] Cons by simp
    then have counts: "map (\<lambda>x. (k, x, mget_or 0 (ms_deliveryCount (take_sub m s)) x + 1)) (take n rest) =
        map (\<lambda>x. (k, x, mget_or 0 (ms_deliveryCount s) x + 1)) (take n rest)"
      by (auto simp: take_sub_def Let_def mget_or_def go_map dest: in_set_takeD)
    from Suc.IH [OF inv get(2,1), unfolded q counts] show ?thesis
      by (simp add: d Cons case_prod_beta)
  qed
qed simp

text \<open>Delivery counters: only a delivery advances the counter of its message, by one.\<close>

definition sub_count :: "InMemoryBroker \<Rightarrow> memorySubscriptionKey \<Rightarrow> MessageID \<Rightarrow> u64 option" where
  "sub_count b k m = Option.bind (mget (mb_subscriptions b) k) (\<lambda>s. mget (ms_deliveryCount s) m)"

lemma sub_moves_count [simp]:
  "ms_deliveryCount (enqueueMemoryMessage s m) = ms_deliveryCount s"
  "ms_deliveryCount (ack_sub m s) = ms_deliveryCount s" "ms_deliveryCount (nack_sub m s) = ms_deliveryCount s"
  "mget (ms_deliveryCount (take_sub m s)) m' =
     (if m' = m then Some (mget_or 0 (ms_deliveryCount s) m + 1) else mget (ms_deliveryCount s) m')"
  by (simp_all add: enqueueMemoryMessage_def signalMemorySubscription_def ack_sub_def nack_sub_def take_sub_def Let_def go_map)

lemma sub_count_with_subscription:
  "sub_count (with_subscription b k s) k' m = (if k' = k then mget (ms_deliveryCount s) m else sub_count b k' m)"
  by (simp add: sub_count_def with_subscription_def go_map)

lemma sub_count_with_message: "sub_count (with_message b msg) k m = sub_count b k m"
  by (cases "mget (mb_subscriptions b) k") (auto simp: sub_count_def with_message_def go_map)

lemma sub_count_Close: "sub_count (memory_Close b) k m = sub_count b k m"
  by (cases "mget (mb_subscriptions b) k") (auto simp: sub_count_def memory_Close_def signalMemorySubscription_def go_map)

lemma sub_count_Locked:
  assumes "broker_inv b" "subscriptionLocked b k = (s, b')" "sub_count b k' m = Some c"
  shows "sub_count b' k' m = Some c"
proof (cases "k' = k")
  case True
  then have "mget (mb_subscriptions b) k \<noteq> None" using assms(3) by (auto simp: sub_count_def bind_eq_Some_conv)
  then have "b' = b" using assms(2) by (auto simp: subscriptionLocked_def)
  then show ?thesis using assms(3) by simp
next
  case False
  then show ?thesis using subscriptionLocked_inv [OF assms(1,2)] assms(3) by (cases k') (simp add: sub_count_def)
qed

lemma settled_count:
  assumes "delivery_active b ctx d = Inr s"
  shows "sub_count (with_subscription b (md_key d) (ack_sub m' s)) k m = sub_count b k m"
    "sub_count (with_subscription b (md_key d) (nack_sub m' s)) k m = sub_count b k m"
  using delivery_active_InrD(1) [OF assms] by (simp_all add: sub_count_with_subscription) (simp_all add: sub_count_def)

lemma broker_step_count:
  "\<lbrakk>broker_step b e b'; broker_inv b; sub_count b k m = Some c\<rbrakk>
    \<Longrightarrow> sub_count b' k m = Some (c + of_bool (e = QDeliver k m))"
proof (induction rule: broker_step.induct)
  case (deliver b k' d b')
  from deliver.hyps show ?case
  proof (cases rule: receive_round_cases)
    case (taken s b1 m' rest)
    have id: "tm_ID (md_message d) = m'"
      using taken(4) received_id [OF deliver.prems(1) taken(1), of m'] taken(2) by simp
    have c: "sub_count b1 k m = Some c" by (rule sub_count_Locked [OF deliver.prems(1) taken(1) deliver.prems(2)])
    moreover have "k = k' \<Longrightarrow> mget (ms_deliveryCount s) m = Some c"
      using c subscriptionLocked_inv [OF deliver.prems(1) taken(1)] by (simp add: sub_count_def)
    ultimately show ?thesis by (auto simp: taken(5) sub_count_with_subscription id mget_or_def)
  qed simp_all
next
  case (waits b k' b')
  from waits.hyps show ?case
    by (cases rule: receive_round_cases) (use sub_count_Locked [OF waits.prems(1) _ waits.prems(2)] in auto)
qed (auto elim!: memory_Publish_cases memory_Ack_cases memory_Nack_cases
  simp: sub_count_with_message sub_count_Close settled_count)

text \<open>Once a delivery is settled, its counter is never in flight again, however often the message is
  delivered anew, as long as the counter does not wrap around.\<close>

lemma settled_trace:
  "\<lbrakk>memq.trace b es b'; broker_inv b; sub_count b k m = Some (c + of_nat n); n = 0 \<longrightarrow> m \<notin> inflight_ids b k\<rbrakk>
    \<Longrightarrow> broker_inv b' \<and> (\<exists>n'. n' = n + count_list es (QDeliver k m) \<and>
      sub_count b' k m = Some (c + of_nat n') \<and> (n' = 0 \<longrightarrow> m \<notin> inflight_ids b' k))"
proof (induction arbitrary: n rule: memq.trace.induct)
  case (cons b e b' es b'')
  have inv: "broker_inv b'" by (rule broker_step_inv [OF cons.hyps(1) cons.prems(1)])
  let ?n = "n + of_bool (e = QDeliver k m)"
  have "sub_count b' k m = Some (c + of_nat ?n)"
    using broker_step_count [OF cons.hyps(1) cons.prems(1,2)] by (simp add: add.assoc)
  moreover have "?n = 0 \<longrightarrow> m \<notin> inflight_ids b' k"
    using memq.step_inflight [OF cons.hyps(1) cons.prems(1), of m k] cons.prems(3) by (auto split: if_splits)
  ultimately show ?case using cons.IH [OF inv, of ?n] by (auto simp: add.assoc)
qed simp

lemma word_advance_neq: "unat (c :: u64) + n < 2 ^ 64 \<Longrightarrow> 0 < n \<Longrightarrow> c + of_nat n \<noteq> c"
proof
  assume n: "unat c + n < 2 ^ 64" "0 < n" and eq: "c + of_nat n = c"
  then have "(of_nat n :: u64) = 0" by simp
  then have "unat (of_nat n :: u64) = 0" by simp
  with n show False by (simp add: unat_of_nat)
qed

lemma settled_delivery:
  assumes "broker_inv b" "sub_count b (md_key d) (tm_ID (md_message d)) = Some (md_count d + of_nat n)"
    "n = 0 \<longrightarrow> tm_ID (md_message d) \<notin> inflight_ids b (md_key d)" "unat (md_count d) + n < 2 ^ 64" "md_count d \<noteq> 0"
  shows "delivery_active b (Context None) d = Inl (if mb_closed b then ErrBrokerClosed else ErrDeliverySettled)"
proof -
  let ?m = "tm_ID (md_message d)"
  obtain s where s: "mget (mb_subscriptions b) (md_key d) = Some s" "mget (ms_deliveryCount s) ?m = Some (md_count d + of_nat n)"
    using assms(2) by (auto simp: sub_count_def bind_eq_Some_conv)
  have "mget_or 0 (ms_inFlight s) ?m \<noteq> md_count d"
  proof (cases "mget (ms_inFlight s) ?m")
    case None
    then show ?thesis using assms(5) by (simp add: mget_or_def)
  next
    case (Some c)
    then have "c = md_count d + of_nat n" using sub_invD(6) [OF broker_invD(4) [OF assms(1) s(1)] Some] s(2) by simp
    moreover have "0 < n" using assms(3) s(1) Some by (cases n) (auto simp: inflight_ids_def mhas_def)
    ultimately show ?thesis using word_advance_neq [OF assms(4)] Some by (simp add: mget_or_def)
  qed
  then show ?thesis using s(1) by (simp add: delivery_active_def broker_contextError_def)
qed

text \<open>C33: a negatively acknowledged message comes back, and the old delivery is dead for good. After
  \<open>Nack\<close>, the subscription delivers everything that was queued, in order, and then the message itself
  with its delivery counter advanced. After any further broker operations, among them redeliveries of
  the message whose new delivery is in flight, \<open>Ack\<close>, \<open>Nack\<close> and \<open>Progress\<close> through the old delivery
  are refused and change nothing (with the error of a closed broker when it has been closed), as long as
  the message is not delivered so often that its 64-bit counter wraps around.\<close>

theorem nack_redelivers:
  assumes "broker_inv b" "delivery_active b ctx d = Inr s" "md_count d \<noteq> 0" "memory_Nack b ctx d = (None, b')"
    "memq.trace b' es b2"
    "unat (md_count d) + count_list es (QDeliver (md_key d) (tm_ID (md_message d))) < 2 ^ 64"
    "err = (if mb_closed b2 then ErrBrokerClosed else ErrDeliverySettled)"
  shows "(\<exists>ds d' b''. receive_many (Suc (length (ms_queued s))) b' (md_key d) = (ds @ [d'], b'') \<and>
      map (\<lambda>x. tm_ID (md_message x)) ds = ms_queued s \<and>
      tm_ID (md_message d') = tm_ID (md_message d) \<and> md_count d' = md_count d + 1) \<and>
    memory_Ack b2 (Context None) d = (Some err, b2) \<and>
    memory_Nack b2 (Context None) d = (Some err, b2) \<and>
    memory_Progress b2 (Context None) d = Some err"
proof -
  let ?m = "tm_ID (md_message d)" and ?k = "md_key d"
  note a = delivery_active_InrD [OF assms(2)]
  note si = sub_invD [OF broker_invD(4) [OF assms(1) a(1)]]
  have fly: "mhas (ms_inFlight s) ?m" by (simp add: mhas_def a(2) [OF assms(3)])
  have b': "b' = with_subscription b ?k (nack_sub ?m s)"
    using assms(4,2) by (cases rule: memory_Nack_cases) auto
  have op: "\<not> mb_closed b" using assms(2) by (auto simp: delivery_active_def split: option.splits if_splits)
  have get: "mget (mb_subscriptions b') ?k = Some (nack_sub ?m s)" "\<not> mb_closed b'"
    using op by (simp_all add: b' with_subscription_def go_map)
  have n: "ms_queued (nack_sub ?m s) = ms_queued s @ [?m]" "ms_deliveryCount (nack_sub ?m s) = ms_deliveryCount s"
    "mget (ms_inFlight (nack_sub ?m s)) ?m = None"
    using si(2,4,5) [of ?m] fly
    by (simp_all add: nack_sub_def enqueueMemoryMessage_def signalMemorySubscription_def go_map)
  have inv: "broker_inv b'" by (rule broker_step_inv [OF broker_step.nack [OF assms(4,3)] assms(1)])
  define ds where "ds = fst (receive_many (Suc (length (ms_queued s))) b' ?k)"
  have ds: "map (\<lambda>d. (md_key d, tm_ID (md_message d), md_count d)) ds =
      map (\<lambda>m. (?k, m, mget_or 0 (ms_deliveryCount s) m + 1)) (ms_queued s @ [?m])"
    using receive_many_spec [OF inv get(2,1), of "Suc (length (ms_queued s))"] n unfolding ds_def by simp
  have "ds \<noteq> []" using arg_cong [OF ds, of length] by auto
  then obtain ds' d' where split: "ds = ds' @ [d']" by (cases ds rule: rev_cases) simp_all
  have last: "md_count d' = mget_or 0 (ms_deliveryCount s) ?m + 1" using ds by (simp add: split)
  have "map (\<lambda>x. tm_ID (md_message x)) ds = ms_queued s @ [?m]"
    using arg_cong [OF ds, of "map (\<lambda>t. fst (snd t))"] by (simp only: map_map comp_def fst_conv snd_conv map_ident list.map_ident)
  then have ids: "map (\<lambda>x. tm_ID (md_message x)) ds' = ms_queued s" "tm_ID (md_message d') = ?m" by (simp_all add: split)
  have count: "mget_or 0 (ms_deliveryCount s) ?m = md_count d" using si(6) a(2) [OF assms(3)] by (simp add: mget_or_def)
  have c0: "sub_count b' ?k ?m = Some (md_count d + of_nat 0)"
    using si(6) a(2) [OF assms(3)] by (simp add: sub_count_def get n(2))
  have "?m \<notin> inflight_ids b' ?k" using n(3) by (simp add: inflight_ids_def get mhas_def)
  from settled_trace [OF assms(5) inv c0] this obtain n' where n':
    "broker_inv b2" "n' = count_list es (QDeliver ?k ?m)" "sub_count b2 ?k ?m = Some (md_count d + of_nat n')"
    "n' = 0 \<longrightarrow> ?m \<notin> inflight_ids b2 ?k" by auto
  have dead: "delivery_active b2 (Context None) d = Inl err"
    using settled_delivery [OF n'(1,3,4) _ assms(3)] assms(6,7) n'(2) by simp
  have "receive_many (Suc (length (ms_queued s))) b' ?k = (ds' @ [d'], snd (receive_many (Suc (length (ms_queued s))) b' ?k))"
    using split unfolding ds_def by (metis prod.collapse)
  moreover have "memory_Ack b2 (Context None) d = (Some err, b2)" "memory_Nack b2 (Context None) d = (Some err, b2)"
    "memory_Progress b2 (Context None) d = Some err" by (simp_all add: memory_Ack_def memory_Nack_def memory_Progress_def dead)
  ultimately show ?thesis using ids last [unfolded count] by blast
qed

section \<open>Receivers that wait\<close>

text \<open>A call of \<open>Receive\<close> is at the top of its loop, blocked on the subscription's \<open>notify\<close> channel, or
  finished. Channel identity is the subscription's, and subscriptions are never removed.\<close>

datatype receiver = Polling memorySubscriptionKey | Waiting memorySubscriptionKey | Returned "go_error + memoryDelivery"

type_synonym broker_system = "InMemoryBroker \<times> (nat, receiver) gomap"

definition consume_token :: "memorySubscriptionKey \<Rightarrow> InMemoryBroker \<Rightarrow> InMemoryBroker" where
  "consume_token k b = b\<lparr>mb_subscriptions := mmap (\<lambda>k' s. if k' = k then s\<lparr>ms_notify := False\<rparr> else s) (mb_subscriptions b)\<rparr>"

inductive system_step :: "nat option \<Rightarrow> broker_system \<Rightarrow> broker_system \<Rightarrow> bool" where
  enter: "\<lbrakk>\<not> mhas rs p; receive_checks ctx sub = Inr k\<rbrakk> \<Longrightarrow> system_step None (b, rs) (b, mput p (Polling k) rs)"
| enter_fails: "\<lbrakk>\<not> mhas rs p; receive_checks ctx sub = Inl err\<rbrakk> \<Longrightarrow> system_step None (b, rs) (b, mput p (Returned (Inl err)) rs)"
| poll_closed: "\<lbrakk>mget rs p = Some (Polling k); receive_round b k = (ReceiveClosed, b')\<rbrakk>
    \<Longrightarrow> system_step None (b, rs) (b', mput p (Returned (Inl ErrBrokerClosed)) rs)"
| poll_received: "\<lbrakk>mget rs p = Some (Polling k); receive_round b k = (Received d, b')\<rbrakk>
    \<Longrightarrow> system_step None (b, rs) (b', mput p (Returned (Inr d)) rs)"
| poll_waits: "\<lbrakk>mget rs p = Some (Polling k); receive_round b k = (ReceiveWaits, b')\<rbrakk>
    \<Longrightarrow> system_step None (b, rs) (b', mput p (Waiting k) rs)"
| wake: "\<lbrakk>mget rs p = Some (Waiting k); mget (mb_subscriptions b) k = Some s; ms_notify s\<rbrakk>
    \<Longrightarrow> system_step None (b, rs) (consume_token k b, mput p (Polling k) rs)"
| cancel: "mget rs p = Some (Waiting k) \<Longrightarrow> system_step (Some p) (b, rs) (b, mput p (Returned (Inl err)) rs)"
| env_publish: "memory_Publish b ctx msg = (r, b') \<Longrightarrow> system_step None (b, rs) (b', rs)"
| env_ack: "memory_Ack b ctx d = (r, b') \<Longrightarrow> system_step None (b, rs) (b', rs)"
| env_nack: "memory_Nack b ctx d = (r, b') \<Longrightarrow> system_step None (b, rs) (b', rs)"
| env_close: "system_step None (b, rs) (memory_Close b, rs)"

text \<open>Runs in which the context of receiver \<open>p\<close> is not cancelled.\<close>

inductive uncancelled :: "nat \<Rightarrow> broker_system \<Rightarrow> broker_system \<Rightarrow> bool" for p where
  refl: "uncancelled p x x"
| step: "\<lbrakk>uncancelled p x y; system_step c y z; c \<noteq> Some p\<rbrakk> \<Longrightarrow> uncancelled p x z"

definition token :: "InMemoryBroker \<Rightarrow> memorySubscriptionKey \<Rightarrow> bool" where
  "token b k = (case mget (mb_subscriptions b) k of None \<Rightarrow> False | Some s \<Rightarrow> ms_notify s)"

subsection \<open>Who is left behind\<close>

definition stranded :: "nat \<Rightarrow> memorySubscriptionKey \<Rightarrow> broker_system \<Rightarrow> bool" where
  "stranded p k x = (case x of (b, rs) \<Rightarrow> mb_closed b \<and> mget rs p = Some (Waiting k) \<and> \<not> token b k)"

lemma closed_env:
  assumes "mb_closed b"
  shows "memory_Publish b ctx msg = (r, b') \<Longrightarrow> b' = b" "memory_Ack b ctx d = (r', b') \<Longrightarrow> b' = b"
    "memory_Nack b ctx d = (r', b') \<Longrightarrow> b' = b" "memory_Close b = b" "receive_round b k = (q, b') \<Longrightarrow> b' = b"
  using assms
  by (auto simp: memory_Publish_def memory_Ack_def memory_Nack_def memory_Close_def receive_round_def delivery_active_def
      split: option.splits sum.splits)

lemma token_consume: "token (consume_token k b) k' = (k' \<noteq> k \<and> token b k')"
  by (auto simp: token_def consume_token_def go_map split: option.splits)

lemma stranded_step: "\<lbrakk>system_step c x y; stranded p k' x; c \<noteq> Some p\<rbrakk> \<Longrightarrow> stranded p k' y"
proof (induction rule: system_step.induct)
  case (wake rs q k b s)
  then have "mget rs p = Some (Waiting k')" "\<not> token b k'" "mb_closed b" by (auto simp: stranded_def)
  moreover from this have "p \<noteq> q" using wake.hyps by (auto simp: token_def)
  moreover have "mb_closed (consume_token k b) = mb_closed b" by (simp add: consume_token_def)
  ultimately show ?case by (simp add: stranded_def go_map token_consume)
qed (auto simp: stranded_def go_map mhas_def closed_env(4) dest: closed_env)

lemma stranded_forever: "\<lbrakk>uncancelled p x y; stranded p k x\<rbrakk> \<Longrightarrow> stranded p k y"
  by (induction rule: uncancelled.induct) (auto intro: stranded_step)

text \<open>Two receivers that wait on one subscription when the broker is closed.\<close>

definition demo_subscription :: Subscription where
  "demo_subscription = \<lparr>sub_ConsumerID = ''c'', sub_Topic = ''t''\<rparr>"

definition two_waiting :: broker_system where
  "two_waiting = (snd (receive_round NewInMemoryBroker (''c'', ''t'')), [(1, Waiting (''c'', ''t'')), (2, Waiting (''c'', ''t''))])"

definition one_released :: broker_system where
  "one_released = (consume_token (''c'', ''t'') (memory_Close (fst two_waiting)),
     [(1, Returned (Inl ErrBrokerClosed)), (2, Waiting (''c'', ''t''))])"

lemma two_waiting_rounds:
  "receive_round NewInMemoryBroker (''c'', ''t'') = (ReceiveWaits, fst two_waiting)"
  "receive_round (fst two_waiting) (''c'', ''t'') = (ReceiveWaits, fst two_waiting)"
  "receive_round (fst one_released) (''c'', ''t'') = (ReceiveClosed, fst one_released)"
  by (simp_all add: two_waiting_def one_released_def receive_round_def NewInMemoryBroker_def subscriptionLocked_def
      empty_subscription_def mget_or_def Let_def memory_Close_def consume_token_def)

lemma two_waiting_reachable: "uncancelled 2 (NewInMemoryBroker, []) two_waiting"
proof -
  let ?k = "(''c'', ''t'')"
  have c: "receive_checks (Context None) demo_subscription = Inr ?k" by code_simp
  note s = uncancelled.step [where p = 2 and c = None, simplified]
  have 1: "uncancelled 2 (NewInMemoryBroker, []) (NewInMemoryBroker, [(1, Polling ?k)])"
    using s [OF uncancelled.refl system_step.enter [of "[]" 1, OF _ c]] by simp
  have 2: "uncancelled 2 (NewInMemoryBroker, []) (NewInMemoryBroker, [(1, Polling ?k), (2, Polling ?k)])"
    using s [OF 1 system_step.enter [of _ 2, OF _ c]] by (simp add: mhas_def)
  have 3: "uncancelled 2 (NewInMemoryBroker, []) (fst two_waiting, [(1, Waiting ?k), (2, Polling ?k)])"
    using s [OF 2 system_step.poll_waits [of _ 1, OF _ two_waiting_rounds(1)]] by simp
  show ?thesis
    using s [OF 3 system_step.poll_waits [of _ 2, OF _ two_waiting_rounds(2)]] by (simp add: two_waiting_def)
qed

lemma one_released_reachable: "uncancelled 2 two_waiting one_released"
proof -
  let ?k = "(''c'', ''t'')" and ?b = "memory_Close (fst two_waiting)"
  note s = uncancelled.step [where p = 2 and c = None, simplified]
  have 1: "uncancelled 2 two_waiting (?b, snd two_waiting)"
    using s [OF uncancelled.refl, of two_waiting] system_step.env_close [of "fst two_waiting" "snd two_waiting"] by simp
  have "\<exists>x. mget (mb_subscriptions ?b) ?k = Some x \<and> ms_notify x"
    by (simp add: two_waiting_def receive_round_def NewInMemoryBroker_def subscriptionLocked_def
      empty_subscription_def mget_or_def Let_def memory_Close_def signalMemorySubscription_def)
  then obtain x where "mget (mb_subscriptions ?b) ?k = Some x" "ms_notify x" by blast
  from s [OF 1 system_step.wake [of _ 1, OF _ this]]
  have 2: "uncancelled 2 two_waiting (fst one_released, [(1, Polling ?k), (2, Waiting ?k)])"
    by (simp add: two_waiting_def one_released_def)
  show ?thesis
    using s [OF 2 system_step.poll_closed [of _ 1, OF _ two_waiting_rounds(3)]] by (simp add: one_released_def)
qed

text \<open>C34: closing the broker releases only one of the receivers that wait on a subscription. Two receivers
  are blocked, the broker is closed, the first returns; the second stays blocked, whatever happens
  next, unless its own context is cancelled.\<close>

theorem close_strands_receiver:
  "uncancelled 2 (NewInMemoryBroker, []) two_waiting \<and> uncancelled 2 two_waiting one_released \<and>
   (\<forall>b rs. uncancelled 2 one_released (b, rs) \<longrightarrow> mb_closed b \<and> mget rs 2 = Some (Waiting (''c'', ''t'')))"
proof -
  have str: "stranded 2 (''c'', ''t'') one_released"
    by (simp add: stranded_def one_released_def token_consume two_waiting_def) (simp add: consume_token_def memory_Close_def)
  have "mb_closed b \<and> mget rs 2 = Some (Waiting (''c'', ''t''))" if "uncancelled 2 one_released (b, rs)" for b rs
    using stranded_forever [OF that str] by (simp add: stranded_def)
  then show ?thesis using two_waiting_reachable one_released_reachable by blast
qed

subsection \<open>A sole receiver is always woken\<close>

definition sub_awake :: "InMemoryBroker \<Rightarrow> memorySubscriptionKey \<Rightarrow> bool" where
  "sub_awake b k \<longleftrightarrow> (\<exists>s. mget (mb_subscriptions b) k = Some s \<and> (ms_queued s \<noteq> [] \<or> mb_closed b \<longrightarrow> ms_notify s))"

definition sole_waiter :: "(nat, receiver) gomap \<Rightarrow> bool" where
  "sole_waiter rs \<longleftrightarrow> (\<forall>p q k. mget rs p = Some (Waiting k) \<longrightarrow> mget rs q = Some (Waiting k) \<longrightarrow> p = q)"

text \<open>Runs in which no two receivers ever wait on the same subscription.\<close>

inductive sole_run :: "broker_system \<Rightarrow> broker_system \<Rightarrow> bool" where
  refl: "sole_run x x"
| step: "\<lbrakk>sole_run x y; system_step c y z; sole_waiter (snd y)\<rbrakk> \<Longrightarrow> sole_run x z"

lemma enqueue_awake:
  "(ms_queued s \<noteq> [] \<or> closed \<longrightarrow> ms_notify s) \<Longrightarrow>
   (ms_queued (enqueueMemoryMessage s m) \<noteq> [] \<or> closed \<longrightarrow> ms_notify (enqueueMemoryMessage s m))"
  by (simp add: enqueueMemoryMessage_def signalMemorySubscription_def)

lemma sub_awake_with_subscription:
  assumes "sub_awake b k" "mget (mb_subscriptions b) k' = Some s"
    "(ms_queued s \<noteq> [] \<or> mb_closed b \<longrightarrow> ms_notify s) \<Longrightarrow> (ms_queued s' \<noteq> [] \<or> mb_closed b \<longrightarrow> ms_notify s')"
  shows "sub_awake (with_subscription b k' s') k"
  using assms by (cases "k = k'") (auto simp: sub_awake_def with_subscription_def go_map)

lemma publish_awake: "\<lbrakk>memory_Publish b ctx msg = (r, b'); sub_awake b k\<rbrakk> \<Longrightarrow> sub_awake b' k"
proof (erule memory_Publish_cases)
  assume awake: "sub_awake b k" and b': "b' = with_message b msg"
  from awake obtain s where "mget (mb_subscriptions b) k = Some s" "ms_queued s \<noteq> [] \<or> mb_closed b \<longrightarrow> ms_notify s"
    by (auto simp: sub_awake_def)
  then show ?thesis
    using enqueue_awake [of s "mb_closed b" "tm_ID msg"] by (simp add: sub_awake_def b' with_message_def go_map)
qed simp

lemma ack_awake: "\<lbrakk>memory_Ack b ctx d = (r, b'); sub_awake b k\<rbrakk> \<Longrightarrow> sub_awake b' k"
  by (erule memory_Ack_cases) (auto intro: sub_awake_with_subscription dest: delivery_active_InrD(1) simp: ack_sub_def)

lemma nack_awake: "\<lbrakk>memory_Nack b ctx d = (r, b'); sub_awake b k\<rbrakk> \<Longrightarrow> sub_awake b' k"
proof (erule memory_Nack_cases)
  fix s assume awake: "sub_awake b k" and s: "delivery_active b ctx d = Inr s"
    and b': "b' = with_subscription b (md_key d) (nack_sub (tm_ID (md_message d)) s)"
  have "ms_queued (nack_sub m s) \<noteq> [] \<or> mb_closed b \<longrightarrow> ms_notify (nack_sub m s)"
    if "ms_queued s \<noteq> [] \<or> mb_closed b \<longrightarrow> ms_notify s" for m
    unfolding nack_sub_def by (rule enqueue_awake) (use that in simp)
  from sub_awake_with_subscription [OF awake delivery_active_InrD(1) [OF s] this] show ?thesis by (simp add: b')
qed simp

lemma close_awake: "sub_awake b k \<Longrightarrow> sub_awake (memory_Close b) k"
  by (auto simp: sub_awake_def memory_Close_def go_map signalMemorySubscription_def)

lemma locked_awake: "\<lbrakk>subscriptionLocked b k0 = (s, b'); sub_awake b k\<rbrakk> \<Longrightarrow> sub_awake b' k"
  by (cases "k = k0") (auto simp: subscriptionLocked_def sub_awake_def Let_def go_map split: option.splits)

lemma locked_get: "subscriptionLocked b k = (s, b') \<Longrightarrow> mget (mb_subscriptions b') k = Some s \<and> mb_closed b' = mb_closed b"
  by (auto simp: subscriptionLocked_def Let_def go_map split: option.splits)

lemma round_awake: "\<lbrakk>receive_round b k0 = (r, b'); sub_awake b k\<rbrakk> \<Longrightarrow> sub_awake b' k"
proof (erule receive_round_cases)
  fix s b1 m rest
  assume awake: "sub_awake b k" and l: "subscriptionLocked b k0 = (s, b1)" and q: "ms_queued s = m # rest"
    and b': "b' = with_subscription b1 k0 (take_sub m s)"
  show ?thesis unfolding b'
    by (rule sub_awake_with_subscription [OF locked_awake [OF l awake] locked_get [OF l, THEN conjunct1]])
      (use q in \<open>simp add: take_sub_def Let_def\<close>)
qed (auto dest: locked_awake)

lemma round_waits_awake: "receive_round b k = (ReceiveWaits, b') \<Longrightarrow> sub_awake b' k"
  by (erule receive_round_cases) (auto simp: sub_awake_def dest: locked_get)

lemma consume_awake: "\<lbrakk>sub_awake b k; k \<noteq> k0\<rbrakk> \<Longrightarrow> sub_awake (consume_token k0 b) k"
  by (auto simp: sub_awake_def consume_token_def go_map)

lemma awake_step:
  assumes "system_step c x y" "sole_waiter (snd x)" "\<And>p k. mget (snd x) p = Some (Waiting k) \<Longrightarrow> sub_awake (fst x) k"
    "mget (snd y) p = Some (Waiting k)"
  shows "sub_awake (fst y) k"
  using assms
proof (induction rule: system_step.induct)
  case (poll_waits rs q k' b b')
  then show ?case
  proof (cases "p = q")
    case True
    then show ?thesis using poll_waits round_waits_awake by (simp add: go_map)
  next
    case False
    then show ?thesis using poll_waits.prems(2,3) round_awake [OF poll_waits.hyps(2)] by (simp add: go_map)
  qed
next
  case (wake rs q k' b s)
  then have "p \<noteq> q" by (auto simp: go_map)
  then have p: "mget rs p = Some (Waiting k)" using wake.prems(3) by (simp add: go_map)
  then have "k \<noteq> k'" using wake.hyps(1) wake.prems(1) \<open>p \<noteq> q\<close> unfolding sole_waiter_def snd_conv by blast
  then show ?case using consume_awake wake.prems(2) p by simp
qed (cases k, auto simp: go_map split: if_splits intro: publish_awake ack_awake nack_awake close_awake round_awake)+

lemma awake_run:
  "\<lbrakk>sole_run x y; snd x = []; mget (snd y) p = Some (Waiting k)\<rbrakk> \<Longrightarrow> sub_awake (fst y) k"
  by (induction arbitrary: p k rule: sole_run.induct) (auto intro: awake_step)

text \<open>C35: a sole receiver is never left behind. As long as no two receivers wait on the same
  subscription, a waiting receiver whose subscription has a message, or whose broker is closed, can
  always take the wake-up token and look again.\<close>

theorem sole_receiver_woken:
  assumes "sole_run (NewInMemoryBroker, []) (b, rs)" "mget rs p = Some (Waiting k)"
    "mget (mb_subscriptions b) k = Some s" "ms_queued s \<noteq> [] \<or> mb_closed b"
  shows "system_step None (b, rs) (consume_token k b, mput p (Polling k) rs)"
proof -
  have "sub_awake b k" using awake_run [OF assms(1), of p k] assms(2) by simp
  then have "ms_notify s" using assms(3,4) by (auto simp: sub_awake_def)
  with assms(2,3) show ?thesis by (rule system_step.wake)
qed

section \<open>A concrete exchange\<close>

definition demo_message :: TaskMessage where
  "demo_message = \<lparr>tm_ID = ''m'', tm_Topic = ''t'', tm_Body = ''x'', tm_Headers = Some [(''trace'', ''1'')]\<rparr>"

abbreviation demo_key :: memorySubscriptionKey where
  "demo_key \<equiv> (''c'', ''t'')"

definition demo_published :: InMemoryBroker where
  "demo_published = snd (memory_Publish NewInMemoryBroker (Context None) demo_message)"

definition demo_delivery :: memoryDelivery where
  "demo_delivery = \<lparr>md_key = demo_key, md_message = demo_message, md_count = 1\<rparr>"

definition demo_received :: InMemoryBroker where
  "demo_received = snd (receive_round demo_published demo_key)"

definition demo_acked :: InMemoryBroker where
  "demo_acked = snd (memory_Ack demo_received (Context None) demo_delivery)"

definition demo_nacked :: InMemoryBroker where
  "demo_nacked = snd (memory_Nack demo_received (Context None) demo_delivery)"

lemma None_snd: "Option.is_none (fst x) \<Longrightarrow> x = (None, snd x)"
  by (cases x) (simp add: Option.is_none_def)

lemma demo_published: "memory_Publish NewInMemoryBroker (Context None) demo_message = (None, demo_published)"
  unfolding demo_published_def by (rule None_snd) code_simp

lemma demo_received: "receive_round demo_published demo_key = (Received demo_delivery, demo_received)"
proof -
  have "fst (receive_round demo_published demo_key) = Received demo_delivery" by code_simp
  then show ?thesis by (simp add: demo_received_def prod_eq_iff)
qed

lemma demo_acked: "memory_Ack demo_received (Context None) demo_delivery = (None, demo_acked)"
  unfolding demo_acked_def by (rule None_snd) code_simp

lemma demo_nacked: "memory_Nack demo_received (Context None) demo_delivery = (None, demo_nacked)"
  unfolding demo_nacked_def by (rule None_snd) code_simp

lemma demo_delivery_id: "tm_ID (md_message demo_delivery) = ''m''" "md_key demo_delivery = demo_key" "md_count demo_delivery = 1"
  by (simp_all add: demo_delivery_def demo_message_def)

lemma demo_received_trace: "memq.trace NewInMemoryBroker [QPublish ''m'', QDeliver demo_key ''m''] demo_received"
  using broker_step.publish [OF demo_published] broker_step.deliver [OF demo_received]
  by (auto simp: memq.trace_simps demo_delivery_id demo_message_def)

lemma demo_broker_trace: "memq.trace NewInMemoryBroker ([QPublish ''m'', QDeliver demo_key ''m''] @ QAck demo_key ''m'' # []) demo_acked"
  unfolding memq.trace_split using demo_received_trace broker_step.ack [OF demo_acked]
  by (auto simp: memq.trace_simps demo_delivery_id)

theorem message_conservation_witness:
  "\<exists>msg. mget (mb_messages demo_acked) ''m'' = Some msg \<and> tm_ID msg = ''m''"
  using message_conservation [OF demo_broker_trace, of "''m''"] by auto

theorem acknowledged_once_witness: "QDeliver demo_key ''m'' \<in> set [QPublish ''m'', QDeliver demo_key ''m'']"
  using acknowledged_once [OF demo_broker_trace] by blast

theorem publish_idempotent_witness:
  "memory_Publish demo_published (Context None) (demo_message\<lparr>tm_Headers := None\<rparr>) = (None, demo_published)"
proof -
  have "message_Validate (demo_message\<lparr>tm_Headers := None\<rparr>) = Inr ()"
  proof -
    have "\<not> isl (message_Validate (demo_message\<lparr>tm_Headers := None\<rparr>))" by code_simp
    then show ?thesis by (cases "message_Validate (demo_message\<lparr>tm_Headers := None\<rparr>)") simp_all
  qed
  from publish_idempotent [OF demo_published this] show ?thesis by simp
qed

definition demo_redelivery :: memoryDelivery where
  "demo_redelivery = demo_delivery\<lparr>md_count := 2\<rparr>"

definition demo_redelivered :: InMemoryBroker where
  "demo_redelivered = snd (receive_round demo_nacked demo_key)"

lemma demo_redelivered: "receive_round demo_nacked demo_key = (Received demo_redelivery, demo_redelivered)"
proof -
  have "fst (receive_round demo_nacked demo_key) = Received demo_redelivery" by code_simp
  then show ?thesis by (simp add: demo_redelivered_def prod_eq_iff)
qed

theorem nack_redelivers_witness:
  "(\<exists>ds d' b''. receive_many 1 demo_nacked demo_key = (ds @ [d'], b'') \<and> tm_ID (md_message d') = ''m'' \<and> md_count d' = 2) \<and>
   delivery_active demo_redelivered (Context None) demo_redelivery \<noteq> Inl ErrDeliverySettled \<and>
   memory_Ack demo_redelivered (Context None) demo_delivery = (Some ErrDeliverySettled, demo_redelivered) \<and>
   memory_Nack demo_redelivered (Context None) demo_delivery = (Some ErrDeliverySettled, demo_redelivered)"
proof -
  have inv: "broker_inv demo_received" by (rule memq.trace_inv [OF demo_received_trace New_inv])
  have "\<not> isl (delivery_active demo_received (Context None) demo_delivery)" by code_simp
  then obtain s where s: "delivery_active demo_received (Context None) demo_delivery = Inr s"
    by (cases "delivery_active demo_received (Context None) demo_delivery") simp_all
  have "map_sum (\<lambda>_. ()) ms_queued (delivery_active demo_received (Context None) demo_delivery) = Inr []" by code_simp
  then have q: "ms_queued s = []" by (simp add: s)
  have c: "md_count demo_delivery \<noteq> 0" by (simp add: demo_delivery_id)
  have tr: "memq.trace demo_nacked [QDeliver demo_key ''m''] demo_redelivered"
    using broker_step.deliver [OF demo_redelivered]
    by (simp add: memq.trace_simps demo_redelivery_def demo_delivery_id)
  have few: "unat (md_count demo_delivery) +
      count_list [QDeliver demo_key ''m''] (QDeliver (md_key demo_delivery) (tm_ID (md_message demo_delivery))) < 2 ^ 64"
    by (simp add: demo_delivery_id)
  have "\<not> mb_closed demo_redelivered" by code_simp
  then have "ErrDeliverySettled = (if mb_closed demo_redelivered then ErrBrokerClosed else ErrDeliverySettled)" by simp
  note old = nack_redelivers [OF inv s c demo_nacked tr few this]
  have "\<not> isl (delivery_active demo_redelivered (Context None) demo_redelivery)" by code_simp
  then have "delivery_active demo_redelivered (Context None) demo_redelivery \<noteq> Inl ErrDeliverySettled" by auto
  moreover obtain ds d' b''
    where "receive_many 1 demo_nacked demo_key = (ds @ [d'], b'')" "tm_ID (md_message d') = ''m''" "md_count d' = 1 + 1"
    using old unfolding q demo_delivery_id by auto
  then have "\<exists>ds d' b''. receive_many 1 demo_nacked demo_key = (ds @ [d'], b'') \<and> tm_ID (md_message d') = ''m'' \<and> md_count d' = 2"
    by (intro exI conjI) simp_all
  ultimately show ?thesis using old by blast
qed

theorem close_strands_receiver_witness: "mb_closed (fst one_released) \<and> mget (snd one_released) 2 = Some (Waiting demo_key)"
  using close_strands_receiver uncancelled.refl [of 2 one_released] by (metis prod.collapse)

definition demo_waiting :: InMemoryBroker where
  "demo_waiting = snd (receive_round NewInMemoryBroker demo_key)"

definition demo_woken :: InMemoryBroker where
  "demo_woken = snd (memory_Publish demo_waiting (Context None) demo_message)"

lemma demo_sole_run: "sole_run (NewInMemoryBroker, []) (demo_woken, [(1, Waiting demo_key)])"
proof -
  have c: "receive_checks (Context None) demo_subscription = Inr demo_key" by code_simp
  have 1: "sole_run (NewInMemoryBroker, []) (NewInMemoryBroker, [(1, Polling demo_key)])"
    using sole_run.step [OF sole_run.refl system_step.enter [of "[]" 1, OF _ c]] by (simp add: sole_waiter_def)
  have "receive_round NewInMemoryBroker demo_key = (ReceiveWaits, demo_waiting)"
    using two_waiting_rounds(1) by (simp add: demo_waiting_def)
  then have 2: "sole_run (NewInMemoryBroker, []) (demo_waiting, [(1, Waiting demo_key)])"
    using sole_run.step [OF 1 system_step.poll_waits [of _ 1]] by (simp add: sole_waiter_def)
  have "memory_Publish demo_waiting (Context None) demo_message = (fst (memory_Publish demo_waiting (Context None) demo_message), demo_woken)"
    by (simp add: demo_woken_def)
  from sole_run.step [OF 2 system_step.env_publish [OF this]] show ?thesis by (simp add: sole_waiter_def)
qed

theorem sole_receiver_woken_witness:
  "system_step None (demo_woken, [(1, Waiting demo_key)]) (consume_token demo_key demo_woken, [(1, Polling demo_key)])"
proof -
  have "map_option ms_queued (mget (mb_subscriptions demo_woken) demo_key) = Some [''m'']" by code_simp
  then obtain s where "mget (mb_subscriptions demo_woken) demo_key = Some s" "ms_queued s = [''m'']" by auto
  then show ?thesis using sole_receiver_woken [OF demo_sole_run, of 1 demo_key s] by simp
qed

end
