(* ===== verification/FF_Security.thy ===== *)
theory FF_Security
  imports FF_Broker
begin

text \<open>
  Identity, tenancy and rate limiting: \<open>internal/security/model.go\<close>, \<open>auth.go\<close> and \<open>rate_limit.go\<close>. The
  JWT library is a parameter of the authenticator. The limiter's properties are the bound on the
  requests it admits, the promise of \<open>RetryAfter\<close>, and that its periodic sweep is unobservable.
\<close>

section \<open>model.go\<close>

type_synonym UserID = string
type_synonym ProjectID = string
type_synonym AuditEventID = string

datatype Role = RoleMember | RoleOperator | RoleAdmin | RoleOther string

datatype Permission =
    PermissionProjectRead
  | PermissionWorkflowWrite
  | PermissionRunStart
  | PermissionRunRead
  | PermissionTaskRead
  | PermissionRunOperate
  | PermissionProjectManage
  | PermissionAuditRead
  | PermissionOther string

function Allows :: "Role \<Rightarrow> Permission \<Rightarrow> bool" where
  "Allows RoleMember permission \<longleftrightarrow>
     permission = PermissionProjectRead \<or> permission = PermissionWorkflowWrite \<or>
     permission = PermissionRunStart \<or> permission = PermissionRunRead"
| "Allows RoleOperator permission \<longleftrightarrow>
     Allows RoleMember permission \<or> permission = PermissionTaskRead \<or> permission = PermissionRunOperate"
| "Allows RoleAdmin permission \<longleftrightarrow>
     Allows RoleOperator permission \<or> permission = PermissionProjectManage \<or> permission = PermissionAuditRead"
| "Allows (RoleOther text) permission \<longleftrightarrow> False"
  by pat_completeness auto

termination Allows
  by (relation "measure (\<lambda>(role, _). if role = RoleAdmin then 2 else if role = RoleOperator then 1 else 0)") simp_all

text \<open>The text of a role, for the formats that print one.\<close>

fun role_text :: "Role \<Rightarrow> string" where
  "role_text RoleMember = ''member''"
| "role_text RoleOperator = ''operator''"
| "role_text RoleAdmin = ''admin''"
| "role_text (RoleOther s) = s"

definition role_Validate :: "Role \<Rightarrow> go_error + unit" where
  "role_Validate role =
     guardE (role \<noteq> RoleMember \<and> role \<noteq> RoleOperator \<and> role \<noteq> RoleAdmin)
       (Errorf ''invalid project role %q'' [FStr (role_text role)])"

record User =
  us_ID :: UserID
  us_DisplayName :: string
  us_Disabled :: bool
  us_CreatedAt :: Time

record Project =
  pj_ID :: ProjectID
  pj_Name :: string
  pj_CreatedBy :: UserID
  pj_CreatedAt :: Time
  pj_UpdatedAt :: Time

record Membership =
  mem_ProjectID :: ProjectID
  mem_UserID :: UserID
  mem_Role :: Role
  mem_CreatedAt :: Time
  mem_UpdatedAt :: Time

record WorkflowOwnership =
  ow_WorkflowID :: WorkflowID
  ow_ProjectID :: ProjectID
  ow_OwnerUserID :: UserID
  ow_CreatedAt :: Time

record AuditEvent =
  ae_ID :: AuditEventID
  ae_ProjectID :: ProjectID
  ae_ActorUserID :: UserID
  ae_Action :: string
  ae_ResourceType :: string
  ae_ResourceID :: string
  ae_OccurredAt :: Time
  ae_Metadata :: "(string, string) gomap option"

definition security_validIdentifier :: "string \<Rightarrow> bool" where
  "security_validIdentifier value \<longleftrightarrow>
     (if value = '''' \<or> 256 < length value then False
      else list_all (\<lambda>character. \<not> (IsSpace character \<or> IsControl character)) (runes value))"

definition validName :: "string \<Rightarrow> bool" where
  "validName value = (let trimmed = TrimSpace value in trimmed \<noteq> '''' \<and> length trimmed \<le> 200)"

definition user_Validate :: "User \<Rightarrow> go_error + unit" where
  "user_Validate user =
     (if \<not> security_validIdentifier (us_ID user) then Inl (Errorf ''invalid user ID %q'' [FStr (us_ID user)])
      else if \<not> validName (us_DisplayName user) then Inl (Errorf ''invalid display name for user %q'' [FStr (us_ID user)])
      else if IsZero (us_CreatedAt user) then Inl (Errorf ''user %q has no creation timestamp'' [FStr (us_ID user)])
      else Inr ())"

definition project_Validate :: "Project \<Rightarrow> go_error + unit" where
  "project_Validate project =
     (if \<not> security_validIdentifier (pj_ID project) then Inl (Errorf ''invalid project ID %q'' [FStr (pj_ID project)])
      else if \<not> validName (pj_Name project) then Inl (Errorf ''invalid name for project %q'' [FStr (pj_ID project)])
      else if \<not> security_validIdentifier (pj_CreatedBy project)
      then Inl (Errorf ''project %q has invalid creator %q'' [FStr (pj_ID project), FStr (pj_CreatedBy project)])
      else if IsZero (pj_CreatedAt project) \<or> pj_UpdatedAt project < pj_CreatedAt project
      then Inl (Errorf ''project %q has invalid timestamps'' [FStr (pj_ID project)])
      else Inr ())"

definition membership_Validate :: "Membership \<Rightarrow> go_error + unit" where
  "membership_Validate membership =
     (if \<not> security_validIdentifier (mem_ProjectID membership) \<or> \<not> security_validIdentifier (mem_UserID membership)
      then Inl (Errorf ''membership has invalid project or user identity'' [])
      else bindE (role_Validate (mem_Role membership)) (\<lambda>_.
        if IsZero (mem_CreatedAt membership) \<or> mem_UpdatedAt membership < mem_CreatedAt membership
        then Inl (Errorf ''membership for user %q in project %q has invalid timestamps''
                    [FStr (mem_UserID membership), FStr (mem_ProjectID membership)])
        else Inr ()))"

definition ownership_Validate :: "WorkflowOwnership \<Rightarrow> go_error + unit" where
  "ownership_Validate ownership =
     (if \<not> security_validIdentifier (ow_WorkflowID ownership) \<or> \<not> security_validIdentifier (ow_ProjectID ownership) \<or>
         \<not> security_validIdentifier (ow_OwnerUserID ownership)
      then Inl (Errorf ''workflow ownership has an invalid identity'' [])
      else if IsZero (ow_CreatedAt ownership)
      then Inl (Errorf ''workflow %q ownership has no creation timestamp'' [FStr (ow_WorkflowID ownership)])
      else Inr ())"

definition audit_Validate :: "AuditEvent \<Rightarrow> go_error + unit" where
  "audit_Validate event =
     (if \<not> security_validIdentifier (ae_ID event) \<or> \<not> security_validIdentifier (ae_ProjectID event) \<or>
         \<not> security_validIdentifier (ae_ActorUserID event)
      then Inl (Errorf ''audit event has an invalid identity'' [])
      else if \<not> security_validIdentifier (ae_Action event) \<or> \<not> security_validIdentifier (ae_ResourceType event) \<or>
         \<not> security_validIdentifier (ae_ResourceID event)
      then Inl (Errorf ''audit event %q has invalid action or resource'' [FStr (ae_ID event)])
      else if IsZero (ae_OccurredAt event) then Inl (Errorf ''audit event %q has no timestamp'' [FStr (ae_ID event)])
      else if list_ex (\<lambda>(key, value). \<not> security_validIdentifier key \<or> 500 < length value)
           (case ae_Metadata event of None \<Rightarrow> [] | Some metadata \<Rightarrow> metadata)
      then Inl (Errorf ''audit event %q has invalid metadata'' [FStr (ae_ID event)])
      else Inr ())"

section \<open>auth.go\<close>

record Principal =
  pr_UserID :: UserID
  pr_DisplayName :: string

text \<open>What \<open>jwt.Parser.ParseWithClaims\<close> gives back: whether the parsed token is valid, and the two claims the
  code reads.\<close>

record parsed_token =
  pt_Valid :: bool
  pt_Subject :: string
  pt_Name :: string

record jwt_options =
  jo_ValidMethods :: "string list"
  jo_ExpirationRequired :: bool
  jo_Issuer :: string
  jo_Audience :: string
  jo_Leeway :: Duration
  jo_StrictDecoding :: bool
  jo_TimeFunc :: bool

record JWTConfig =
  jc_PublicKeyPEM :: string
  jc_Issuer :: string
  jc_Audience :: string
  jc_Leeway :: Duration
  jc_Now :: bool

record JWTAuthenticator =
  ja_publicKey :: string
  ja_parser :: jwt_options

text \<open>\<open>parseEd\<close> is \<open>jwt.ParseEdPublicKeyFromPEM\<close>: the key and whether it is an Ed25519 public key.\<close>

definition NewJWTAuthenticator :: "(string \<Rightarrow> go_error + bool \<times> string) \<Rightarrow> JWTConfig \<Rightarrow> go_error + JWTAuthenticator" where
  "NewJWTAuthenticator parseEd config =
     (if TrimSpace (jc_PublicKeyPEM config) = '''' then Inl (errors_New ''create JWT authenticator: public key is empty'')
      else if TrimSpace (jc_Issuer config) = '''' \<or> TrimSpace (jc_Audience config) = ''''
      then Inl (errors_New ''create JWT authenticator: issuer and audience are required'')
      else if sint (jc_Leeway config) < 0 then Inl (errors_New ''create JWT authenticator: leeway must not be negative'')
      else case parseEd (jc_PublicKeyPEM config) of
        Inl err \<Rightarrow> Inl (Wrapf ''create JWT authenticator: parse Ed25519 public key: %w'' [] err)
      | Inr (isEd25519, key) \<Rightarrow>
          if \<not> isEd25519 then Inl (errors_New ''create JWT authenticator: public key is not Ed25519'')
          else Inr \<lparr>ja_publicKey = key,
                    ja_parser = \<lparr>jo_ValidMethods = [''EdDSA''], jo_ExpirationRequired = True, jo_Issuer = jc_Issuer config,
                                 jo_Audience = jc_Audience config, jo_Leeway = jc_Leeway config,
                                 jo_StrictDecoding = True, jo_TimeFunc = jc_Now config\<rparr>\<rparr>)"

text \<open>The key function handed to the parser: only EdDSA tokens get the key.\<close>

definition jwt_keyfunc :: "JWTAuthenticator \<Rightarrow> string \<Rightarrow> go_error + string" where
  "jwt_keyfunc authenticator method =
     (if method \<noteq> ''EdDSA'' then Inl ErrUnauthenticated else Inr (ja_publicKey authenticator))"

definition Authenticate ::
  "(jwt_options \<Rightarrow> string \<Rightarrow> (string \<Rightarrow> go_error + string) \<Rightarrow> go_error + parsed_token) \<Rightarrow>
   JWTAuthenticator \<Rightarrow> go_context \<Rightarrow> string \<Rightarrow> go_error + Principal" where
  "Authenticate parseWithClaims authenticator ctx token =
     (if (case ctx of NilContext \<Rightarrow> True | Context err \<Rightarrow> err \<noteq> None) \<or> TrimSpace token = '''' then Inl ErrUnauthenticated
      else case parseWithClaims (ja_parser authenticator) token (jwt_keyfunc authenticator) of
        Inl err \<Rightarrow> Inl ErrUnauthenticated
      | Inr parsed \<Rightarrow>
          if \<not> pt_Valid parsed \<or> \<not> security_validIdentifier (pt_Subject parsed) then Inl ErrUnauthenticated
          else let displayName = TrimSpace (pt_Name parsed);
                   displayName = (if \<not> validName displayName then pt_Subject parsed else displayName)
               in Inr \<lparr>pr_UserID = pt_Subject parsed, pr_DisplayName = displayName\<rparr>)"

section \<open>The rate limiter\<close>

record RateLimitDecision =
  rd_Allowed :: bool
  rd_Limit :: int
  rd_Remaining :: int
  rd_RetryAfter :: Duration
  rd_ResetAt :: Time

record rateWindow =
  rw_startedAt :: Time
  rw_count :: int

record FixedWindowRateLimiter =
  rl_limit :: int
  rl_window :: Duration
  rl_windows :: "(string, rateWindow) gomap"
  rl_calls :: u64

definition NewFixedWindowRateLimiter :: "int \<Rightarrow> Duration \<Rightarrow> go_error + FixedWindowRateLimiter" where
  "NewFixedWindowRateLimiter limit window =
     (if limit < 1 then Inl (Errorf ''rate limit must be at least one'' [])
      else if sint window \<le> 0 then Inl (Errorf ''rate-limit window must be positive'' [])
      else Inr \<lparr>rl_limit = limit, rl_window = window, rl_windows = [], rl_calls = 0\<rparr>)"

definition maxDuration :: "Duration \<Rightarrow> Duration \<Rightarrow> Duration" where
  "maxDuration left right = (if sint right < sint left then left else right)"

text \<open>Has the window that started at \<open>startedAt\<close> ended?\<close>

definition window_over :: "FixedWindowRateLimiter \<Rightarrow> Time \<Rightarrow> rateWindow \<Rightarrow> bool" where
  "window_over limiter now window \<longleftrightarrow> \<not> now < time_add (rw_startedAt window) (rl_window limiter)"

definition rate_Allow :: "FixedWindowRateLimiter \<Rightarrow> Time \<Rightarrow> string \<Rightarrow> RateLimitDecision \<times> FixedWindowRateLimiter" where
  "rate_Allow limiter now key =
     (let limiter = limiter\<lparr>rl_calls := rl_calls limiter + 1\<rparr>;
          limiter = (if rl_calls limiter mod 1024 = 0
                     then limiter\<lparr>rl_windows := filter (\<lambda>(candidate, window). \<not> window_over limiter now window) (rl_windows limiter)\<rparr>
                     else limiter);
          window = (case mget (rl_windows limiter) key of
                      None \<Rightarrow> \<lparr>rw_startedAt = now, rw_count = 0\<rparr>
                    | Some window \<Rightarrow> if window_over limiter now window then \<lparr>rw_startedAt = now, rw_count = 0\<rparr> else window);
          resetAt = time_add (rw_startedAt window) (rl_window limiter)
      in if rl_limit limiter \<le> rw_count window
         then (\<lparr>rd_Allowed = False, rd_Limit = rl_limit limiter, rd_Remaining = 0,
                rd_RetryAfter = maxDuration 0 (time_sub resetAt now), rd_ResetAt = resetAt\<rparr>, limiter)
         else let window = window\<lparr>rw_count := rw_count window + 1\<rparr>
              in (\<lparr>rd_Allowed = True, rd_Limit = rl_limit limiter, rd_Remaining = rl_limit limiter - rw_count window,
                   rd_RetryAfter = 0, rd_ResetAt = resetAt\<rparr>,
                  limiter\<lparr>rl_windows := mput key window (rl_windows limiter)\<rparr>))"

end
