(* ===== verification/FF_RateLimit.thy ===== *)
theory FF_RateLimit
  imports FF_Security
begin

text \<open>
  What the fixed-window limiter guarantees: it behaves like one small counter per key, although it
  sweeps its table now and then, and it never admits more than twice its limit in any period of one
  window length.
\<close>

section \<open>The reference limiter of one key\<close>

text \<open>The state is the start of the current window and the requests admitted in it.\<close>

definition spec_window :: "int \<Rightarrow> Time \<Rightarrow> (Time \<times> int) option \<Rightarrow> Time \<times> int" where
  "spec_window w now st = (case st of None \<Rightarrow> (now, 0) | Some (s, c) \<Rightarrow> if s + w \<le> now then (now, 0) else (s, c))"

definition spec_allow :: "int \<Rightarrow> int \<Rightarrow> Time \<Rightarrow> (Time \<times> int) option \<Rightarrow> bool \<times> (Time \<times> int) option" where
  "spec_allow w l now st = (case spec_window w now st of (s, c) \<Rightarrow> if c < l then (True, Some (s, c + 1)) else (False, st))"

fun spec_run :: "int \<Rightarrow> int \<Rightarrow> (Time \<times> int) option \<Rightarrow> Time list \<Rightarrow> bool list" where
  "spec_run w l st [] = []"
| "spec_run w l st (t # ts) = (case spec_allow w l t st of (ok, st') \<Rightarrow> ok # spec_run w l st' ts)"

text \<open>The decisions of the limiter on a sequence of calls.\<close>

fun run_limiter :: "FixedWindowRateLimiter \<Rightarrow> (Time \<times> string) list \<Rightarrow> RateLimitDecision list" where
  "run_limiter limiter [] = []"
| "run_limiter limiter ((now, key) # calls) = (case rate_Allow limiter now key of (d, limiter') \<Rightarrow> d # run_limiter limiter' calls)"

definition decisions_for :: "string \<Rightarrow> (Time \<times> string) list \<Rightarrow> RateLimitDecision list \<Rightarrow> bool list" where
  "decisions_for key calls ds = map (rd_Allowed \<circ> snd) (filter (\<lambda>c. snd (fst c) = key) (zip calls ds))"

section \<open>Refinement\<close>

definition win :: "rateWindow \<Rightarrow> Time \<times> int" where
  "win r = (rw_startedAt r, rw_count r)"

text \<open>The table agrees with the reference state, or the entry has expired and was swept.\<close>

definition limiter_rel :: "string \<Rightarrow> FixedWindowRateLimiter \<Rightarrow> Time \<Rightarrow> (Time \<times> int) option \<Rightarrow> bool" where
  "limiter_rel key limiter now st \<longleftrightarrow>
     wf_map (rl_windows limiter) \<and>
     (map_option win (mget (rl_windows limiter) key) = st \<or>
      mget (rl_windows limiter) key = None \<and> (\<exists>s c. st = Some (s, c) \<and> s + sint (rl_window limiter) \<le> now))"

definition swept :: "FixedWindowRateLimiter \<Rightarrow> Time \<Rightarrow> FixedWindowRateLimiter" where
  "swept limiter now =
     (let limiter = limiter\<lparr>rl_calls := rl_calls limiter + 1\<rparr>
      in if rl_calls limiter mod 1024 = 0
         then limiter\<lparr>rl_windows := filter (\<lambda>(candidate, window). \<not> window_over limiter now window) (rl_windows limiter)\<rparr>
         else limiter)"

definition current_window :: "FixedWindowRateLimiter \<Rightarrow> Time \<Rightarrow> string \<Rightarrow> rateWindow" where
  "current_window limiter now key = (case mget (rl_windows limiter) key of
       None \<Rightarrow> \<lparr>rw_startedAt = now, rw_count = 0\<rparr>
     | Some window \<Rightarrow> if window_over limiter now window then \<lparr>rw_startedAt = now, rw_count = 0\<rparr> else window)"

lemma rate_Allow_eq:
  "rate_Allow limiter now key =
     (let lim = swept limiter now; window = current_window lim now key; resetAt = time_add (rw_startedAt window) (rl_window lim)
      in if rl_limit lim \<le> rw_count window
         then (\<lparr>rd_Allowed = False, rd_Limit = rl_limit lim, rd_Remaining = 0,
                rd_RetryAfter = maxDuration 0 (time_sub resetAt now), rd_ResetAt = resetAt\<rparr>, lim)
         else (\<lparr>rd_Allowed = True, rd_Limit = rl_limit lim, rd_Remaining = rl_limit lim - (rw_count window + 1),
                rd_RetryAfter = 0, rd_ResetAt = resetAt\<rparr>,
               lim\<lparr>rl_windows := mput key (window\<lparr>rw_count := rw_count window + 1\<rparr>) (rl_windows lim)\<rparr>))"
  by (simp add: rate_Allow_def swept_def current_window_def Let_def)

lemma swept_fields [simp]:
  "rl_limit (swept limiter now) = rl_limit limiter" "rl_window (swept limiter now) = rl_window limiter"
  by (simp_all add: swept_def Let_def)

lemma mget_filter: "wf_map m \<Longrightarrow> mget (filter (\<lambda>(k, v). P v) m) k = (case mget m k of None \<Rightarrow> None | Some v \<Rightarrow> if P v then Some v else None)"
  by (induction m) (auto simp: wf_map_def map_of_eq_None_iff split: option.splits)

lemma wf_filter: "wf_map m \<Longrightarrow> wf_map (filter P m)"
  by (simp add: wf_map_def distinct_map_filter)

lemma limiter_rel_swept: "\<lbrakk>limiter_rel key limiter now st; now \<le> now'\<rbrakk> \<Longrightarrow> limiter_rel key (swept limiter now') now' st"
  by (auto simp: limiter_rel_def swept_def Let_def mget_filter wf_filter window_over_def time_add_def win_def
      split: option.splits)

lemma current_window_rel: "limiter_rel key limiter now st \<Longrightarrow> win (current_window limiter now key) = spec_window (sint (rl_window limiter)) now st"
  by (auto simp: limiter_rel_def current_window_def spec_window_def win_def window_over_def time_add_def split: option.splits)

lemma rate_Allow_rel:
  assumes "limiter_rel key limiter now st" "now \<le> now'" "rate_Allow limiter now' key' = (d, limiter')"
  shows "rl_limit limiter' = rl_limit limiter \<and> rl_window limiter' = rl_window limiter \<and>
    (if key' = key
     then limiter_rel key limiter' now' (snd (spec_allow (sint (rl_window limiter)) (rl_limit limiter) now' st)) \<and>
          rd_Allowed d = fst (spec_allow (sint (rl_window limiter)) (rl_limit limiter) now' st)
     else limiter_rel key limiter' now' st)"
proof -
  note rel = limiter_rel_swept [OF assms(1,2)]
  then have rel': "wf_map (rl_windows (swept limiter now'))" by (simp add: limiter_rel_def)
  show ?thesis
  proof (cases "key' = key")
    case True
    note w = current_window_rel [OF rel]
    show ?thesis
    proof (cases "rl_limit limiter \<le> rw_count (current_window (swept limiter now') now' key)")
      case full: True
      then show ?thesis using assms(3) True w rel
        by (auto simp: rate_Allow_eq Let_def spec_allow_def win_def split: prod.splits)
    next
      case room: False
      then have lim': "limiter' = (swept limiter now')\<lparr>rl_windows := mput key ((current_window (swept limiter now') now' key)
            \<lparr>rw_count := rw_count (current_window (swept limiter now') now' key) + 1\<rparr>) (rl_windows (swept limiter now'))\<rparr>"
        "rd_Allowed d" using assms(3) True by (auto simp: rate_Allow_eq Let_def)
      show ?thesis using room w rel' True unfolding lim'
        by (auto simp: lim'(2) spec_allow_def limiter_rel_def win_def go_map split: prod.splits)
    qed
  next
    case False
    then show ?thesis using assms(3) rel rel'
      by (auto simp: rate_Allow_eq Let_def limiter_rel_def go_map split: if_splits)
  qed
qed

lemma run_limiter_refines:
  "\<lbrakk>limiter_rel key limiter now st; sorted (now # map fst calls)\<rbrakk> \<Longrightarrow>
   decisions_for key calls (run_limiter limiter calls) =
     spec_run (sint (rl_window limiter)) (rl_limit limiter) st (map fst (filter (\<lambda>c. snd c = key) calls))"
proof (induction calls arbitrary: limiter now st)
  case (Cons c calls)
  obtain t k where c: "c = (t, k)" by (cases c)
  obtain d limiter' where a: "rate_Allow limiter t k = (d, limiter')" by (cases "rate_Allow limiter t k")
  note r = rate_Allow_rel [OF Cons.prems(1) _ a]
  have s: "now \<le> t" "sorted (t # map fst calls)" using Cons.prems(2) by (simp_all add: c)
  note r = r [OF s(1)]
  show ?case
  proof (cases "k = key")
    case True
    then have "limiter_rel key limiter' t (snd (spec_allow (sint (rl_window limiter)) (rl_limit limiter) t st))" using r by simp
    from Cons.IH [OF this s(2)] show ?thesis
      using r True a by (simp add: c decisions_for_def case_prod_beta)
  next
    case False
    then have "limiter_rel key limiter' t st" using r by simp
    from Cons.IH [OF this s(2)] show ?thesis using r False by (simp add: c a decisions_for_def)
  qed
qed (simp add: decisions_for_def)

lemma New_limiter_rel: "NewFixedWindowRateLimiter limit window = Inr limiter \<Longrightarrow>
   limiter_rel key limiter now None \<and> rl_limit limiter = limit \<and> rl_window limiter = window \<and> 1 \<le> limit \<and> 0 < sint window"
  by (auto simp: NewFixedWindowRateLimiter_def limiter_rel_def split: if_splits)

text \<open>C36: keys are independent and the periodic sweep of expired windows cannot be observed: on any
  sequence of calls with a clock that does not run backwards, the decisions for each key are those of
  a counter that serves this key alone and never forgets.\<close>

theorem limiter_refines_counter:
  assumes "NewFixedWindowRateLimiter limit window = Inr limiter" "sorted (map fst calls)"
  shows "decisions_for key calls (run_limiter limiter calls) =
    spec_run (sint window) limit None (map fst (filter (\<lambda>c. snd c = key) calls))"
proof (cases calls)
  case (Cons c rest)
  then have "sorted (fst c # map fst calls)" using assms(2) by simp
  from run_limiter_refines [OF New_limiter_rel [OF assms(1), THEN conjunct1] this] show ?thesis
    using New_limiter_rel [OF assms(1)] by simp
qed (simp add: decisions_for_def)

section \<open>The bound\<close>

text \<open>The requests admitted in the period of length \<open>w\<close> that starts at \<open>a\<close>.\<close>

definition admitted_in :: "int \<Rightarrow> Time \<Rightarrow> (Time \<times> bool) list \<Rightarrow> int" where
  "admitted_in w a ds = int (length (filter (\<lambda>(t, ok). ok \<and> a \<le> t \<and> t < a + w) ds))"

lemma admitted_in_simps [simp]:
  "admitted_in w a [] = 0"
  "admitted_in w a ((t, ok) # ds) = (if ok \<and> a \<le> t \<and> t < a + w then 1 else 0) + admitted_in w a ds"
  by (simp_all add: admitted_in_def)

abbreviation spec_admitted :: "int \<Rightarrow> int \<Rightarrow> Time \<Rightarrow> (Time \<times> int) option \<Rightarrow> Time list \<Rightarrow> int" where
  "spec_admitted w l a st ts \<equiv> admitted_in w a (zip ts (spec_run w l st ts))"

text \<open>All of the current window's admissions lie in one period that starts no later than the window.\<close>

lemma admitted_current_window:
  "\<lbrakk>sorted ts; \<forall>t \<in> set ts. s \<le> t; a \<le> s; 0 < w; c \<le> l\<rbrakk> \<Longrightarrow> spec_admitted w l a (Some (s, c)) ts \<le> l - c"
proof (induction ts arbitrary: c)
  case (Cons t ts)
  show ?case
  proof (cases "s + w \<le> t")
    case True
    then have late: "\<not> t' < a + w" if "t' \<in> set (t # ts)" for t' using Cons.prems that by auto
    have "filter (\<lambda>(t, ok). ok \<and> a \<le> t \<and> t < a + w) (zip (t # ts) (spec_run w l (Some (s, c)) (t # ts))) = []"
      unfolding filter_empty_conv by (clarify dest!: set_zip_leftD) (use late in blast)
    then show ?thesis using Cons.prems unfolding admitted_in_def by simp
  next
    case False
    then show ?thesis using Cons.IH [of "c + 1"] Cons.IH [of c] Cons.prems
      by (auto simp: spec_allow_def spec_window_def)
  qed
qed simp

lemma admitted_from:
  "\<lbrakk>sorted ts; \<forall>t \<in> set ts. a \<le> t; s < a; 0 < w; c \<le> l; 1 \<le> l\<rbrakk> \<Longrightarrow> spec_admitted w l a (Some (s, c)) ts \<le> (l - c) + l"
proof (induction ts arbitrary: c)
  case (Cons t ts)
  show ?case
  proof (cases "s + w \<le> t")
    case True
    then have "spec_admitted w l a (Some (s, c)) (t # ts) \<le> 1 + spec_admitted w l a (Some (t, 1)) ts"
      using Cons.prems by (simp add: spec_allow_def spec_window_def)
    moreover have "spec_admitted w l a (Some (t, 1)) ts \<le> l - 1"
      by (rule admitted_current_window) (use Cons.prems in auto)
    ultimately show ?thesis using Cons.prems by simp
  next
    case False
    then show ?thesis using Cons.IH [of "c + 1"] Cons.IH [of c] Cons.prems
      by (auto simp: spec_allow_def spec_window_def)
  qed
qed simp

lemma admitted_any:
  "\<lbrakk>sorted ts; \<And>s c. st = Some (s, c) \<Longrightarrow> 0 \<le> c \<and> c \<le> l \<and> (\<forall>t \<in> set ts. s \<le> t); 0 < w; 1 \<le> l\<rbrakk>
   \<Longrightarrow> spec_admitted w l a st ts \<le> 2 * l"
proof (induction ts arbitrary: st)
  case (Cons t ts)
  obtain ok st' where a: "spec_allow w l t st = (ok, st')" by (cases "spec_allow w l t st")
  have st': "\<And>s c. st' = Some (s, c) \<Longrightarrow> 0 \<le> c \<and> c \<le> l \<and> s \<le> t \<and> (\<forall>t \<in> set ts. s \<le> t)"
    using a Cons.prems by (auto simp: spec_allow_def spec_window_def split: option.splits prod.splits if_splits)
  show ?case
  proof (cases "t < a")
    case True
    then show ?thesis using Cons.IH [of st'] st' Cons.prems by (simp add: a)
  next
    case late: False
    show ?thesis
    proof (cases "\<exists>s c. st = Some (s, c) \<and> s < a")
      case True
      then obtain s c where sc: "st = Some (s, c)" "s < a" by blast
      have "spec_admitted w l a (Some (s, c)) (t # ts) \<le> (l - c) + l"
        by (rule admitted_from) (use late Cons.prems sc in auto)
      then show ?thesis using Cons.prems(2) [OF sc(1)] sc by simp
    next
      case False
      have none: "spec_run w l None (t # ts) = spec_run w l (Some (t, 0)) (t # ts)"
        using Cons.prems(3,4) by (simp add: spec_allow_def spec_window_def)
      have "spec_admitted w l a (Some (s, c)) (t # ts) \<le> l - c" if "a \<le> s" "s \<le> t" "c \<le> l" for s c
        by (rule admitted_current_window) (use late Cons.prems that in auto)
      note b = this
      show ?thesis
      proof (cases st)
        case None
        have "spec_admitted w l a (Some (t, 0)) (t # ts) \<le> l - 0" by (rule b) (use late Cons.prems(4) in auto)
        then show ?thesis unfolding None none using Cons.prems(4) by linarith
      next
        case (Some p)
        obtain s c where p: "p = (s, c)" by (cases p)
        have sc: "0 \<le> c" "c \<le> l" "s \<le> t" "a \<le> s" using Cons.prems(2) [OF Some [unfolded p]] False Some p by auto
        have "spec_admitted w l a (Some (s, c)) (t # ts) \<le> l - c" by (rule b) (use sc in auto)
        then show ?thesis unfolding Some p using sc Cons.prems(4) by linarith
      qed
    qed
  qed
qed simp

lemma decisions_admitted:
  "admitted_in w a (zip (map fst (filter (\<lambda>c. snd c = key) calls)) (decisions_for key calls ds)) =
     int (length (filter (\<lambda>((t, k), d). k = key \<and> rd_Allowed d \<and> a \<le> t \<and> t < a + w) (zip calls ds)))"
  if "length ds = length calls"
  using that
proof (induction calls ds rule: list_induct2')
  case (4 c calls d ds)
  then show ?case by (cases c) (auto simp: decisions_for_def)
qed (simp_all add: decisions_for_def)

lemma length_run_limiter [simp]: "length (run_limiter limiter calls) = length calls"
  by (induction limiter calls rule: run_limiter.induct) (auto split: prod.splits)

text \<open>C37: the limiter's bound. Whatever the calls, in every period of one window length at most twice the
  configured limit is admitted for a key.\<close>

theorem limiter_bound:
  assumes "NewFixedWindowRateLimiter limit window = Inr limiter" "sorted (map fst calls)"
  shows "int (length (filter (\<lambda>((t, k), d). k = key \<and> rd_Allowed d \<and> a \<le> t \<and> t < a + sint window)
           (zip calls (run_limiter limiter calls)))) \<le> 2 * limit"
proof -
  note n = New_limiter_rel [OF assms(1)]
  have refines: "decisions_for key calls (run_limiter limiter calls) =
      spec_run (sint window) limit None (map fst (filter (\<lambda>c. snd c = key) calls))"
  proof (cases calls)
    case (Cons c rest)
    then have "sorted (fst c # map fst calls)" using assms(2) by simp
    from run_limiter_refines [OF n [THEN conjunct1] this] show ?thesis using n by simp
  qed (simp add: decisions_for_def)
  have "sorted (map fst (filter (\<lambda>c. snd c = key) calls))" using assms(2) by (rule sorted_filter)
  from admitted_any [OF this, of None limit "sint window" a] show ?thesis
    using n by (simp flip: decisions_admitted add: refines)
qed

lemma sint_time_sub:
  assumes "u \<le> t" "t - u < 2 ^ 63"
  shows "sint (time_sub t u) = t - u"
proof -
  have word: "sint (word_of_int r :: 64 word) = r" if "0 \<le> r" "r < 2 ^ 63" for r
    using that by (simp add: sint_sbintrunc' signed_take_bit_int_eq_self)
  have "max (- (2 ^ 63)) (min (2 ^ 63 - 1) (t - u)) = t - u" using assms by simp
  then show ?thesis using word [of "t - u"] assms unfolding time_sub_def by (simp only: diff_ge_0_iff_ge)
qed

text \<open>A refusal comes with a promise. The next request for the key at or after the reported reset time
  is admitted, and the reported delay leads exactly to that time.\<close>

theorem reset_admits:
  assumes "rate_Allow limiter now key = (d, limiter')" "\<not> rd_Allowed d" "1 \<le> rl_limit limiter"
    "rd_ResetAt d \<le> later" "rw_startedAt (current_window (swept limiter now) now key) \<le> now" "wf_map (rl_windows limiter)"
  shows "rd_Allowed (fst (rate_Allow limiter' later key)) \<and> now + sint (rd_RetryAfter d) = rd_ResetAt d"
proof -
  let ?w = "current_window (swept limiter now) now key"
  have d: "limiter' = swept limiter now" "rd_ResetAt d = rw_startedAt ?w + sint (rl_window limiter)"
    "rd_RetryAfter d = maxDuration 0 (time_sub (rd_ResetAt d) now)" "rl_limit limiter \<le> rw_count ?w"
    using assms(1,2) by (auto simp: rate_Allow_eq Let_def time_add_def split: if_splits)
  obtain x where x: "mget (rl_windows (swept limiter now)) key = Some x" "?w = x" "\<not> window_over (swept limiter now) now x"
    using d(4) assms(3) by (auto simp: current_window_def split: option.splits if_splits)
  then have pos: "now < rd_ResetAt d" by (simp add: window_over_def time_add_def d(2))
  moreover have "rd_ResetAt d - now < 2 ^ 63"
    using assms(5) sint_lt [of "rl_window limiter"] by (simp add: d(2))
  ultimately have "sint (time_sub (rd_ResetAt d) now) = rd_ResetAt d - now" by (simp add: sint_time_sub)
  then have delay: "now + sint (rd_RetryAfter d) = rd_ResetAt d" using pos by (simp add: d(3) maxDuration_def)
  have wf: "wf_map (rl_windows limiter')" using assms(6) by (auto simp: d(1) swept_def Let_def wf_filter)
  have "mget (rl_windows (swept limiter' later)) key = None \<or>
    (\<exists>y. mget (rl_windows (swept limiter' later)) key = Some y \<and> window_over (swept limiter' later) later y)"
  proof -
    have "window_over lim later x" if "rl_window lim = rl_window limiter" for lim
      using assms(4) x(2) by (simp add: window_over_def that time_add_def d(2))
    then show ?thesis using x(1) wf unfolding d(1)
      by (auto simp: swept_def [of "swept limiter now"] Let_def mget_filter)
  qed
  then have "rw_count (current_window (swept limiter' later) later key) = 0" by (auto simp: current_window_def)
  then show ?thesis using delay assms(3) by (simp add: rate_Allow_eq Let_def d(1))
qed

section \<open>A concrete limiter\<close>

definition demo_limiter :: FixedWindowRateLimiter where
  "demo_limiter = \<lparr>rl_limit = 1, rl_window = 100, rl_windows = [], rl_calls = 1023\<rparr>"

definition demo_calls :: "(Time \<times> string) list" where
  "demo_calls = [(1, ''a''), (2, ''a''), (2, ''b''), (101, ''a'')]"

lemma demo_limiter_new: "NewFixedWindowRateLimiter 1 100 = Inr (demo_limiter\<lparr>rl_calls := 0\<rparr>)"
  by (simp add: NewFixedWindowRateLimiter_def demo_limiter_def)

theorem limiter_refines_counter_witness:
  "decisions_for ''a'' demo_calls (run_limiter (demo_limiter\<lparr>rl_calls := 0\<rparr>) demo_calls) = [True, False, True]"
proof -
  have "sorted (map fst demo_calls)" by (simp add: demo_calls_def)
  from limiter_refines_counter [OF demo_limiter_new this, of "''a''"] show ?thesis
    by (simp add: demo_calls_def spec_allow_def spec_window_def)
qed

theorem limiter_bound_witness:
  "int (length (filter (\<lambda>((t, k), d). k = ''a'' \<and> rd_Allowed d \<and> 1 \<le> t \<and> t < 1 + sint (100 :: Duration))
     (zip demo_calls (run_limiter (demo_limiter\<lparr>rl_calls := 0\<rparr>) demo_calls)))) \<le> 2 * 1"
  by (rule limiter_bound [OF demo_limiter_new]) (simp add: demo_calls_def)

definition demo_full :: FixedWindowRateLimiter where
  "demo_full = demo_limiter\<lparr>rl_windows := [(''a'', \<lparr>rw_startedAt = 1, rw_count = 1\<rparr>)]\<rparr>"

theorem reset_admits_witness:
  "\<not> rd_Allowed (fst (rate_Allow demo_full 2 ''a'')) \<and>
   rd_Allowed (fst (rate_Allow (snd (rate_Allow demo_full 2 ''a'')) 101 ''a''))"
proof -
  have "\<not> rd_Allowed (fst (rate_Allow demo_full 2 ''a''))" "1 \<le> rl_limit demo_full"
    "rd_ResetAt (fst (rate_Allow demo_full 2 ''a'')) \<le> 101"
    "rw_startedAt (current_window (swept demo_full 2) 2 ''a'') \<le> 2" "wf_map (rl_windows demo_full)" by code_simp+
  from reset_admits [OF prod.collapse [symmetric] this] this(1) show ?thesis by blast
qed

end
