(* ===== verification/FF_Topology.thy ===== *)
theory FF_Topology
  imports FF_Workflow
begin

text \<open>
  Correctness of \<open>internal/workflow/graph.go\<close>: which definitions the graph builder accepts, that
  Kahn's loop computes the greedy order, that it covers every task exactly when the dependency
  relation is acyclic, that the order is the lexicographically least topological order, and what
  \<open>RootTasks\<close> and \<open>ReadyTasks\<close> return.
\<close>

section \<open>The graph built from a definition\<close>

lemma fst_task_table [simp]: "map fst (task_table definition) = task_ids definition"
  by (simp add: task_table_def task_ids_def comp_def)

lemma task_at_ID:
  assumes "t \<in> set (task_ids definition)"
  shows "td_ID (task_at definition t) = t" "task_at definition t \<in> set (wd_Tasks definition)"
proof -
  have "t \<in> fst ` set (task_table definition)"
    using assms by (metis fst_task_table set_map)
  then obtain task where "mget (task_table definition) t = Some task"
    by (metis domD dom_map_of_conv_image_fst)
  moreover from map_of_SomeD [OF this] have "task \<in> set (wd_Tasks definition)" "td_ID task = t"
    by (auto simp: task_table_def)
  ultimately show "td_ID (task_at definition t) = t" "task_at definition t \<in> set (wd_Tasks definition)"
    by (simp_all add: task_at_def mget_or_def)
qed

lemma task_at_eq:
  assumes "distinct (task_ids definition)" "task \<in> set (wd_Tasks definition)"
  shows "task_at definition (td_ID task) = task"
proof -
  have "(td_ID task, task) \<in> set (task_table definition)" using assms(2) by (simp add: task_table_def)
  then have "mget (task_table definition) (td_ID task) = Some task"
    using assms(1) by (intro map_of_is_SomeI) (simp_all del: set_map)
  then show ?thesis by (simp add: task_at_def mget_or_def)
qed

lemma fold_mput_zero: "mget_or 0 (fold (\<lambda>t. mput (td_ID t) 0) ts m) t = (0 :: int)"
  if "mget_or 0 m t = 0"
  using that by (induction ts arbitrary: m) (auto simp: mget_or_def go_map)

lemma sortTaskIDs_eq: "sortTaskIDs = sort"
  by (rule ext) (simp add: sortTaskIDs_def)

text \<open>The graph in terms of the definition it was built from.\<close>

definition represents :: "dependencyGraph \<Rightarrow> WorkflowDefinition \<Rightarrow> bool" where
  "represents graph definition \<longleftrightarrow>
     tasks graph = task_table definition \<and>
     taskIDs graph = sort (task_ids definition) \<and>
     (\<forall>t \<in> set (task_ids definition). mget_or 0 (indegree graph) t = int (length (deps_of definition t))) \<and>
     (\<forall>d. mget_or [] (dependents graph) d =
            filter (\<lambda>t. d \<in> set (deps_of definition t)) (sort (task_ids definition)))"

lemma mget_or_mmap_sort: "mget_or [] (mmap (\<lambda>_. sort) m) d = sort (mget_or [] m d)"
  by (simp add: mget_or_def go_map split: option.split)

lemma buildDependencyGraph_represents:
  assumes "buildDependencyGraph definition = Inr graph"
  shows "represents graph definition" "structurally_valid definition"
proof -
  obtain g1 g2 where
    wid: "workflow_validIdentifier (wd_ID definition)" "wd_Tasks definition \<noteq> []" and
    g1: "add_tasks (wd_ID definition) (wd_Tasks definition) empty_graph = Inr g1" and
    g2: "add_all_edges (wd_ID definition) (sort (taskIDs g1)) (g1\<lparr>taskIDs := sort (taskIDs g1)\<rparr>) = Inr g2" and
    g: "graph = g2\<lparr>dependents := mmap (\<lambda>_. sort) (dependents g2)\<rparr>"
    using assms by (auto simp: buildDependencyGraph_def bindE_Inr_iff Let_def sortTaskIDs_eq split: if_splits)
  have ok: "\<forall>t \<in> set (wd_Tasks definition). task_ok t" and dist: "distinct (task_ids definition)"
    and tab: "tasks g1 = task_table definition" and ids: "taskIDs g1 = task_ids definition"
    and ind: "mget_or 0 (indegree g1) t = 0" and dpd: "dependents g1 = []" for t
    using g1 by (auto simp: add_tasks_Inr_iff empty_graph_def task_table_def task_ids_def
        intro!: fold_mput_zero) (simp_all add: mget_or_def)
  let ?g1 = "g1\<lparr>taskIDs := sort (taskIDs g1)\<rparr>"
  have gt: "graph_task (g1\<lparr>taskIDs := l\<rparr>) = task_at definition" for l
    by (rule ext) (simp add: graph_task_def task_at_def tab)
  note e = add_all_edges_graph [OF g2, unfolded ids gt]
  have e': "tasks g2 = task_table definition" "taskIDs g2 = sort (task_ids definition)"
    "mget_or 0 (indegree g2) t = (if t \<in> set (task_ids definition) then int (length (deps_of definition t)) else 0)"
    "mget_or [] (dependents g2) d = filter (\<lambda>t. d \<in> set (deps_of definition t)) (sort (task_ids definition))" for t d
    using e dist task_at_ID(1) tab ids ind dpd
    by (auto simp: deps_of_def mget_or_def [of _ "[]"])
  then show "represents graph definition"
    by (simp add: represents_def g mget_or_mmap_sort sorted_sort_id sorted_filter [where f = id, simplified])
  have "edges_ok (td_ID (graph_task ?g1 t)) {} (set (mkeys (tasks ?g1)))
                     (elems (td_Dependencies (graph_task ?g1 t)))" if "t \<in> set (task_ids definition)" for t
    using add_all_edges_exists [of "wd_ID definition" "sort (taskIDs g1)" ?g1] g2 that ids by auto
  then have "deps_ok (set (task_ids definition)) (task_at definition t)" if "t \<in> set (task_ids definition)" for t
    using that unfolding gt by (simp add: edges_ok_def deps_ok_def tab mkeys_def)
  then have "deps_ok (set (task_ids definition)) task" if "task \<in> set (wd_Tasks definition)" for task
    using that task_at_eq [OF dist that] by (metis imageI set_map task_ids_def)
  then show "structurally_valid definition"
    using wid dist ok by (simp add: structurally_valid_def)
qed

lemma buildDependencyGraph_total:
  assumes "structurally_valid definition"
  obtains graph where "buildDependencyGraph definition = Inr graph"
proof -
  define g1 where "g1 = empty_graph\<lparr>tasks := task_table definition, taskIDs := task_ids definition,
     indegree := fold (\<lambda>t. mput (td_ID t) 0) (wd_Tasks definition) []\<rparr>"
  have g1: "add_tasks (wd_ID definition) (wd_Tasks definition) empty_graph = Inr g1"
    using assms by (auto simp: add_tasks_Inr_iff structurally_valid_def empty_graph_def mhas_def
        task_table_def task_ids_def g1_def)
  have "edges_ok (td_ID (graph_task g t)) {} (set (mkeys (tasks g)))
          (elems (td_Dependencies (graph_task g t)))"
    if "t \<in> set (task_ids definition)" "tasks g = task_table definition" for t g
  proof -
    have "deps_ok (set (task_ids definition)) (task_at definition t)"
      using assms task_at_ID [OF that(1)] by (simp add: structurally_valid_def)
    moreover have "graph_task g t = task_at definition t"
      using that(2) by (simp add: graph_task_def task_at_def)
    ultimately show ?thesis using that(2) by (simp add: deps_ok_def edges_ok_def mkeys_def)
  qed
  then obtain g2 where "add_all_edges (wd_ID definition) (sort (task_ids definition))
      (g1\<lparr>taskIDs := sort (task_ids definition)\<rparr>) = Inr g2"
    using add_all_edges_exists [of "wd_ID definition" "sort (task_ids definition)" "g1\<lparr>taskIDs := sort (task_ids definition)\<rparr>"]
    by (auto simp: g1_def)
  then show thesis
    using that assms g1
    by (auto simp: buildDependencyGraph_def structurally_valid_def sortTaskIDs_def g1_def Let_def)
qed

lemma buildDependencyGraph_iff: "(\<exists>graph. buildDependencyGraph definition = Inr graph) \<longleftrightarrow> structurally_valid definition"
  using buildDependencyGraph_represents(2) buildDependencyGraph_total by blast

section \<open>Greedy orders\<close>

text \<open>The tasks that can be scheduled once \<open>P\<close> is done, and the orders that always take the least of
  them.\<close>

definition available :: "TaskID set \<Rightarrow> (TaskID \<Rightarrow> TaskID set) \<Rightarrow> TaskID set \<Rightarrow> TaskID set" where
  "available V dp P = {t \<in> V. t \<notin> P \<and> dp t \<subseteq> P}"

definition greedy :: "TaskID set \<Rightarrow> (TaskID \<Rightarrow> TaskID set) \<Rightarrow> TaskID list \<Rightarrow> bool" where
  "greedy V dp order \<longleftrightarrow>
     (\<forall>k < length order. order ! k \<in> available V dp (set (take k order)) \<and>
        (\<forall>t \<in> available V dp (set (take k order)). order ! k \<le> t))"

lemma greedy_Nil [simp]: "greedy V dp []"
  by (simp add: greedy_def)

lemma greedy_snoc:
  "greedy V dp (order @ [t]) \<longleftrightarrow>
     greedy V dp order \<and> t \<in> available V dp (set order) \<and> (\<forall>u \<in> available V dp (set order). t \<le> u)"
  by (auto simp: greedy_def less_Suc_eq nth_append)

lemma greedy_subset: "greedy V dp order \<Longrightarrow> set order \<subseteq> V"
  by (induction order rule: rev_induct) (auto simp: greedy_snoc available_def)

lemma greedy_distinct: "greedy V dp order \<Longrightarrow> distinct order"
  by (induction order rule: rev_induct) (auto simp: greedy_snoc available_def)

lemma greedy_closed: "\<lbrakk>greedy V dp order; t \<in> set order\<rbrakk> \<Longrightarrow> dp t \<subseteq> set order"
  by (induction order rule: rev_induct) (auto simp: greedy_snoc available_def)

section \<open>Kahn's loop computes the greedy order\<close>

lemma relax_result:
  "\<lbrakk>relax ds rem ready = (rem', ready'); distinct ds; heap_from 0 (length ready) ready;
    \<forall>t \<in> set ds. mget rem t \<noteq> None\<rbrakk> \<Longrightarrow>
   (\<forall>t. mget rem' t = (if t \<in> set ds then map_option (\<lambda>c. c - 1) (mget rem t) else mget rem t)) \<and>
   mset ready' = mset ready + mset (filter (\<lambda>t. mget rem t = Some 1) ds) \<and>
   heap_from 0 (length ready') ready'"
proof (induction ds rem ready rule: relax.induct)
  case (2 d ds rem ready)
  then obtain c where c: "mget rem d = Some c" by auto
  define ready1 where "ready1 = (if c - 1 = 0 then heap_Push ready d else ready)"
  have r: "relax ds (mput d (c - 1) rem) ready1 = (rem', ready')"
    using "2.prems"(1) c by (simp add: mget_or_def Let_def ready1_def)
  have h: "heap_from 0 (length ready1) ready1"
    using "2.prems"(3) task_heap.invar_push by (auto simp: ready1_def)
  have m: "mset ready1 = mset ready + (if c = 1 then {#d#} else {#})"
    using "2.prems"(3) by (simp add: ready1_def task_heap.elements_push)
  have "filter (\<lambda>t. mget (mput d (c - 1) rem) t = Some 1) ds = filter (\<lambda>t. mget rem t = Some 1) ds"
    using "2.prems"(2) by (intro filter_cong) (auto simp: go_map)
  moreover have "\<forall>t \<in> set ds. mget (mput d (c - 1) rem) t \<noteq> None"
    using "2.prems"(4) by (auto simp: go_map)
  ultimately show ?case
    using "2.IH" [OF refl refl] r h m c "2.prems"(2)
    by (auto simp: mget_or_def ready1_def go_map split: if_splits)
qed simp

definition kahn_inv :: "TaskID set \<Rightarrow> (TaskID \<Rightarrow> TaskID set) \<Rightarrow> (TaskID, int) gomap \<Rightarrow> TaskID list \<Rightarrow> TaskID list \<Rightarrow> bool" where
  "kahn_inv V dp remaining ready order \<longleftrightarrow>
     greedy V dp order \<and> heap_from 0 (length ready) ready \<and>
     mset ready = mset_set (available V dp (set order)) \<and>
     (\<forall>t \<in> V. mget remaining t = Some (int (card (dp t - set order))))"

lemma available_insert:
  assumes "x \<in> available V dp P" "\<And>t. t \<in> V \<Longrightarrow> finite (dp t)" "\<And>t. t \<in> P \<Longrightarrow> dp t \<subseteq> P"
  shows "available V dp (insert x P) =
           (available V dp P - {x}) \<union> {t \<in> V. x \<in> dp t \<and> card (dp t - P) = 1}"
    and "(available V dp P - {x}) \<inter> {t \<in> V. x \<in> dp t \<and> card (dp t - P) = 1} = {}"
proof -
  have x: "x \<notin> P" "dp x \<subseteq> P" using assms(1) by (auto simp: available_def)
  have one: "card (dp t - P) = 1 \<longleftrightarrow> dp t \<subseteq> insert x P" if "t \<in> V" "x \<in> dp t" for t
  proof
    assume "card (dp t - P) = 1"
    then obtain y where y: "dp t - P = {y}" by (auto simp: card_1_singleton_iff)
    moreover have "x \<in> dp t - P" using that x by simp
    ultimately have "dp t - P = {x}" by simp
    then show "dp t \<subseteq> insert x P" by blast
  next
    assume "dp t \<subseteq> insert x P"
    then have "dp t - P = {x}" using that x by auto
    then show "card (dp t - P) = 1" by simp
  qed
  show "available V dp (insert x P) =
           (available V dp P - {x}) \<union> {t \<in> V. x \<in> dp t \<and> card (dp t - P) = 1}"
  proof (rule set_eqI)
    fix t
    have "x \<notin> dp t" if "t \<in> insert x P" using that x assms(3) by auto
    then show "t \<in> available V dp (insert x P) \<longleftrightarrow>
        t \<in> (available V dp P - {x}) \<union> {t \<in> V. x \<in> dp t \<and> card (dp t - P) = 1}"
      using one [of t] by (cases "x \<in> dp t") (auto simp: available_def x(1))
  qed
  show "(available V dp P - {x}) \<inter> {t \<in> V. x \<in> dp t \<and> card (dp t - P) = 1} = {}"
    using x by (auto simp: available_def)
qed

lemma kahn_inv_step:
  assumes inv: "kahn_inv V dp remaining ready order" and ne: "ready \<noteq> []"
    and fin: "finite V" "\<And>t. t \<in> V \<Longrightarrow> finite (dp t)"
    and pop: "heap_Pop ready = (x, ready1)"
    and ds: "distinct ds" "set ds = {t \<in> V. x \<in> dp t}"
    and relax: "relax ds remaining ready1 = (remaining2, ready2)"
  shows "kahn_inv V dp remaining2 ready2 (order @ [x])"
proof -
  let ?P = "set order" and ?A = "available V dp (set order)"
  have finA: "finite ?A" using fin(1) by (simp add: available_def)
  have heap: "heap_from 0 (length ready) ready" and ms: "mset ready = mset_set ?A"
    and gr: "greedy V dp order" and rem: "\<And>t. t \<in> V \<Longrightarrow> mget remaining t = Some (int (card (dp t - ?P)))"
    using inv by (auto simp: kahn_inv_def)
  have neA: "?A \<noteq> {}" using ne ms finA by auto
  note pd = task_heap.pop_distinct [OF heap neA finA ms pop]
  have xA: "x \<in> ?A" using pd(1) neA finA by simp
  have closed: "dp t \<subseteq> ?P" if "t \<in> ?P" for t using greedy_closed [OF gr that] .
  note av = available_insert [OF xA fin(2) closed]
  have rr: "\<And>t. mget remaining2 t = (if t \<in> set ds then map_option (\<lambda>c. c - 1) (mget remaining t) else mget remaining t)"
    "mset ready2 = mset ready1 + mset (filter (\<lambda>t. mget remaining t = Some 1) ds)"
    "heap_from 0 (length ready2) ready2"
    using relax_result [OF relax ds(1) pd(3)] ds(2) rem by auto
  have "set (filter (\<lambda>t. mget remaining t = Some 1) ds) = {t \<in> V. x \<in> dp t \<and> card (dp t - ?P) = 1}"
    using ds(2) rem by auto
  then have "mset (filter (\<lambda>t. mget remaining t = Some 1) ds) = mset_set {t \<in> V. x \<in> dp t \<and> card (dp t - ?P) = 1}"
    using ds(1) by (metis distinct_filter mset_set_set)
  then have "mset ready2 = mset_set (available V dp (set (order @ [x])))"
    using rr(2) pd(2) av finA fin(1) by (simp add: mset_set_Union)
  moreover have "greedy V dp (order @ [x])" using gr pd(1) finA xA by (simp add: greedy_snoc)
  moreover have "mget remaining2 t = Some (int (card (dp t - set (order @ [x]))))" if "t \<in> V" for t
  proof (cases "x \<in> dp t")
    case True
    have "x \<in> dp t - ?P" using True xA by (simp add: available_def)
    then have "int (card (dp t - ?P - {x})) = int (card (dp t - ?P)) - 1"
      using fin(2) [OF that] card_Suc_Diff1 [of "dp t - ?P" x] by simp
    moreover have "dp t - set (order @ [x]) = dp t - ?P - {x}" by auto
    ultimately show ?thesis using rr(1) True that rem ds(2) by simp
  next
    case False
    then have "dp t - set (order @ [x]) = dp t - ?P" by auto
    then show ?thesis using rr(1) False that rem ds(2) by simp
  qed
  ultimately show ?thesis using rr(3) by (simp add: kahn_inv_def)
qed

lemma topo_loop_greedy:
  assumes "finite V" "\<And>t. t \<in> V \<Longrightarrow> finite (dp t)"
    and deps: "\<And>x. distinct (mget_or [] deps x) \<and> set (mget_or [] deps x) = {t \<in> V. x \<in> dp t}"
    and "kahn_inv V dp remaining ready order"
  shows "greedy V dp (topo_loop deps remaining ready order) \<and>
         available V dp (set (topo_loop deps remaining ready order)) = {}"
  using assms(3,4)
proof (induction deps remaining ready order rule: topo_loop.induct)
  case (1 deps remaining ready order)
  show ?case
  proof (cases "ready = []")
    case True
    then have "available V dp (set order) = {}"
      using "1.prems"(2) assms(1) by (simp add: kahn_inv_def available_def mset_set_empty_iff)
    then show ?thesis
      using True "1.prems"(2) by (subst (1 2) topo_loop.simps) (simp add: heap_Len_def kahn_inv_def)
  next
    case False
    obtain x ready1 where pop: "heap_Pop ready = (x, ready1)" by (cases "heap_Pop ready")
    obtain remaining2 ready2 where rl: "relax (mget_or [] deps x) remaining ready1 = (remaining2, ready2)"
      by (cases "relax (mget_or [] deps x) remaining ready1")
    have "topo_loop deps remaining ready order = topo_loop deps remaining2 ready2 (order @ [x])"
      using False by (subst topo_loop.simps) (simp add: heap_Len_def pop rl)
    moreover have "kahn_inv V dp remaining2 ready2 (order @ [x])"
      using "1.prems" assms(1,2) False pop rl by (intro kahn_inv_step [where ds = "mget_or [] deps x"]) auto
    ultimately show ?thesis
      using "1.IH" [OF _ pop [symmetric] rl [symmetric]] "1.prems"(1) False
      by (simp add: heap_Len_def)
  qed
qed

section \<open>Acyclicity\<close>

lemma available_empty_acyclic:
  assumes "finite V" "\<And>t. t \<in> V \<Longrightarrow> dp t \<subseteq> V" "P \<subseteq> V" "available V dp P = {}"
    and "acyclic {(d, t). t \<in> V \<and> d \<in> dp t}"
  shows "P = V"
proof (rule ccontr)
  let ?R = "{(d, t). t \<in> V \<and> d \<in> dp t}"
  assume "P \<noteq> V"
  then obtain t0 where t0: "t0 \<in> V - P" using assms(3) by blast
  have "?R \<subseteq> V \<times> V" using assms(2) by auto
  then have "finite ?R" by (rule finite_subset) (simp add: assms(1))
  then have "wf ?R" using assms(5) by (rule finite_acyclic_wf)
  then obtain t where t: "t \<in> V - P" "\<And>d. (d, t) \<in> ?R \<Longrightarrow> d \<notin> V - P"
    by (rule wfE_min [OF _ t0]) blast
  then have "dp t \<subseteq> P" using assms(2) by auto
  with t show False using assms(4) by (auto simp: available_def)
qed

lemma order_acyclic:
  assumes "\<And>k. k < length order \<Longrightarrow> dp (order ! k) \<subseteq> set (take k order)" "set order = V" "distinct order"
  shows "acyclic {(d, t). t \<in> V \<and> d \<in> dp t}"
proof -
  define pos where "pos t = (THE k. k < length order \<and> order ! k = t)" for t
  have pos: "pos (order ! k) = k" if "k < length order" for k
    unfolding pos_def using that assms(3) by (intro the_equality) (auto simp: nth_eq_iff_index_eq)
  have "{(d, t). t \<in> V \<and> d \<in> dp t} \<subseteq> measure pos"
  proof (clarsimp)
    fix d t assume "t \<in> V" "d \<in> dp t"
    then obtain k where k: "k < length order" "order ! k = t" using assms(2) by (metis in_set_conv_nth)
    then have "d \<in> set (take k order)" using assms(1) [OF k(1)] \<open>d \<in> dp t\<close> by auto
    then obtain i where "i < k" "order ! i = d" using k by (auto simp: in_set_conv_nth)
    then show "pos d < pos t" using pos [of i] pos [of k] k by simp
  qed
  then show ?thesis by (meson acyclic_subset wf_acyclic wf_measure)
qed

section \<open>The topological order\<close>

definition is_topological :: "WorkflowDefinition \<Rightarrow> TaskID list \<Rightarrow> bool" where
  "is_topological definition order \<longleftrightarrow>
     distinct order \<and> set order = set (task_ids definition) \<and>
     (\<forall>k < length order. set (deps_of definition (order ! k)) \<subseteq> set (take k order))"

lemma greedy_least:
  assumes gr: "greedy V dp xs" and "set xs = set ys" "distinct ys" "set ys \<subseteq> V"
    and topo: "\<forall>k < length ys. dp (ys ! k) \<subseteq> set (take k ys)"
  shows "xs \<le> ys"
proof (cases "xs = ys")
  case False
  have "length xs = length ys"
    using assms(2,3) greedy_distinct [OF gr] by (metis distinct_card)
  with False obtain ps a as b bs where ab: "a \<noteq> b" "xs = ps @ [a] @ as" "ys = ps @ [b] @ bs"
    by (rule same_length_different [THEN exE]) blast
  have "dp (ys ! length ps) \<subseteq> set (take (length ps) ys)" using topo ab(3) by (metis length_append
        less_add_same_cancel1 length_greater_0_conv append_is_Nil_conv not_Cons_self2)
  then have "dp b \<subseteq> set ps" using ab(3) by simp
  then have "b \<in> available V dp (set ps)" using assms(3,4) ab(3) by (auto simp: available_def)
  moreover have "\<forall>t \<in> available V dp (set ps). a \<le> t"
    using gr ab(2) by (auto simp: greedy_def dest!: spec [of _ "length ps"])
  ultimately have "a < b" using ab(1) by force
  then have "xs < ys" unfolding list_less_def ab(2,3) by (simp add: lexord_append_leftI)
  then show ?thesis by simp
qed simp

lemma structurally_valid_deps:
  assumes "structurally_valid definition" "t \<in> set (task_ids definition)"
  shows "distinct (deps_of definition t)" "set (deps_of definition t) \<subseteq> set (task_ids definition)"
        "t \<notin> set (deps_of definition t)"
proof -
  have "deps_ok (set (task_ids definition)) (task_at definition t)"
    using assms task_at_ID [OF assms(2)] by (simp add: structurally_valid_def)
  then show "distinct (deps_of definition t)" "set (deps_of definition t) \<subseteq> set (task_ids definition)"
        "t \<notin> set (deps_of definition t)"
    using task_at_ID(1) [OF assms(2)] by (auto simp: deps_ok_def deps_of_def)
qed

lemma dep_rel_eq: "dep_rel definition = {(d, t). t \<in> set (task_ids definition) \<and> d \<in> set (deps_of definition t)}"
  by (simp add: dep_rel_def)

text \<open>What the graph's sort returns: the greedy order, complete exactly when the relation is acyclic.\<close>

lemma graph_topologicalOrder_spec:
  assumes "buildDependencyGraph definition = Inr graph" "graph_topologicalOrder graph = (order, is_acyclic)"
  shows "greedy (set (task_ids definition)) (set \<circ> deps_of definition) order"
    and "is_acyclic \<longleftrightarrow> set order = set (task_ids definition)"
    and "is_acyclic \<longleftrightarrow> acyclic (dep_rel definition)"
proof -
  let ?V = "set (task_ids definition)" and ?dp = "set \<circ> deps_of definition"
  note rep = buildDependencyGraph_represents [OF assms(1)]
  have dist: "distinct (task_ids definition)" using rep(2) by (simp add: structurally_valid_def)
  define rem where "rem = map (\<lambda>t. (t, mget_or 0 (indegree graph) t)) (taskIDs graph)"
  define roots where "roots = filter (\<lambda>t. mget_or 0 (indegree graph) t = 0) (taskIDs graph)"
  have ord: "order = topo_loop (dependents graph) rem (heap_Init roots) []"
    and acy: "is_acyclic \<longleftrightarrow> length order = length (taskIDs graph)"
    using assms(2) by (auto simp: graph_topologicalOrder_def Let_def rem_def roots_def)
  have ind: "mget_or 0 (indegree graph) t = int (card (?dp t))" if "t \<in> ?V" for t
    using rep that structurally_valid_deps(1) [OF rep(2) that] by (simp add: represents_def distinct_card)
  have "set roots = available ?V ?dp {}"
    using rep(1) by (auto simp: roots_def represents_def available_def)
  moreover have "distinct roots" using rep(1) dist by (simp add: roots_def represents_def)
  ultimately have "mset roots = mset_set (available ?V ?dp {})" by (metis mset_set_set)
  moreover have "mget rem t = Some (int (card (?dp t)))" if "t \<in> ?V" for t
    using that rep(1) ind [OF that] dist by (simp add: rem_def represents_def map_of_map_restrict restrict_map_def)
  ultimately have "kahn_inv ?V ?dp rem (heap_Init roots) []"
    using task_heap.invar_init [of roots] task_heap.elements_init [of roots] by (simp add: kahn_inv_def)
  moreover have "distinct (mget_or [] (dependents graph) x) \<and> set (mget_or [] (dependents graph) x) = {t \<in> ?V. x \<in> ?dp t}" for x
    using rep(1) dist by (auto simp: represents_def)
  ultimately have loop: "greedy ?V ?dp order \<and> available ?V ?dp (set order) = {}"
    unfolding ord by (intro topo_loop_greedy) auto
  then show gr: "greedy ?V ?dp order" by simp
  have len: "length (taskIDs graph) = card ?V" "length order = card (set order)"
    using rep(1) dist greedy_distinct [OF gr] by (auto simp: represents_def distinct_card)
  show full: "is_acyclic \<longleftrightarrow> set order = ?V"
  proof
    assume is_acyclic
    then have "card (set order) = card ?V" using acy len by simp
    then show "set order = ?V" by (rule card_subset_eq [OF List.finite_set greedy_subset [OF gr]])
  next
    assume "set order = ?V"
    then have "length order = length (taskIDs graph)" using len by (simp only:)
    then show is_acyclic using acy by (simp only:)
  qed
  show "is_acyclic \<longleftrightarrow> acyclic (dep_rel definition)"
  proof
    assume "is_acyclic"
    then have "set order = ?V" using full by simp
    moreover have "?dp (order ! k) \<subseteq> set (take k order)" if "k < length order" for k
      using gr that by (simp add: greedy_def available_def)
    ultimately have "acyclic {(d, t). t \<in> ?V \<and> d \<in> ?dp t}"
      using greedy_distinct [OF gr] by (intro order_acyclic [where order = order]) simp_all
    then show "acyclic (dep_rel definition)" by (simp add: dep_rel_def)
  next
    assume "acyclic (dep_rel definition)"
    then have acy: "acyclic {(d, t). t \<in> ?V \<and> d \<in> ?dp t}" by (simp add: dep_rel_def)
    have "?dp t \<subseteq> ?V" if "t \<in> ?V" for t
      using structurally_valid_deps(2) [OF rep(2) that] by simp
    from available_empty_acyclic [OF List.finite_set this greedy_subset [OF gr] conjunct2 [OF loop] acy]
    have "set order = ?V" .
    then show is_acyclic using full by simp
  qed
qed

lemma TopologicalOrder_cases:
  "TopologicalOrder definition =
     (case buildDependencyGraph definition of Inl e \<Rightarrow> Inl e
      | Inr graph \<Rightarrow> if acyclic (dep_rel definition) then Inr (fst (graph_topologicalOrder graph))
                     else Inl (validation_error ValidationCycle (wd_ID definition)))"
  by (auto simp: TopologicalOrder_def split: sum.split prod.split dest: graph_topologicalOrder_spec(3))

lemma greedy_is_topological:
  "\<lbrakk>greedy (set (task_ids definition)) (set \<circ> deps_of definition) order; set order = set (task_ids definition)\<rbrakk>
   \<Longrightarrow> is_topological definition order"
  using greedy_distinct by (auto simp: is_topological_def greedy_def available_def)

lemma is_topological_acyclic: "is_topological definition order \<Longrightarrow> acyclic (dep_rel definition)"
  unfolding dep_rel_def is_topological_def
  using order_acyclic [of order "set \<circ> deps_of definition" "set (task_ids definition)"] by simp

lemma TopologicalOrder_InrD:
  assumes "TopologicalOrder definition = Inr order"
  shows "structurally_valid definition" "is_topological definition order"
    and "is_topological definition ys \<Longrightarrow> order \<le> ys"
proof -
  obtain graph where g: "buildDependencyGraph definition = Inr graph"
      "order = fst (graph_topologicalOrder graph)" "acyclic (dep_rel definition)"
    using assms by (auto simp: TopologicalOrder_cases split: sum.splits if_splits)
  show "structurally_valid definition" by (rule buildDependencyGraph_represents(2) [OF g(1)])
  have "graph_topologicalOrder graph = (order, snd (graph_topologicalOrder graph))" using g(2) by simp
  note spec = graph_topologicalOrder_spec [OF g(1) this]
  have gr: "greedy (set (task_ids definition)) (set \<circ> deps_of definition) order"
    and all: "set order = set (task_ids definition)"
    using spec g(3) by simp_all
  then show "is_topological definition order" by (rule greedy_is_topological)
  show "order \<le> ys" if "is_topological definition ys"
    using greedy_least [OF gr, of ys] all that by (simp add: is_topological_def)
qed

lemma TopologicalOrder_total:
  "\<lbrakk>structurally_valid definition; acyclic (dep_rel definition)\<rbrakk> \<Longrightarrow> \<exists>order. TopologicalOrder definition = Inr order"
  using buildDependencyGraph_total by (fastforce simp: TopologicalOrder_cases)

text \<open>C11: a definition that builds has, as its topological order, exactly the lexicographically least
  list that contains every task once with all its dependencies before it.\<close>

theorem TopologicalOrder_correct:
  "TopologicalOrder definition = Inr order \<longleftrightarrow>
     structurally_valid definition \<and> is_topological definition order \<and>
     \<not> (\<exists>ys. is_topological definition ys \<and> ys < order)"
proof
  assume "TopologicalOrder definition = Inr order"
  from TopologicalOrder_InrD [OF this]
  show "structurally_valid definition \<and> is_topological definition order \<and>
     \<not> (\<exists>ys. is_topological definition ys \<and> ys < order)"
    by (auto simp: not_less [symmetric])
next
  assume r: "structurally_valid definition \<and> is_topological definition order \<and>
     \<not> (\<exists>ys. is_topological definition ys \<and> ys < order)"
  then obtain o' where o': "TopologicalOrder definition = Inr o'"
    using TopologicalOrder_total is_topological_acyclic by blast
  have "order \<le> o'" "o' \<le> order"
    using r TopologicalOrder_InrD [OF o'] by (auto simp: not_less)
  then show "TopologicalOrder definition = Inr order" using o' by simp
qed

text \<open>\<open>IsAcyclic\<close> decides acyclicity of the dependency relation, and fails exactly on the
  structurally invalid definitions.\<close>

theorem IsAcyclic_correct:
  "IsAcyclic definition = Inr b \<longleftrightarrow> structurally_valid definition \<and> b = acyclic (dep_rel definition)"
proof (cases "buildDependencyGraph definition")
  case (Inl e)
  then show ?thesis using buildDependencyGraph_total by (fastforce simp: IsAcyclic_def)
next
  case (Inr graph)
  then show ?thesis
    using buildDependencyGraph_represents(2) [OF Inr] graph_topologicalOrder_spec(3) [OF Inr prod.collapse [symmetric]]
    by (auto simp: IsAcyclic_def)
qed

lemma workflow_Validate_iff:
  "workflow_Validate definition = Inr () \<longleftrightarrow> structurally_valid definition \<and> acyclic (dep_rel definition)"
proof
  assume "workflow_Validate definition = Inr ()"
  then obtain order where "TopologicalOrder definition = Inr order"
    by (auto simp: workflow_Validate_def bindE_Inr_iff)
  then show "structurally_valid definition \<and> acyclic (dep_rel definition)"
    using TopologicalOrder_InrD is_topological_acyclic by blast
qed (auto simp: workflow_Validate_def dest!: TopologicalOrder_total)

text \<open>C15: validation accepts a definition exactly when its identifiers, names, retry policies and
  dependency lists are well formed and its dependency relation is acyclic.\<close>

theorem workflow_Validate_correct:
  "workflow_Validate definition = Inr () \<longleftrightarrow>
     workflow_validIdentifier (wd_ID definition) \<and> wd_Tasks definition \<noteq> [] \<and>
     distinct (map td_ID (wd_Tasks definition)) \<and>
     (\<forall>task \<in> set (wd_Tasks definition).
        workflow_validIdentifier (td_ID task) \<and> TrimSpace (td_Name task) \<noteq> '''' \<and>
        invalidRetryPolicyReason (td_Retry task) = '''' \<and>
        distinct (elems (td_Dependencies task)) \<and>
        (\<forall>d \<in> set (elems (td_Dependencies task)).
           workflow_validIdentifier d \<and> d \<noteq> td_ID task \<and> d \<in> td_ID ` set (wd_Tasks definition))) \<and>
     acyclic (dep_rel definition)"
  unfolding workflow_Validate_iff structurally_valid_def task_ok_def deps_ok_def task_ids_def by auto

section \<open>Diagnostics\<close>

text \<open>The defect of the definition that an error code claims.\<close>

fun defect :: "WorkflowDefinition \<Rightarrow> ValidationCode \<Rightarrow> TaskDefinition \<Rightarrow> TaskID \<Rightarrow> bool" where
  "defect definition ValidationInvalidTaskID task d = (\<not> workflow_validIdentifier (td_ID task))"
| "defect definition ValidationInvalidTaskName task d = (TrimSpace (td_Name task) = '''')"
| "defect definition ValidationInvalidRetryPolicy task d = (invalidRetryPolicyReason (td_Retry task) \<noteq> '''')"
| "defect definition ValidationDuplicateTaskID task d = (\<not> distinct (task_ids definition))"
| "defect definition ValidationInvalidDependencyID task d =
     (d \<in> set (elems (td_Dependencies task)) \<and> \<not> workflow_validIdentifier d)"
| "defect definition ValidationSelfDependency task d =
     (d \<in> set (elems (td_Dependencies task)) \<and> d = td_ID task)"
| "defect definition ValidationDuplicateDependency task d =
     (d \<in> set (elems (td_Dependencies task)) \<and> \<not> distinct (elems (td_Dependencies task)))"
| "defect definition ValidationMissingDependency task d =
     (d \<in> set (elems (td_Dependencies task)) \<and> d \<notin> set (task_ids definition))"
| "defect definition _ task d = False"

lemma add_tasks_error:
  "\<lbrakk>add_tasks (wd_ID definition) ts g = Inl e; wd_Tasks definition = pre @ ts; map fst (tasks g) = map td_ID pre\<rbrakk> \<Longrightarrow>
   ve_WorkflowID e = wd_ID definition \<and>
   (\<exists>task \<in> set (wd_Tasks definition). td_ID task = ve_TaskID e \<and> defect definition (ve_Code e) task (ve_DependencyID e))"
proof (induction ts arbitrary: g pre)
  case (Cons task ts)
  have dup: "\<not> distinct (task_ids definition)" if "mhas (tasks g) (td_ID task)"
  proof -
    have "td_ID task \<in> set (map fst (tasks g))" using that by (simp add: mhas_iff)
    then show ?thesis using Cons.prems by (simp add: task_ids_def)
  qed
  let ?g = "g\<lparr>tasks := mput (td_ID task) task (tasks g), taskIDs := taskIDs g @ [td_ID task],
              indegree := mput (td_ID task) 0 (indegree g)\<rparr>"
  have "\<lbrakk>add_tasks (wd_ID definition) ts ?g = Inl e; \<not> mhas (tasks g) (td_ID task)\<rbrakk> \<Longrightarrow> ?case"
    using Cons.IH [of ?g "pre @ [task]"] Cons.prems by (simp add: mput_fresh)
  then show ?case
    using Cons.prems dup by (auto simp: validation_error_def split: if_splits)
qed simp

lemma add_edges_error:
  "\<lbrakk>add_edges wid (td_ID task) seen ds g = Inl e; elems (td_Dependencies task) = pre @ ds; set seen = set pre;
    set (map fst (tasks g)) = set (task_ids definition)\<rbrakk> \<Longrightarrow>
   ve_WorkflowID e = wid \<and> ve_TaskID e = td_ID task \<and> defect definition (ve_Code e) task (ve_DependencyID e)"
proof (induction ds arbitrary: seen g pre)
  case (Cons d ds)
  let ?g = "g\<lparr>indegree := mput (td_ID task) (mget_or 0 (indegree g) (td_ID task) + 1) (indegree g),
              dependents := mput d (mget_or [] (dependents g) d @ [td_ID task]) (dependents g)\<rparr>"
  have "add_edges wid (td_ID task) (d # seen) ds ?g = Inl e \<Longrightarrow> ?case"
    using Cons.IH [of "d # seen" ?g "pre @ [d]"] Cons.prems by simp
  moreover have "mhas (tasks g) d \<longleftrightarrow> d \<in> set (task_ids definition)"
    using Cons.prems(4) by (simp add: mhas_iff)
  ultimately show ?case
    using Cons.prems by (auto simp: validation_error_def split: if_splits)
qed simp

lemma add_all_edges_error:
  "\<lbrakk>add_all_edges wid ids g = Inl e; tasks g = task_table definition; set ids \<subseteq> set (task_ids definition)\<rbrakk> \<Longrightarrow>
   ve_WorkflowID e = wid \<and>
   (\<exists>task \<in> set (wd_Tasks definition). td_ID task = ve_TaskID e \<and> defect definition (ve_Code e) task (ve_DependencyID e))"
proof (induction wid ids g rule: add_all_edges.induct)
  case (2 wid t rest g)
  have gt: "graph_task g t = task_at definition t" using "2.prems" by (simp add: graph_task_def task_at_def)
  have t: "t \<in> set (task_ids definition)" using "2.prems" by simp
  show ?case
  proof (cases "add_edges wid (td_ID (graph_task g t)) [] (elems (td_Dependencies (graph_task g t))) g")
    case (Inl e')
    then have "add_edges wid (td_ID (task_at definition t)) [] (deps_of definition t) g = Inl e"
      using "2.prems"(1) by (simp add: gt deps_of_def)
    moreover have "set (map fst (tasks g)) = set (task_ids definition)"
      using "2.prems"(2) fst_task_table by metis
    ultimately have "ve_WorkflowID e = wid \<and> ve_TaskID e = td_ID (task_at definition t) \<and>
        defect definition (ve_Code e) (task_at definition t) (ve_DependencyID e)"
      by (intro add_edges_error [where pre = "[]" and seen = "[]" and g = g]) (simp_all add: deps_of_def)
    then show ?thesis using task_at_ID [OF t] by metis
  next
    case (Inr g1)
    have "tasks g1 = task_table definition" using add_edges_graph [OF Inr] "2.prems"(2) by simp
    moreover have "add_all_edges wid rest g1 = Inl e" using "2.prems"(1) Inr by simp
    ultimately show ?thesis using "2.IH" [of g1] "2.prems"(3) by simp
  qed
qed simp

lemma buildDependencyGraph_error:
  assumes "buildDependencyGraph definition = Inl e" "workflow_validIdentifier (wd_ID definition)"
    "wd_Tasks definition \<noteq> []"
  shows "ve_WorkflowID e = wd_ID definition \<and>
    (\<exists>task \<in> set (wd_Tasks definition). td_ID task = ve_TaskID e \<and> defect definition (ve_Code e) task (ve_DependencyID e))"
proof (cases "add_tasks (wd_ID definition) (wd_Tasks definition) empty_graph")
  case (Inl e')
  then have "e' = e" using assms by (simp add: buildDependencyGraph_def)
  moreover have "map fst (tasks empty_graph) = map td_ID []" by (simp add: empty_graph_def)
  ultimately show ?thesis using Inl by (intro add_tasks_error [where pre = "[]" and g = empty_graph]) simp_all
next
  case (Inr g1)
  then have "tasks g1 = task_table definition" "taskIDs g1 = task_ids definition"
    by (simp_all add: add_tasks_Inr_iff empty_graph_def task_table_def task_ids_def)
  moreover have "add_all_edges (wd_ID definition) (sort (taskIDs g1)) (g1\<lparr>taskIDs := sort (taskIDs g1)\<rparr>) = Inl e"
    using assms Inr by (simp add: buildDependencyGraph_def bindE_Inl_iff Let_def sortTaskIDs_eq)
  ultimately show ?thesis
    by (intro add_all_edges_error [where ids = "sort (taskIDs g1)" and g = "g1\<lparr>taskIDs := sort (taskIDs g1)\<rparr>"]) auto
qed

text \<open>C16: every rejection is justified. The error names the workflow, and its code is a defect the
  definition really has, at the task and dependency the error names.\<close>

theorem workflow_Validate_error_sound:
  assumes "workflow_Validate definition = Inl e"
  shows "ve_WorkflowID e = wd_ID definition \<and>
    (case ve_Code e of
       ValidationInvalidWorkflowID \<Rightarrow> \<not> workflow_validIdentifier (wd_ID definition)
     | ValidationEmptyWorkflow \<Rightarrow> wd_Tasks definition = []
     | ValidationCycle \<Rightarrow> \<not> acyclic (dep_rel definition)
     | code \<Rightarrow> \<exists>task \<in> set (wd_Tasks definition). td_ID task = ve_TaskID e \<and> defect definition code task (ve_DependencyID e))"
proof -
  have "TopologicalOrder definition = Inl e" using assms by (auto simp: workflow_Validate_def bindE_Inl_iff)
  then consider (build) "buildDependencyGraph definition = Inl e"
    | (cycle) "\<not> acyclic (dep_rel definition)" "e = validation_error ValidationCycle (wd_ID definition)"
    by (auto simp: TopologicalOrder_cases split: sum.splits if_splits)
  then show ?thesis
  proof cases
    case build
    then consider (wid) "\<not> workflow_validIdentifier (wd_ID definition)" "e = validation_error ValidationInvalidWorkflowID (wd_ID definition)"
      | (empty) "wd_Tasks definition = []" "e = validation_error ValidationEmptyWorkflow (wd_ID definition)"
      | (task) "workflow_validIdentifier (wd_ID definition)" "wd_Tasks definition \<noteq> []"
      by (cases "workflow_validIdentifier (wd_ID definition)"; cases "wd_Tasks definition = []")
         (simp_all add: buildDependencyGraph_def)
    then show ?thesis
    proof cases
      case task
      show ?thesis using buildDependencyGraph_error [OF build task] by (cases "ve_Code e") simp_all
    qed (simp_all add: validation_error_def)
  next
    case cycle
    then show ?thesis by (simp add: validation_error_def)
  qed
qed

section \<open>Root and ready tasks\<close>

lemma graph_task_represents: "represents graph definition \<Longrightarrow> graph_task graph = task_at definition"
  by (rule ext) (simp add: represents_def graph_task_def task_at_def)

lemma ReadyTasks_valid:
  assumes "workflow_Validate definition = Inr ()"
  shows "ReadyTasks definition completed =
     (case sort (filter (\<lambda>t. t \<notin> set (task_ids definition)) completed) of
        unknown # _ \<Rightarrow> Inl ((validation_error ValidationUnknownCompletedTask (wd_ID definition))\<lparr>ve_TaskID := unknown\<rparr>)
      | [] \<Rightarrow> Inr (map (task_at definition)
                 (filter (\<lambda>t. t \<notin> set completed \<and> set (deps_of definition t) \<subseteq> set completed) (sort (task_ids definition)))))"
proof -
  have v: "structurally_valid definition" "acyclic (dep_rel definition)"
    using assms by (simp_all add: workflow_Validate_iff)
  obtain graph where g: "buildDependencyGraph definition = Inr graph" using buildDependencyGraph_total [OF v(1)] .
  have rep: "represents graph definition" by (rule buildDependencyGraph_represents(1) [OF g])
  have "snd (graph_topologicalOrder graph)"
    using graph_topologicalOrder_spec(3) [OF g prod.collapse [symmetric]] v(2) by simp
  moreover have "mhas (tasks graph) t \<longleftrightarrow> t \<in> set (task_ids definition)" for t
    using rep fst_task_table [of "definition"] by (metis mhas_iff represents_def set_map)
  moreover have "list_all (\<lambda>d. d \<in> set completed) (deps_of definition t) \<longleftrightarrow> set (deps_of definition t) \<subseteq> set completed" for t
    by (auto simp: list_all_iff)
  ultimately show ?thesis
    using rep by (simp add: ReadyTasks_def g sortTaskIDs_eq graph_task_represents [OF rep] represents_def
        deps_of_def [symmetric] split: list.split)
qed

lemma workflow_Validate_InlE:
  assumes "workflow_Validate definition = Inl e"
  obtains "buildDependencyGraph definition = Inl e"
    | graph where "buildDependencyGraph definition = Inr graph" "\<not> snd (graph_topologicalOrder graph)"
        "e = validation_error ValidationCycle (wd_ID definition)"
  using assms
  by (cases "buildDependencyGraph definition")
     (auto simp: workflow_Validate_def TopologicalOrder_def case_prod_beta split: if_splits)

lemma ReadyTasks_invalid: "workflow_Validate definition = Inl e \<Longrightarrow> ReadyTasks definition completed = Inl e"
  by (erule workflow_Validate_InlE) (simp_all add: ReadyTasks_def)

lemma RootTasks_invalid: "workflow_Validate definition = Inl e \<Longrightarrow> RootTasks definition = Inl e"
  by (erule workflow_Validate_InlE) (simp_all add: RootTasks_def)

text \<open>C17: on a valid definition and a completed set of its own tasks, \<open>ReadyTasks\<close> returns exactly the
  incomplete tasks whose dependencies are all completed, each once and in ascending order of ID.\<close>

theorem ReadyTasks_correct:
  assumes "workflow_Validate definition = Inr ()" "set completed \<subseteq> set (task_ids definition)"
  shows "\<exists>ready. ReadyTasks definition completed = Inr ready \<and>
     set ready = {task \<in> set (wd_Tasks definition). td_ID task \<notin> set completed \<and>
                    set (elems (td_Dependencies task)) \<subseteq> set completed} \<and>
     sorted (map td_ID ready) \<and> distinct (map td_ID ready)"
proof -
  define ids where "ids = filter (\<lambda>t. t \<notin> set completed \<and> set (deps_of definition t) \<subseteq> set completed) (sort (task_ids definition))"
  have v: "structurally_valid definition" using assms(1) by (simp add: workflow_Validate_iff)
  then have dist: "distinct (task_ids definition)" by (simp add: structurally_valid_def)
  have "filter (\<lambda>t. t \<notin> set (task_ids definition)) completed = []" using assms(2) by (auto simp: filter_empty_conv)
  then have res: "ReadyTasks definition completed = Inr (map (task_at definition) ids)"
    by (simp add: ReadyTasks_valid [OF assms(1)] ids_def)
  have ids: "map td_ID (map (task_at definition) ids) = ids"
    using task_at_ID(1) by (auto simp: ids_def intro!: map_idI)
  have "set (map (task_at definition) ids) = {task \<in> set (wd_Tasks definition). td_ID task \<notin> set completed \<and>
                    set (elems (td_Dependencies task)) \<subseteq> set completed}" (is "?L = ?R")
  proof (rule set_eqI, rule iffI)
    fix task assume "task \<in> ?L"
    then show "task \<in> ?R" using task_at_ID by (auto simp: ids_def deps_of_def)
  next
    fix task assume r: "task \<in> ?R"
    then have "task_at definition (td_ID task) = task" using task_at_eq [OF dist] by simp
    moreover have "td_ID task \<in> set ids"
      using r calculation by (auto simp: ids_def deps_of_def task_ids_def)
    ultimately show "task \<in> ?L" by force
  qed
  moreover have "sorted ids" "distinct ids" using dist by (simp_all add: ids_def sorted_filter [where f = id, simplified])
  ultimately show ?thesis using res ids by metis
qed

text \<open>A valid workflow never gets stuck. While some task is incomplete, whichever tasks have completed
  so far, \<open>ReadyTasks\<close> offers at least one task.\<close>

theorem ReadyTasks_progress:
  assumes "workflow_Validate definition = Inr ()" "set completed \<subset> set (task_ids definition)"
  shows "\<exists>ready. ReadyTasks definition completed = Inr ready \<and> ready \<noteq> []"
proof -
  let ?V = "set (task_ids definition)" and ?dp = "set \<circ> deps_of definition"
  have v: "structurally_valid definition" "acyclic {(d, t). t \<in> ?V \<and> d \<in> ?dp t}"
    using assms(1) by (simp_all add: workflow_Validate_iff dep_rel_def)
  have "available ?V ?dp (set completed) \<noteq> {}"
  proof
    assume e: "available ?V ?dp (set completed) = {}"
    have sub: "set completed \<subseteq> ?V" using assms(2) by auto
    have "?dp t \<subseteq> ?V" if "t \<in> ?V" for t using structurally_valid_deps(2) [OF v(1) that] by simp
    from available_empty_acyclic [OF List.finite_set this sub e v(2)] show False using assms(2) by simp
  qed
  then have "filter (\<lambda>t. t \<notin> set completed \<and> set (deps_of definition t) \<subseteq> set completed) (sort (task_ids definition)) \<noteq> []"
    by (auto simp: available_def filter_empty_conv)
  moreover have "filter (\<lambda>t. t \<notin> set (task_ids definition)) completed = []"
    using assms(2) by (auto simp: filter_empty_conv)
  ultimately show ?thesis by (simp add: ReadyTasks_valid [OF assms(1)])
qed

text \<open>C18: \<open>RootTasks\<close> is \<open>ReadyTasks\<close> with nothing completed, on every definition and with the same
  error on the invalid ones.\<close>

theorem RootTasks_eq_ReadyTasks: "RootTasks definition = ReadyTasks definition []"
proof (cases "workflow_Validate definition")
  case (Inl e)
  then show ?thesis by (simp add: ReadyTasks_invalid RootTasks_invalid)
next
  case (Inr u)
  then have v: "structurally_valid definition" "acyclic (dep_rel definition)" by (simp_all add: workflow_Validate_iff)
  obtain graph where g: "buildDependencyGraph definition = Inr graph" using buildDependencyGraph_total [OF v(1)] .
  have rep: "represents graph definition" by (rule buildDependencyGraph_represents(1) [OF g])
  have "snd (graph_topologicalOrder graph)"
    using graph_topologicalOrder_spec(3) [OF g prod.collapse [symmetric]] v(2) by simp
  moreover have "filter (\<lambda>t. mget_or 0 (indegree graph) t = 0) (sort (task_ids definition)) =
      filter (\<lambda>t. deps_of definition t = []) (sort (task_ids definition))"
    using rep by (intro filter_cong) (auto simp: represents_def)
  ultimately show ?thesis
    using Inr rep by (simp add: RootTasks_def g ReadyTasks_valid graph_task_represents [OF rep] represents_def)
qed

section \<open>Retry delays\<close>

text \<open>C19: the 64-bit loop of \<open>RetryDelay\<close> computes the documented exponential backoff without
  overflow: \<open>InitialBackoff * 2^(attempt-1)\<close>, capped by the largest duration and by a positive
  \<open>MaxBackoff\<close>.\<close>

theorem RetryDelay_closed_form:
  "sint (RetryDelay policy c) =
     (if c < 1 \<or> sint (InitialBackoff policy) \<le> 0 then 0
      else let raw = min (sint (InitialBackoff policy) * 2 ^ nat (c - 1)) (2 ^ 63 - 1)
           in if 0 < sint (MaxBackoff policy) then min raw (sint (MaxBackoff policy)) else raw)"
  by (simp only: sint_RetryDelay exp_delay_def)

text \<open>Under a policy that validation accepts, delays are never negative, never shrink from one
  attempt to the next, and never exceed a configured \<open>MaxBackoff\<close>.\<close>

theorem RetryDelay_monotone:
  assumes "invalidRetryPolicyReason policy = ''''" "c \<le> c'"
  shows "0 \<le> sint (RetryDelay policy c) \<and> sint (RetryDelay policy c) \<le> sint (RetryDelay policy c') \<and>
    (sint (MaxBackoff policy) = 0 \<or> sint (RetryDelay policy c') \<le> sint (MaxBackoff policy))"
proof (intro conjI)
  note nn = policy_nonneg [OF assms(1)]
  show "0 \<le> sint (RetryDelay policy c)" by (rule RetryDelay_nonneg [OF assms(1)])
  show "sint (RetryDelay policy c) \<le> sint (RetryDelay policy c')"
    using nn assms exp_delay_nonneg by (simp add: sint_RetryDelay exp_delay_mono)
  show "sint (MaxBackoff policy) = 0 \<or> sint (RetryDelay policy c') \<le> sint (MaxBackoff policy)"
    using nn by (auto simp: sint_RetryDelay exp_delay_def Let_def)
qed

section \<open>A concrete workflow\<close>

text \<open>Three tasks listed out of order: \<open>a\<close>, then \<open>b\<close>, then \<open>c\<close>, which depends on both.\<close>

definition example_retry :: RetryPolicy where
  "example_retry = \<lparr>MaxAttempts = 3, InitialBackoff = 100, MaxBackoff = 250\<rparr>"

definition example_task :: "TaskID \<Rightarrow> TaskID list \<Rightarrow> TaskDefinition" where
  "example_task t deps = \<lparr>td_ID = t, td_Name = ''n'', td_Dependencies = Slice deps, td_Handler = ''echo'',
                          td_Input = '''', td_Retry = example_retry\<rparr>"

definition example_workflow :: WorkflowDefinition where
  "example_workflow = \<lparr>wd_ID = ''w'', wd_Tasks = [example_task ''c'' [''a'', ''b''], example_task ''a'' [],
                         example_task ''b'' [''a'']]\<rparr>"

definition cyclic_workflow :: WorkflowDefinition where
  "cyclic_workflow = \<lparr>wd_ID = ''w'', wd_Tasks = [example_task ''a'' [''b''], example_task ''b'' [''a'']]\<rparr>"

lemma example_workflow_valid: "workflow_Validate example_workflow = Inr ()"
  by code_simp

lemma cyclic_workflow_invalid: "workflow_Validate cyclic_workflow = Inl (validation_error ValidationCycle ''w'')"
  by code_simp

lemma example_retry_valid: "invalidRetryPolicyReason example_retry = ''''"
  by code_simp

lemma example_workflow_ids: "task_ids example_workflow = [''c'', ''a'', ''b'']"
  by code_simp

theorem workflow_Validate_correct_witness:
  "workflow_Validate example_workflow = Inr () \<and> acyclic (dep_rel example_workflow)"
  using workflow_Validate_correct [of example_workflow] example_workflow_valid by simp

theorem workflow_Validate_error_sound_witness:
  "workflow_Validate cyclic_workflow = Inl (validation_error ValidationCycle ''w'') \<and> \<not> acyclic (dep_rel cyclic_workflow)"
  using workflow_Validate_error_sound [OF cyclic_workflow_invalid] cyclic_workflow_invalid
  by (simp add: validation_error_def)

theorem ReadyTasks_correct_witness:
  "\<exists>ready. ReadyTasks example_workflow [''a''] = Inr ready \<and> map td_ID ready = [''b''] \<and> sorted (map td_ID ready)"
proof -
  have "set [''a''] \<subseteq> set (task_ids example_workflow)" by (simp add: example_workflow_ids)
  from ReadyTasks_correct [OF example_workflow_valid this] obtain ready
    where ready: "ReadyTasks example_workflow [''a''] = Inr ready" "sorted (map td_ID ready)" by blast
  have "ReadyTasks example_workflow [''a''] = Inr [example_task ''b'' [''a'']]" by code_simp
  then have "ready = [example_task ''b'' [''a'']]" using ready(1) by simp
  then have "map td_ID ready = [''b'']" by (simp add: example_task_def)
  with ready show ?thesis by (intro exI [of _ ready] conjI)
qed

theorem ReadyTasks_progress_witness:
  "\<exists>ready. ReadyTasks example_workflow [''a'', ''b''] = Inr ready \<and> ready \<noteq> []"
  by (rule ReadyTasks_progress [OF example_workflow_valid]) code_simp

theorem RetryDelay_monotone_witness:
  "sint (RetryDelay example_retry 2) = 200 \<and> sint (RetryDelay example_retry 2) \<le> sint (RetryDelay example_retry 3)"
proof -
  have "sint (RetryDelay example_retry 2) = 200" by code_simp
  then show ?thesis using RetryDelay_monotone [OF example_retry_valid, of 2 3] by simp
qed

end
