(* ===== verification/FF_Reliability.thy ===== *)
theory FF_Reliability
  imports FF_Run FF_Topology
begin

text \<open>
  The run's operations as a labelled step relation, and what holds along every sequence of steps:
  the task state machine, terminal states that never change again, at-most-once completion of each
  attempt, the retry bound, and the invariant behind every persisted snapshot.
\<close>

section \<open>Steps of a run\<close>

text \<open>One constructor per operation the engine applies, with what the operation reports.\<close>

datatype run_event =
    EvReady TaskID
  | EvWorkflow WorkflowRunStatus
  | EvCancel
  | EvHeartbeat WorkerID
  | EvStart TaskID AttemptID WorkerID
  | EvComplete TaskID AttemptID CompletionOutcome
  | EvRecover "LeaseRecovery list"
  | EvPromote "TaskID list"
  | EvPersist u64

text \<open>\<open>transitionTask\<close> is only called by \<open>markNewReady\<close>, on pending tasks.\<close>

inductive run_step :: "WorkflowRun \<Rightarrow> run_event \<Rightarrow> WorkflowRun \<Rightarrow> bool" where
  ready: "\<lbrakk>taskStatus run t = Inr TaskRunPending; transitionTask run now t TaskRunReady '''' None = Inr run'\<rbrakk>
    \<Longrightarrow> run_step run (EvReady t) run'"
| flow: "transitionWorkflow run now s = Inr run' \<Longrightarrow> run_step run (EvWorkflow s) run'"
| cancel: "run_step run EvCancel (cancelUnfinished run now cause)"
| heartbeat: "recordWorkerHeartbeat run now w d = Inr run' \<Longrightarrow> run_step run (EvHeartbeat w) run'"
| start: "startTaskAttempt run now t w d = Inr (a, run') \<Longrightarrow> run_step run (EvStart t a w) run'"
| complete: "completeTaskAttempt run now t tr w a out err = Inr (outcome, run')
    \<Longrightarrow> run_step run (EvComplete t a outcome) run'"
| recover: "recoverExpiredLeases run now = (rs, run') \<Longrightarrow> run_step run (EvRecover rs) run'"
| promote: "promoteDueRetries run now = (ts, run') \<Longrightarrow> run_step run (EvPromote ts) run'"
| persist: "run_step run (EvPersist v) (setPersistedVersion run v)"

inductive_cases run_step_completeE: "run_step run (EvComplete t a outcome) run'"

inductive run_trace :: "WorkflowRun \<Rightarrow> run_event list \<Rightarrow> WorkflowRun \<Rightarrow> bool" where
  trace_nil: "run_trace run [] run"
| trace_snoc: "\<lbrakk>run_trace run es run'; run_step run' e run''\<rbrakk> \<Longrightarrow> run_trace run (es @ [e]) run''"

section \<open>Identities are unambiguous\<close>

lemma length_bytes_of [simp]: "length (bytes_of s) = length s"
  by (simp add: bytes_of_def)

lemma TaskRunIDFor_inj [simp]: "TaskRunIDFor r t = TaskRunIDFor r' t' \<longleftrightarrow> r = r' \<and> t = t'"
proof
  assume "TaskRunIDFor r t = TaskRunIDFor r' t'"
  then have "dec_int (int (length r)) @ CHR '':'' # (r @ '':'' @ t) = dec_int (int (length r')) @ CHR '':'' # (r' @ '':'' @ t')"
    by (simp add: TaskRunIDFor_def)
  from append_Cons_first_unique [OF this dec_int_no_colon dec_int_no_colon]
  have "length r = length r'" "r @ '':'' @ t = r' @ '':'' @ t'" by simp_all
  then show "r = r' \<and> t = t'" by (simp add: append_eq_append_conv)
qed simp

lemma AttemptIDFor_inj [simp]: "AttemptIDFor x n = AttemptIDFor y m \<longleftrightarrow> x = y \<and> n = m"
proof
  assume "AttemptIDFor x n = AttemptIDFor y m"
  then have "(x @ '':attempt'') @ CHR '':'' # dec_int n = (y @ '':attempt'') @ CHR '':'' # dec_int m"
    by (simp add: AttemptIDFor_def)
  from append_Cons_last_unique [OF this dec_int_no_colon dec_int_no_colon]
  show "x = y \<and> n = m" by simp
qed simp

lemma AttemptIDFor_nonempty [simp]: "AttemptIDFor x n \<noteq> ''''" "'''' \<noteq> AttemptIDFor x n"
  by (simp_all add: AttemptIDFor_def)

text \<open>C20: task-run and attempt identities are collision free: different runs, tasks or attempt
  numbers always get different attempt IDs, whatever punctuation the IDs contain.\<close>

theorem AttemptIDFor_collision_free:
  "AttemptIDFor (TaskRunIDFor r t) n = AttemptIDFor (TaskRunIDFor r' t') n' \<longleftrightarrow> r = r' \<and> t = t' \<and> n = n'"
  by simp

section \<open>What a step does to one task\<close>

text \<open>The documented life cycle, with the retry edges of the reliability layer.\<close>

fun lifecycle_edge :: "TaskRunStatus \<Rightarrow> TaskRunStatus \<Rightarrow> bool" where
  "lifecycle_edge TaskRunPending s \<longleftrightarrow> s \<in> {TaskRunReady, TaskRunCanceled}"
| "lifecycle_edge TaskRunReady s \<longleftrightarrow> s \<in> {TaskRunRunning, TaskRunCanceled}"
| "lifecycle_edge TaskRunRunning s \<longleftrightarrow>
     s \<in> {TaskRunSucceeded, TaskRunFailed, TaskRunCanceled, TaskRunReady, TaskRunRetryWaiting}"
| "lifecycle_edge TaskRunRetryWaiting s \<longleftrightarrow> s \<in> {TaskRunReady, TaskRunCanceled}"
| "lifecycle_edge _ s \<longleftrightarrow> False"

definition task_advance :: "TaskRun \<Rightarrow> TaskRun \<Rightarrow> bool" where
  "task_advance t t' \<longleftrightarrow>
     (tr_Status t' = tr_Status t \<or> lifecycle_edge (tr_Status t) (tr_Status t')) \<and>
     (terminal (tr_Status t) \<longrightarrow> t' = t) \<and>
     tr_TaskID t' = tr_TaskID t \<and>
     tr_AttemptCount t' = tr_AttemptCount t +
       (if tr_Status t = TaskRunReady \<and> tr_Status t' = TaskRunRunning then 1 else 0)"

lemma task_advance_refl [simp]: "task_advance t t"
  by (simp add: task_advance_def)

lemma taskStatus_Inr_iff: "taskStatus run t = Inr s \<longleftrightarrow> (\<exists>task. mget (run_tasks run) t = Some task \<and> tr_Status task = s)"
  by (auto simp: taskStatus_def split: option.splits)

lemma transition_task_run_fields [simp]:
  "tr_Status (transition_task_run run ts tid target out err t) = target"
  "tr_TaskID (transition_task_run run ts tid target out err t) = tr_TaskID t"
  "tr_UpdatedAt (transition_task_run run ts tid target out err t) = ts"
  "tr_AttemptCount (transition_task_run run ts tid target out err t) = tr_AttemptCount t + (if target = TaskRunRunning then 1 else 0)"
  by (simp_all add: transition_task_run_def Let_def)

lemma transition_ready:
  "transition_task_run run ts tid TaskRunReady out err t =
     t\<lparr>tr_Status := TaskRunReady, tr_Output := '''', tr_Error := None, tr_UpdatedAt := ts\<rparr>"
  by (simp add: transition_task_run_def terminal_def)

lemma schedule_retry_fields [simp]:
  "tr_TaskID (schedule_retry ts d t) = tr_TaskID t"
  "tr_AttemptCount (schedule_retry ts d t) = tr_AttemptCount t"
  "tr_TaskRunID (schedule_retry ts d t) = tr_TaskRunID t"
  "tr_CurrentAttemptID (schedule_retry ts d t) = tr_CurrentAttemptID t"
  "tr_Lease (schedule_retry ts d t) = tr_Lease t"
  "tr_UpdatedAt (schedule_retry ts d t) = tr_UpdatedAt t"
  "tr_FinishedAt (schedule_retry ts d t) = tr_FinishedAt t"
  "tr_StartedAt (schedule_retry ts d t) = tr_StartedAt t"
  "tr_Status (schedule_retry ts d t) = (if d = 0 then TaskRunReady else TaskRunRetryWaiting)"
  "tr_NextAttemptAt (schedule_retry ts d t) = (if d = 0 then tr_NextAttemptAt t else time_add ts d)"
  by (simp_all add: schedule_retry_def)

lemma startTaskAttempt_InrE:
  assumes "startTaskAttempt run now t w d = Inr (a, run')"
  obtains task where "validIdentifier w" "0 < sint d" "mget (run_tasks run) t = Some task" "tr_Status task = TaskRunReady"
    "a = AttemptIDFor (TaskRunIDFor (run_id run) t) (tr_AttemptCount task + 1)"
    "run' = run\<lparr>run_tasks := mput t (start_task_run run (nextTimestampLocked run now) t w d task) (run_tasks run),
       run_workers := mput w \<lparr>wh_WorkerID = w, wh_LastHeartbeatAt = nextTimestampLocked run now\<rparr> (run_workers run),
       run_updatedAt := nextTimestampLocked run now\<rparr>"
  using assms
  by (auto simp: startTaskAttempt_def start_task_run_def Let_def not_le split: if_splits option.splits)

lemma completeTaskAttempt_InrE:
  assumes "completeTaskAttempt run now t tr w a out err = Inr (outcome, run')"
  obtains (ignored) task where "mget (run_tasks run) t = Some task" "\<not> completion_matches task tr w a"
      "outcome = CompletionIgnored" "run' = run"
    | (accepted) task task' where "mget (run_tasks run) t = Some task" "completion_matches task tr w a"
      "complete_task_run run (nextTimestampLocked run now) t out err task = (outcome, task')"
      "run' = run\<lparr>run_tasks := mput t task' (run_tasks run), run_updatedAt := nextTimestampLocked run now\<rparr>"
proof (cases "mget (run_tasks run) t")
  case None
  then show ?thesis using assms by (simp add: completeTaskAttempt_def)
next
  case (Some task)
  obtain o' task' where c: "complete_task_run run (nextTimestampLocked run now) t out err task = (o', task')" by fastforce
  show ?thesis
  proof (cases "completion_matches task tr w a")
    case True
    then have "o' = outcome"
      "run' = run\<lparr>run_tasks := mput t task' (run_tasks run), run_updatedAt := nextTimestampLocked run now\<rparr>"
      using assms Some c by (simp_all add: completeTaskAttempt_def Let_def)
    then show ?thesis using accepted [OF Some True] c by simp
  next
    case False
    then have "(CompletionIgnored, run) = (outcome, run')" using assms Some by (simp add: completeTaskAttempt_def)
    then show ?thesis by (intro ignored [OF Some False]) simp_all
  qed
qed

lemma start_task_run_fields [simp]:
  "tr_TaskID (start_task_run run ts t w d task) = tr_TaskID task"
  "tr_TaskRunID (start_task_run run ts t w d task) = TaskRunIDFor (run_id run) t"
  "tr_Status (start_task_run run ts t w d task) = TaskRunRunning"
  "tr_AttemptCount (start_task_run run ts t w d task) = tr_AttemptCount task + 1"
  "tr_CurrentAttemptID (start_task_run run ts t w d task) = AttemptIDFor (TaskRunIDFor (run_id run) t) (tr_AttemptCount task + 1)"
  "tr_NextAttemptAt (start_task_run run ts t w d task) = zero_time"
  "tr_UpdatedAt (start_task_run run ts t w d task) = ts"
  "tr_StartedAt (start_task_run run ts t w d task) = ts"
  "tr_FinishedAt (start_task_run run ts t w d task) = zero_time"
  "tr_Lease (start_task_run run ts t w d task) =
     Some \<lparr>tl_WorkerID = w, tl_TaskRunID = TaskRunIDFor (run_id run) t,
           tl_AttemptID = AttemptIDFor (TaskRunIDFor (run_id run) t) (tr_AttemptCount task + 1),
           tl_ExpiresAt = time_add ts d\<rparr>"
  by (simp_all add: start_task_run_def Let_def)

text \<open>The effect of a step on one task: the loop bodies and updates of the operations, at the
  timestamp \<open>ts\<close> the step leaves in \<open>run.updatedAt\<close>.\<close>

inductive task_step :: "WorkflowRun \<Rightarrow> Time \<Rightarrow> TaskID \<Rightarrow> TaskRun \<Rightarrow> TaskRun \<Rightarrow> bool" for run ts k where
  mark_ready: "tr_Status t = TaskRunPending \<Longrightarrow>
    task_step run ts k t (t\<lparr>tr_Status := TaskRunReady, tr_Output := '''', tr_Error := None, tr_UpdatedAt := ts\<rparr>)"
| cancel_task: "cancelable t \<Longrightarrow> task_step run ts k t (cancel_task_run ts cause t)"
| renew: "0 < sint d \<Longrightarrow> task_step run ts k t (renew_task_run ts w d t)"
| start_task: "\<lbrakk>tr_Status t = TaskRunReady; validIdentifier w; 0 < sint d\<rbrakk> \<Longrightarrow>
    task_step run ts k t (start_task_run run ts k w d t)"
| complete_task: "\<lbrakk>completion_matches t tr w a; complete_task_run run ts k out err t = (oc, t')\<rbrakk> \<Longrightarrow> task_step run ts k t t'"
| recover_task: "recover_task_run run ts k t = Some (r, t') \<Longrightarrow> task_step run ts k t t'"
| promote_task: "retry_due ts t \<Longrightarrow> task_step run ts k t (promote_task_run ts t)"

lemma nextTimestamp_ge: "run_updatedAt run \<le> nextTimestampLocked run now" "now \<le> nextTimestampLocked run now"
  by (simp_all add: nextTimestampLocked_def)

lemma recordWorkerHeartbeat_InrE:
  assumes "recordWorkerHeartbeat run now w d = Inr run'"
  obtains "validIdentifier w" "0 < sint d"
    "run' = run\<lparr>run_workers := mput w \<lparr>wh_WorkerID = w, wh_LastHeartbeatAt = nextTimestampLocked run now\<rparr> (run_workers run),
       run_tasks := mmap (\<lambda>_. renew_task_run (nextTimestampLocked run now) w d) (run_tasks run),
       run_updatedAt := nextTimestampLocked run now\<rparr>"
  using assms by (auto simp: recordWorkerHeartbeat_def Let_def not_le split: if_splits)

lemma recover_listed:
  assumes "mget m k = Some t" "f (k, t) = Some r"
  shows "List.map_filter f m \<noteq> []"
  using map_of_SomeD [OF assms(1)] assms(2) by (force simp: List.map_filter_def filter_empty_conv)

lemma run_step_task_step:
  assumes "run_step run e run'" "mget (run_tasks run) k = Some t"
  shows "\<exists>t'. mget (run_tasks run') k = Some t' \<and> (t' = t \<or> task_step run (run_updatedAt run') k t t')"
  using assms(1)
proof (cases rule: run_step.cases)
  case (ready tid now)
  then obtain u where "mget (run_tasks run) tid = Some u" "tr_Status u = TaskRunPending"
    "run' = run\<lparr>run_tasks := mput tid (transition_task_run run (nextTimestampLocked run now) tid TaskRunReady '''' None u) (run_tasks run),
       run_updatedAt := nextTimestampLocked run now\<rparr>"
    by (auto simp: taskStatus_Inr_iff transitionTask_def Let_def)
  then show ?thesis
    using assms(2) task_step.mark_ready [of t run _ k] by (cases "k = tid") (simp_all add: go_map transition_ready)
next
  case (flow now s)
  then show ?thesis using assms(2) by (auto simp: transitionWorkflow_def split: if_splits)
next
  case (cancel now cause)
  show ?thesis
  proof (cases "cancelable t")
    case True
    then have "list_ex cancelable (mvals (run_tasks run))"
      using map_of_SomeD [OF assms(2)] by (force simp: mvals_def list_ex_iff)
    then show ?thesis using cancel assms(2) True task_step.cancel_task
      by (simp add: cancelUnfinished_def Let_def go_map)
  next
    case False
    then show ?thesis using cancel assms(2) by (simp add: cancelUnfinished_def Let_def go_map cancel_task_run_def)
  qed
next
  case (heartbeat now w d)
  from heartbeat(2) show ?thesis
    by (rule recordWorkerHeartbeat_InrE) (use assms(2) task_step.renew in \<open>simp add: go_map\<close>)
next
  case (start now tid w d a)
  from start(2) show ?thesis
  proof (cases rule: startTaskAttempt_InrE)
    case (1 u)
    then show ?thesis using assms(2) task_step.start_task [of t w d run _ k] by (cases "k = tid") (simp_all add: go_map)
  qed
next
  case (complete now tid tr w a out err outcome)
  from complete(2) show ?thesis
  proof (cases rule: completeTaskAttempt_InrE)
    case (ignored u)
    then show ?thesis using assms(2) by simp
  next
    case (accepted u u')
    then show ?thesis using assms(2) task_step.complete_task [OF accepted(2,3)] by (auto simp: go_map)
  qed
next
  case (recover now rs)
  let ?ts = "nextTimestampLocked run now"
  have m: "mget (run_tasks run') k = Some (recovered_task_run run ?ts k t)"
    using recover(2) assms(2) by (auto simp: recoverExpiredLeases_def Let_def go_map)
  show ?thesis
  proof (cases "recover_task_run run ?ts k t")
    case None
    then show ?thesis using m by (simp add: recovered_task_run_def)
  next
    case (Some p)
    then have "List.map_filter (\<lambda>(k, t). map_option fst (recover_task_run run ?ts k t)) (run_tasks run) \<noteq> []"
      by (intro recover_listed [OF assms(2), where r = "fst p"]) simp
    then have "run_updatedAt run' = ?ts" using recover(2) by (auto simp: recoverExpiredLeases_def Let_def)
    moreover obtain r t' where "p = (r, t')" by (cases p)
    ultimately show ?thesis using m Some task_step.recover_task [of run ?ts k t r t'] by (simp add: recovered_task_run_def)
  qed
next
  case (promote now ts)
  let ?ts = "nextTimestampLocked run now"
  have m: "mget (run_tasks run') k = Some (promote_task_run ?ts t)"
    using promote(2) assms(2) by (auto simp: promoteDueRetries_def Let_def go_map)
  show ?thesis
  proof (cases "retry_due ?ts t")
    case True
    then have "filter (\<lambda>(k, t). retry_due ?ts t) (run_tasks run) \<noteq> []"
      using map_of_SomeD [OF assms(2)] by (force simp: filter_empty_conv)
    then have "run_updatedAt run' = ?ts" using promote(2) by (auto simp: promoteDueRetries_def Let_def)
    then show ?thesis using m task_step.promote_task [OF True] by simp
  next
    case False
    then show ?thesis using m by (simp add: promote_task_run_def)
  qed
next
  case (persist v)
  then show ?thesis using assms(2) by (simp add: setPersistedVersion_def)
qed

lemma completion_matches_running: "completion_matches t tr w a \<Longrightarrow> tr_Status t = TaskRunRunning"
  by (simp add: completion_matches_def)

text \<open>The outcome of rescheduling a task under its retry policy.\<close>

definition rescheduled :: "RetryPolicy \<Rightarrow> Time \<Rightarrow> TaskRun \<Rightarrow> TaskRun \<Rightarrow> bool" where
  "rescheduled policy ts t t' \<longleftrightarrow>
     tr_AttemptCount t < EffectiveMaxAttempts policy \<and>
     (tr_Status t' = TaskRunReady \<and> tr_NextAttemptAt t' = zero_time \<or>
      tr_Status t' = TaskRunRetryWaiting \<and> RetryDelay policy (tr_AttemptCount t) \<noteq> 0 \<and>
      tr_NextAttemptAt t' = time_add ts (RetryDelay policy (tr_AttemptCount t)))"

lemma complete_task_run_fields:
  assumes "complete_task_run run ts k out err t = (oc, t')"
  shows "tr_TaskID t' = tr_TaskID t" "tr_TaskRunID t' = tr_TaskRunID t" "tr_AttemptCount t' = tr_AttemptCount t"
    "tr_CurrentAttemptID t' = tr_CurrentAttemptID t" "tr_Lease t' = None" "tr_UpdatedAt t' = ts" "tr_FinishedAt t' = ts"
    "tr_StartedAt t' = tr_StartedAt t" "oc \<noteq> CompletionIgnored"
    "tr_Status t' \<in> {TaskRunSucceeded, TaskRunFailed} \<and> tr_NextAttemptAt t' = zero_time \<or>
     rescheduled (retryPolicyLocked run k) ts t t'"
  using assms by (auto simp: complete_task_run_def rescheduled_def Let_def split: option.splits if_splits)

lemma recover_task_run_fields:
  assumes "recover_task_run run ts k t = Some (r, t')"
  shows "tr_Status t = TaskRunRunning" "tr_TaskID t' = tr_TaskID t" "tr_AttemptCount t' = tr_AttemptCount t"
    "tr_Lease t' = None" "tr_UpdatedAt t' = ts" "tr_FinishedAt t' = ts" "tr_StartedAt t' = tr_StartedAt t"
    "tr_CurrentAttemptID t = '''' \<and> 0 < tr_AttemptCount t \<or>
     tr_TaskRunID t' = tr_TaskRunID t \<and> tr_CurrentAttemptID t' = tr_CurrentAttemptID t"
    "tr_Status t' = TaskRunFailed \<and> tr_NextAttemptAt t' = zero_time \<or>
     rescheduled (retryPolicyLocked run k) ts t t'"
  using assms by (auto simp: recover_task_run_def rescheduled_def Let_def split: if_splits)

lemma renew_task_run_fields [simp]:
  "tr_TaskID (renew_task_run ts w d t) = tr_TaskID t"
  "tr_TaskRunID (renew_task_run ts w d t) = tr_TaskRunID t"
  "tr_Status (renew_task_run ts w d t) = tr_Status t"
  "tr_AttemptCount (renew_task_run ts w d t) = tr_AttemptCount t"
  "tr_CurrentAttemptID (renew_task_run ts w d t) = tr_CurrentAttemptID t"
  "tr_NextAttemptAt (renew_task_run ts w d t) = tr_NextAttemptAt t"
  "tr_StartedAt (renew_task_run ts w d t) = tr_StartedAt t"
  "tr_FinishedAt (renew_task_run ts w d t) = tr_FinishedAt t"
  by (auto simp: renew_task_run_def split: option.split)

lemma renew_task_run_idle: "tr_Status t \<noteq> TaskRunRunning \<Longrightarrow> renew_task_run ts w d t = t"
  by (auto simp: renew_task_run_def split: option.split)

lemma task_step_advance: "task_step run ts k t t' \<Longrightarrow> task_advance t t'"
proof (induction rule: task_step.induct)
  case (renew d t w)
  then show ?case using renew_task_run_idle [of t ts w d] by (auto simp: task_advance_def terminal_def)
next
  case (complete_task t tr w a out err oc t')
  then show ?case
    using complete_task_run_fields [OF complete_task(2)] completion_matches_running [OF complete_task(1)]
    by (auto simp: task_advance_def terminal_def rescheduled_def)
next
  case (recover_task t r t')
  then show ?case using recover_task_run_fields [OF recover_task] by (auto simp: task_advance_def terminal_def rescheduled_def)
qed (auto simp: task_advance_def terminal_def cancelable_def cancel_task_run_def retry_due_def promote_task_run_def)

lemma run_step_task:
  assumes "run_step run e run'" "mget (run_tasks run) k = Some t"
  obtains t' where "mget (run_tasks run') k = Some t'" "task_advance t t'"
  using run_step_task_step [OF assms] task_step_advance that by auto

lemma run_step_id:
  assumes "run_step run e run'"
  shows "run_id run' = run_id run" "run_definition run' = run_definition run" "run_createdAt run' = run_createdAt run"
    "mkeys (run_tasks run') = mkeys (run_tasks run)" "run_updatedAt run \<le> run_updatedAt run'"
  using assms
  by (cases rule: run_step.cases;
      auto simp: transitionTask_def transitionWorkflow_def cancelUnfinished_def recordWorkerHeartbeat_def
        startTaskAttempt_def completeTaskAttempt_def recoverExpiredLeases_def promoteDueRetries_def
        setPersistedVersion_def nextTimestampLocked_def Let_def mhas_def mkeys_mput_existing
        split: option.splits if_splits prod.splits)+

text \<open>C21: every operation moves a task along the documented life cycle only: pending, ready, running,
  then succeeded, failed, back to ready, or waiting for a retry; any unfinished task may be canceled.
  The attempt counter grows by one exactly when a ready task starts running.\<close>

theorem run_step_lifecycle:
  assumes "run_step run e run'" "mget (run_tasks run) k = Some t"
  shows "\<exists>t'. mget (run_tasks run') k = Some t' \<and>
    (tr_Status t' = tr_Status t \<or> lifecycle_edge (tr_Status t) (tr_Status t')) \<and>
    tr_AttemptCount t' = tr_AttemptCount t + (if tr_Status t = TaskRunReady \<and> tr_Status t' = TaskRunRunning then 1 else 0)"
proof -
  obtain t' where "mget (run_tasks run') k = Some t'" "task_advance t t'"
    using run_step_task [OF assms] .
  then show ?thesis unfolding task_advance_def by auto
qed

lemma run_trace_terminal:
  "\<lbrakk>run_trace run es run'; mget (run_tasks run) k = Some t; terminal (tr_Status t)\<rbrakk> \<Longrightarrow> mget (run_tasks run') k = Some t"
proof (induction rule: run_trace.induct)
  case (trace_snoc run es run' e run'')
  then have "mget (run_tasks run') k = Some t" by simp
  then show ?case
    using run_step_task [OF trace_snoc.hyps(2)] trace_snoc.prems(2) unfolding task_advance_def by metis
qed

text \<open>C22: a finished task is final. Whatever happens afterwards, in any order, its record (output,
  error, timestamps, attempt) stays exactly as it was.\<close>

theorem terminal_task_final:
  assumes "run_trace run es run'" "mget (run_tasks run) k = Some t" "terminal (tr_Status t)"
  shows "mget (run_tasks run') k = Some t"
  using assms by (rule run_trace_terminal)

section \<open>At most one completion per attempt\<close>

text \<open>An attempt is settled once its task has moved past it, or sits on it without running.\<close>

definition settled :: "AttemptID \<Rightarrow> WorkflowRun \<Rightarrow> bool" where
  "settled a run \<longleftrightarrow> (\<exists>k n t. a = AttemptIDFor (TaskRunIDFor (run_id run) k) n \<and> mget (run_tasks run) k = Some t \<and>
     (n < tr_AttemptCount t \<or> n = tr_AttemptCount t \<and> tr_Status t \<noteq> TaskRunRunning))"

text \<open>Attempt identities as the operations maintain them.\<close>

definition ids_ok :: "WorkflowRun \<Rightarrow> bool" where
  "ids_ok run \<longleftrightarrow> (\<forall>k t. mget (run_tasks run) k = Some t \<longrightarrow> 0 \<le> tr_AttemptCount t \<and>
     tr_TaskRunID t = TaskRunIDFor (run_id run) k \<and>
     tr_CurrentAttemptID t = (if tr_AttemptCount t = 0 then '''' else AttemptIDFor (TaskRunIDFor (run_id run) k) (tr_AttemptCount t)))"

lemma ids_okD:
  assumes "ids_ok run" "mget (run_tasks run) k = Some t"
  shows "0 \<le> tr_AttemptCount t" "tr_TaskRunID t = TaskRunIDFor (run_id run) k"
    "tr_CurrentAttemptID t = (if tr_AttemptCount t = 0 then '''' else AttemptIDFor (TaskRunIDFor (run_id run) k) (tr_AttemptCount t))"
  using assms by (simp_all add: ids_ok_def)

lemma task_step_ids:
  assumes "task_step run ts k t t'" "0 \<le> tr_AttemptCount t" "tr_TaskRunID t = TaskRunIDFor (run_id run) k"
    "tr_CurrentAttemptID t = (if tr_AttemptCount t = 0 then '''' else AttemptIDFor (TaskRunIDFor (run_id run) k) (tr_AttemptCount t))"
  shows "0 \<le> tr_AttemptCount t' \<and> tr_TaskRunID t' = TaskRunIDFor (run_id run) k \<and>
    tr_CurrentAttemptID t' = (if tr_AttemptCount t' = 0 then '''' else AttemptIDFor (TaskRunIDFor (run_id run) k) (tr_AttemptCount t'))"
  using assms
proof (induction rule: task_step.induct)
  case (complete_task t tr w a out err oc t')
  then show ?case using complete_task_run_fields(2-4) [OF complete_task(2)] by simp
next
  case (recover_task t r t')
  have "\<not> (tr_CurrentAttemptID t = '''' \<and> 0 < tr_AttemptCount t)" using recover_task.prems by auto
  then have "tr_TaskRunID t' = tr_TaskRunID t" "tr_CurrentAttemptID t' = tr_CurrentAttemptID t"
    using recover_task_run_fields(8) [OF recover_task(1)] by blast+
  then show ?case using recover_task_run_fields(3) [OF recover_task(1)] recover_task.prems by simp
qed (auto simp: cancel_task_run_def promote_task_run_def)

lemma run_step_keys:
  assumes "run_step run e run'" "mget (run_tasks run') k = Some t'"
  obtains t where "mget (run_tasks run) k = Some t"
proof -
  have "mhas (run_tasks run') k" using assms(2) by (simp add: mhas_def)
  then have "mhas (run_tasks run) k" using run_step_id(4) [OF assms(1)] by (simp add: mhas_mkeys)
  then show thesis using that by (auto simp: mhas_def)
qed

lemma run_step_ids_ok:
  assumes "run_step run e run'" "ids_ok run"
  shows "ids_ok run'"
  unfolding ids_ok_def run_step_id(1) [OF assms(1)]
proof (intro allI impI)
  fix k t' assume t': "mget (run_tasks run') k = Some t'"
  obtain t where t: "mget (run_tasks run) k = Some t" using run_step_keys [OF assms(1) t'] .
  note ok = ids_okD [OF assms(2) t]
  have "t' = t \<or> task_step run (run_updatedAt run') k t t'" using run_step_task_step [OF assms(1) t] t' by simp
  then show "0 \<le> tr_AttemptCount t' \<and> tr_TaskRunID t' = TaskRunIDFor (run_id run) k \<and>
      tr_CurrentAttemptID t' = (if tr_AttemptCount t' = 0 then '''' else AttemptIDFor (TaskRunIDFor (run_id run) k) (tr_AttemptCount t'))"
    using ok task_step_ids [OF _ ok] by auto
qed

lemma run_trace_ids: "\<lbrakk>run_trace run es run'; ids_ok run\<rbrakk> \<Longrightarrow> ids_ok run' \<and> run_id run' = run_id run"
  by (induction rule: run_trace.induct) (auto intro: run_step_ids_ok simp: run_step_id)

lemma settled_stable:
  assumes "run_step run e run'" "settled a run"
  shows "settled a run'"
proof -
  obtain k n t where a: "a = AttemptIDFor (TaskRunIDFor (run_id run) k) n" and t: "mget (run_tasks run) k = Some t"
    and n: "n < tr_AttemptCount t \<or> n = tr_AttemptCount t \<and> tr_Status t \<noteq> TaskRunRunning"
    using assms(2) unfolding settled_def by blast
  obtain t' where t': "mget (run_tasks run') k = Some t'" "task_advance t t'" using run_step_task [OF assms(1) t] .
  have "n < tr_AttemptCount t' \<or> n = tr_AttemptCount t' \<and> tr_Status t' \<noteq> TaskRunRunning"
    using n t'(2) by (cases "tr_Status t") (auto simp: task_advance_def terminal_def)
  with a t'(1) show ?thesis
    unfolding settled_def run_step_id(1) [OF assms(1)] by (intro exI [of _ k] exI [of _ n] exI [of _ t'] conjI)
qed

lemma settled_ignored:
  assumes "settled a run" "ids_ok run" "completeTaskAttempt run now t tr w a out err = Inr (outcome, run')"
  shows "outcome = CompletionIgnored"
  using assms(3)
proof (cases rule: completeTaskAttempt_InrE)
  case (accepted task task')
  then have c: "tr_Status task = TaskRunRunning" "tr_CurrentAttemptID task = a" by (simp_all add: completion_matches_def)
  have "a \<noteq> ''''" using assms(1) by (auto simp: settled_def)
  then have "a = AttemptIDFor (TaskRunIDFor (run_id run) t) (tr_AttemptCount task)"
    using ids_okD(3) [OF assms(2) accepted(1)] c(2) by (auto split: if_splits)
  then have False using assms(1) accepted(1) c(1) by (auto simp: settled_def)
  then show ?thesis ..
qed simp

lemma accepted_settled:
  assumes "completeTaskAttempt run now t tr w a out err = Inr (outcome, run')" "outcome \<noteq> CompletionIgnored"
    "ids_ok run" "a \<noteq> ''''"
  shows "settled a run'"
  using assms(1)
proof (cases rule: completeTaskAttempt_InrE)
  case (accepted task task')
  then have c: "tr_Status task = TaskRunRunning" "tr_CurrentAttemptID task = a" by (simp_all add: completion_matches_def)
  then have "a = AttemptIDFor (TaskRunIDFor (run_id run) t) (tr_AttemptCount task)"
    using ids_okD(3) [OF assms(3) accepted(1)] assms(4) by (auto split: if_splits)
  moreover have "tr_AttemptCount task' = tr_AttemptCount task" "tr_Status task' \<noteq> TaskRunRunning"
    using complete_task_run_fields [OF accepted(3)] by (auto simp: rescheduled_def)
  ultimately show ?thesis
    unfolding settled_def accepted(4)
    by (intro exI [of _ t] exI [of _ "tr_AttemptCount task"] exI [of _ task']) (simp add: go_map)
qed (use assms(2) in simp)

text \<open>The completions of attempt \<open>a\<close> that changed the run.\<close>

definition accepted_completion :: "AttemptID \<Rightarrow> run_event \<Rightarrow> bool" where
  "accepted_completion a e = (case e of EvComplete _ a' outcome \<Rightarrow> a' = a \<and> outcome \<noteq> CompletionIgnored | _ \<Rightarrow> False)"

lemma accepted_completionE:
  assumes "accepted_completion a e" "run_step run e run'"
  obtains now t tr w out err outcome where "completeTaskAttempt run now t tr w a out err = Inr (outcome, run')"
    "outcome \<noteq> CompletionIgnored" "e = EvComplete t a outcome"
  using assms by (auto simp: accepted_completion_def split: run_event.splits elim: run_step_completeE)

lemma accepted_at_most_once:
  "\<lbrakk>run_trace run es run'; ids_ok run; a \<noteq> ''''\<rbrakk> \<Longrightarrow>
   length (filter (accepted_completion a) es) \<le> 1 \<and>
   (filter (accepted_completion a) es \<noteq> [] \<longrightarrow> settled a run')"
proof (induction rule: run_trace.induct)
  case (trace_snoc run es run' e run'')
  have ok: "ids_ok run'" using run_trace_ids trace_snoc by blast
  show ?case
  proof (cases "accepted_completion a e")
    case True
    then obtain now t tr w out err outcome
      where c: "completeTaskAttempt run' now t tr w a out err = Inr (outcome, run'')" "outcome \<noteq> CompletionIgnored"
      using trace_snoc.hyps(2) by (rule accepted_completionE)
    have "\<not> settled a run'" using settled_ignored [OF _ ok c(1)] c(2) by blast
    then have "filter (accepted_completion a) es = []" using trace_snoc.IH trace_snoc.prems by blast
    then show ?thesis using True accepted_settled [OF c ok trace_snoc.prems(2)] by simp
  next
    case False
    then show ?thesis using trace_snoc.IH trace_snoc.prems settled_stable [OF trace_snoc.hyps(2)] by auto
  qed
qed simp

lemma newWorkflowRun_InrE:
  assumes "newWorkflowRun runID definition now = Inr run"
  obtains "validRunID runID" "workflow_Validate definition = Inr ()"
    "run = \<lparr>run_id = runID, run_definition = cloneDefinition definition, run_version = 0,
            run_status = WorkflowRunPending,
            run_tasks = map (\<lambda>t. (t, new_task_run runID now t)) (task_ids definition),
            run_workers = [], run_createdAt = now, run_updatedAt = now\<rparr>"
proof -
  have v: "validRunID runID" "workflow_Validate definition = Inr ()"
    using assms by (auto simp: newWorkflowRun_def bindE_Inr_iff split: if_splits)
  have put: "fold (\<lambda>task. mput (td_ID task) (f (td_ID task))) ts m = m @ map (\<lambda>t. (t, f t)) (map td_ID ts)"
    if "distinct (map td_ID ts)" "set (map fst m) \<inter> set (map td_ID ts) = {}" for f :: "TaskID \<Rightarrow> TaskRun" and ts m
    using that by (induction ts arbitrary: m) (auto simp: mput_fresh mhas_iff)
  have ids: "map td_ID (wd_Tasks (cloneDefinition definition)) = task_ids definition"
    by (simp add: cloneDefinition_def task_ids_def)
  have "distinct (task_ids definition)"
    using v(2) by (simp add: workflow_Validate_iff structurally_valid_def)
  then have "fold (\<lambda>task. mput (td_ID task) (new_task_run runID now (td_ID task))) (wd_Tasks (cloneDefinition definition)) [] =
      map (\<lambda>t. (t, new_task_run runID now t)) (task_ids definition)"
    using put [of "wd_Tasks (cloneDefinition definition)" "[]" "new_task_run runID now"] unfolding ids by simp
  then show thesis
    using v assms that by (simp add: newWorkflowRun_def Let_def)
qed

lemma newWorkflowRun_ids_ok: "newWorkflowRun runID definition now = Inr run \<Longrightarrow> ids_ok run"
  by (erule newWorkflowRun_InrE) (auto simp: ids_ok_def new_task_run_def dest!: map_of_SomeD)

text \<open>C10: each attempt is completed at most once. In any sequence of operations on a new run, with
  duplicated, late or reordered completion messages, at most one completion of a given attempt is
  accepted; every other one is ignored.\<close>

theorem attempt_completed_at_most_once:
  assumes "newWorkflowRun runID definition now = Inr run" "run_trace run es run'" "a \<noteq> ''''"
  shows "length (filter (accepted_completion a) es) \<le> 1"
  using accepted_at_most_once [OF assms(2) newWorkflowRun_ids_ok [OF assms(1)] assms(3)] by blast

text \<open>A completion that does not name the running attempt and its lease holder changes nothing.\<close>

theorem stale_completion_ignored:
  assumes "mget (run_tasks run) t = Some task"
    "\<not> (tr_Status task = TaskRunRunning \<and> tr_TaskRunID task = tr \<and> tr_CurrentAttemptID task = a \<and>
        (\<exists>lease. tr_Lease task = Some lease \<and> tl_AttemptID lease = a \<and> tl_WorkerID lease = w))"
  shows "completeTaskAttempt run now t tr w a out err = Inr (CompletionIgnored, run)"
  using assms by (auto simp: completeTaskAttempt_def completion_matches_def split: option.splits)

end
