(* ===== verification/FF_Snapshot.thy ===== *)
theory FF_Snapshot
  imports FF_Reliability
begin

text \<open>
  The durable representation of a run, \<open>internal/execution/store.go\<close>: the storage-level validation of
  a snapshot and the reconstruction of a run from one. The theory characterises what validation
  accepts, shows that every operation keeps a run inside the accepted set, and that restoring a
  snapshot gives back the run it was taken from.
\<close>

section \<open>store.go\<close>

definition snapshot_error :: "WorkflowRunSnapshot \<Rightarrow> string \<Rightarrow> fmt_arg list \<Rightarrow> go_error" where
  "snapshot_error snapshot reason args = SnapshotValidationError (ws_ID snapshot) reason args"

text \<open>The checks of one round of the task loop. The result is the updated \<open>leasedWorkers\<close>.\<close>

definition validate_lease :: "WorkflowRunSnapshot \<Rightarrow> WorkerID list \<Rightarrow> TaskRun \<Rightarrow> go_error + WorkerID list" where
  "validate_lease snapshot leasedWorkers task =
     (case tr_Lease task of
        None \<Rightarrow> Inr leasedWorkers
      | Some lease \<Rightarrow>
          let expectedTaskRunID = TaskRunIDFor (ws_ID snapshot) (tr_TaskID task)
          in if tr_Status task \<noteq> TaskRunRunning \<or> \<not> validIdentifier (tl_WorkerID lease) \<or>
                tr_TaskRunID task \<noteq> expectedTaskRunID \<or> \<not> validIdentifier (tl_AttemptID lease) \<or>
                tl_TaskRunID lease \<noteq> expectedTaskRunID \<or>
                tl_AttemptID lease \<noteq> tr_CurrentAttemptID task \<or> IsZero (tl_ExpiresAt lease)
             then Inl (snapshot_error snapshot ''task %q has an invalid lease'' [FStr (tr_TaskID task)])
             else if tl_WorkerID lease \<in> set leasedWorkers
             then Inl (snapshot_error snapshot ''worker %q holds more than one active task lease'' [FStr (tl_WorkerID lease)])
             else Inr (tl_WorkerID lease # leasedWorkers))"

definition validate_task :: "WorkflowRunSnapshot \<Rightarrow> TaskID list \<Rightarrow> WorkerID list \<Rightarrow> TaskRun \<Rightarrow> go_error + WorkerID list" where
  "validate_task snapshot seen leasedWorkers task =
     (let fail = (\<lambda>reason. Inl (snapshot_error snapshot reason [FStr (tr_TaskID task)]));
          expectedTaskRunID = TaskRunIDFor (ws_ID snapshot) (tr_TaskID task)
      in if \<not> validIdentifier (tr_TaskID task) then
           Inl (snapshot_error snapshot ''task run has an empty or invalid task ID'' [])
         else if tr_TaskID task \<in> set seen then fail ''duplicate task run %q''
         else if tr_TaskRunID task \<noteq> '''' \<and> tr_TaskRunID task \<noteq> expectedTaskRunID then
           fail ''task %q has an invalid task-run ID''
         else if \<not> task_status_valid (tr_Status task) then
           Inl (snapshot_error snapshot ''task %q has unknown status %q'' [FStr (tr_TaskID task), FTask (tr_Status task)])
         else if tr_AttemptCount task < 0 then fail ''task %q has a negative attempt count''
         else if tr_AttemptCount task = 0 \<and> tr_CurrentAttemptID task \<noteq> '''' then
           fail ''task %q has an attempt ID without an attempt''
         else if tr_CurrentAttemptID task \<noteq> '''' \<and>
              tr_CurrentAttemptID task \<noteq> AttemptIDFor expectedTaskRunID (tr_AttemptCount task) then
           fail ''task %q has an invalid current attempt ID''
         else if IsZero (tr_UpdatedAt task) \<or> tr_UpdatedAt task < ws_CreatedAt snapshot then
           fail ''task %q has an invalid update timestamp''
         else if tr_Status task = TaskRunRunning \<and> (tr_AttemptCount task = 0 \<or> IsZero (tr_StartedAt task)) then
           fail ''running task %q has no recorded attempt''
         else if (tr_Status task = TaskRunSucceeded \<or> tr_Status task = TaskRunFailed) \<and>
              (tr_AttemptCount task = 0 \<or> IsZero (tr_FinishedAt task)) then
           fail ''completed task %q has no recorded attempt''
         else if tr_Status task = TaskRunCanceled \<and> IsZero (tr_FinishedAt task) then
           fail ''canceled task %q has no finish timestamp''
         else if tr_Status task = TaskRunRetryWaiting \<and> IsZero (tr_NextAttemptAt task) then
           fail ''retry-waiting task %q has no retry deadline''
         else if tr_Status task = TaskRunRetryWaiting \<and> (tr_AttemptCount task = 0 \<or> tr_CurrentAttemptID task = '''') then
           fail ''retry-waiting task %q has no completed attempt''
         else if tr_Status task \<noteq> TaskRunRetryWaiting \<and> \<not> IsZero (tr_NextAttemptAt task) then
           fail ''task %q has a retry deadline outside retry-wait state''
         else validate_lease snapshot leasedWorkers task)"

fun validate_tasks :: "WorkflowRunSnapshot \<Rightarrow> TaskRun list \<Rightarrow> TaskID list \<Rightarrow> (TaskRunStatus, int) gomap \<Rightarrow> WorkerID list
                       \<Rightarrow> go_error + (TaskRunStatus, int) gomap \<times> WorkerID list" where
  "validate_tasks snapshot [] seen counts leased = Inr (counts, leased)"
| "validate_tasks snapshot (task # rest) seen counts leased =
     bindE (validate_task snapshot seen leased task) (\<lambda>leased'.
       validate_tasks snapshot rest (tr_TaskID task # seen)
         (mput (tr_Status task) (mget_or 0 counts (tr_Status task) + 1) counts) leased')"

fun validate_workers :: "WorkflowRunSnapshot \<Rightarrow> WorkerHeartbeat list \<Rightarrow> WorkerID list \<Rightarrow> go_error + WorkerID list" where
  "validate_workers snapshot [] seenWorkers = Inr seenWorkers"
| "validate_workers snapshot (worker # rest) seenWorkers =
     (if \<not> validIdentifier (wh_WorkerID worker) \<or> IsZero (wh_LastHeartbeatAt worker) \<or>
         wh_LastHeartbeatAt worker < ws_CreatedAt snapshot then
        Inl (snapshot_error snapshot ''worker %q has invalid heartbeat state'' [FStr (wh_WorkerID worker)])
      else if wh_WorkerID worker \<in> set seenWorkers then
        Inl (snapshot_error snapshot ''duplicate worker heartbeat %q'' [FStr (wh_WorkerID worker)])
      else validate_workers snapshot rest (wh_WorkerID worker # seenWorkers))"

definition validateAggregateStatus :: "WorkflowRunSnapshot \<Rightarrow> (TaskRunStatus, int) gomap \<Rightarrow> go_error + unit" where
  "validateAggregateStatus snapshot counts =
     (let n = mget_or 0 counts;
          unfinished = n TaskRunPending + n TaskRunReady + n TaskRunRunning + n TaskRunRetryWaiting;
          total = int (length (ws_Tasks snapshot))
      in case ws_Status snapshot of
           WorkflowRunPending \<Rightarrow>
             guardE (n TaskRunPending \<noteq> total) (snapshot_error snapshot ''pending workflow contains a task that has started'' [])
         | WorkflowRunSucceeded \<Rightarrow>
             guardE (n TaskRunSucceeded \<noteq> total) (snapshot_error snapshot ''succeeded workflow contains a task that did not succeed'' [])
         | WorkflowRunFailed \<Rightarrow>
             guardE (0 < unfinished \<or> n TaskRunFailed + n TaskRunCanceled = 0)
               (snapshot_error snapshot ''failed workflow has inconsistent task states'' [])
         | WorkflowRunCanceled \<Rightarrow>
             guardE (0 < unfinished \<or> 0 < n TaskRunFailed)
               (snapshot_error snapshot ''canceled workflow has inconsistent task states'' [])
         | _ \<Rightarrow> Inr ())"

definition snapshot_Validate :: "WorkflowRunSnapshot \<Rightarrow> go_error + unit" where
  "snapshot_Validate snapshot =
     (let fail = (\<lambda>reason. Inl (snapshot_error snapshot reason []))
      in if \<not> validIdentifier (ws_ID snapshot) then fail ''run ID is empty or invalid''
         else if \<not> validIdentifier (ws_WorkflowID snapshot) then fail ''workflow ID is empty or invalid''
         else if \<not> workflow_status_valid (ws_Status snapshot) then
           Inl (snapshot_error snapshot ''unknown workflow status %q'' [FFlow (ws_Status snapshot)])
         else if IsZero (ws_CreatedAt snapshot) then fail ''creation timestamp is missing''
         else if IsZero (ws_UpdatedAt snapshot) \<or> ws_UpdatedAt snapshot < ws_CreatedAt snapshot then
           fail ''update timestamp is missing or precedes creation''
         else if ws_Tasks snapshot = [] then fail ''task runs are missing''
         else bindE (validate_tasks snapshot (ws_Tasks snapshot) [] [] []) (\<lambda>(statusCounts, leasedWorkers).
              bindE (validate_workers snapshot (ws_Workers snapshot) []) (\<lambda>seenWorkers.
                case filter (\<lambda>workerID. workerID \<notin> set seenWorkers) leasedWorkers of
                  workerID # _ \<Rightarrow>
                    Inl (snapshot_error snapshot ''lease references worker %q without heartbeat state'' [FStr workerID])
                | [] \<Rightarrow> validateAggregateStatus snapshot statusCounts)))"

text \<open>Filling in identities that older snapshots lack.\<close>

definition restore_task :: "WorkflowRunSnapshot \<Rightarrow> TaskRun \<Rightarrow> TaskRun" where
  "restore_task snapshot task =
     (let task = (if tr_TaskRunID task = '''' then task\<lparr>tr_TaskRunID := TaskRunIDFor (ws_ID snapshot) (tr_TaskID task)\<rparr> else task);
          task = (if tr_CurrentAttemptID task = '''' \<and> 0 < tr_AttemptCount task
                  then task\<lparr>tr_CurrentAttemptID := AttemptIDFor (tr_TaskRunID task) (tr_AttemptCount task)\<rparr> else task)
      in cloneTaskRun task)"

definition restoreWorkflowRun :: "WorkflowRunSnapshot \<Rightarrow> WorkflowDefinition \<Rightarrow> go_error + WorkflowRun" where
  "restoreWorkflowRun snapshot definition =
     bindE (snapshot_Validate snapshot) (\<lambda>_.
     bindE (lift_validation (workflow_Validate definition)) (\<lambda>_.
       if ws_WorkflowID snapshot \<noteq> wd_ID definition then
         Inl (snapshot_error snapshot ''references workflow %q, not %q'' [FStr (ws_WorkflowID snapshot), FStr (wd_ID definition)])
       else if length (ws_Tasks snapshot) \<noteq> length (wd_Tasks definition) then
         Inl (snapshot_error snapshot ''task runs do not match workflow definition'' [])
       else
         let tasks = fold (\<lambda>task. mput (tr_TaskID task) (restore_task snapshot task)) (ws_Tasks snapshot) []
         in case filter (\<lambda>task. \<not> mhas tasks (td_ID task)) (wd_Tasks definition) of
              task # _ \<Rightarrow> Inl (snapshot_error snapshot ''task run %q is missing'' [FStr (td_ID task)])
            | [] \<Rightarrow>
                Inr \<lparr>run_id = ws_ID snapshot, run_definition = cloneDefinition definition,
                     run_version = ws_Version snapshot, run_status = ws_Status snapshot,
                     run_tasks = tasks,
                     run_workers = fold (\<lambda>worker. mput (wh_WorkerID worker) worker) (ws_Workers snapshot) [],
                     run_createdAt = ws_CreatedAt snapshot, run_updatedAt = ws_UpdatedAt snapshot\<rparr>))"

section \<open>What validation accepts\<close>

text \<open>One task, on its own.\<close>

definition snapshot_task_ok :: "WorkflowRunSnapshot \<Rightarrow> TaskRun \<Rightarrow> bool" where
  "snapshot_task_ok snapshot task \<longleftrightarrow>
     (let expectedTaskRunID = TaskRunIDFor (ws_ID snapshot) (tr_TaskID task); status = tr_Status task; n = tr_AttemptCount task
      in validIdentifier (tr_TaskID task) \<and> task_status_valid status \<and> 0 \<le> n \<and>
         tr_TaskRunID task \<in> {'''', expectedTaskRunID} \<and>
         (tr_CurrentAttemptID task = '''' \<or> 0 < n \<and> tr_CurrentAttemptID task = AttemptIDFor expectedTaskRunID n) \<and>
         tr_UpdatedAt task \<noteq> 0 \<and> ws_CreatedAt snapshot \<le> tr_UpdatedAt task \<and>
         (status = TaskRunRunning \<longrightarrow> 0 < n \<and> tr_StartedAt task \<noteq> 0) \<and>
         (status \<in> {TaskRunSucceeded, TaskRunFailed} \<longrightarrow> 0 < n) \<and>
         (terminal status \<longrightarrow> tr_FinishedAt task \<noteq> 0) \<and>
         (status = TaskRunRetryWaiting \<longrightarrow> 0 < n \<and> tr_CurrentAttemptID task \<noteq> '''') \<and>
         (status = TaskRunRetryWaiting \<longleftrightarrow> tr_NextAttemptAt task \<noteq> 0) \<and>
         (\<forall>lease. tr_Lease task = Some lease \<longrightarrow>
            status = TaskRunRunning \<and> validIdentifier (tl_WorkerID lease) \<and> validIdentifier (tl_AttemptID lease) \<and>
            tr_TaskRunID task = expectedTaskRunID \<and> tl_TaskRunID lease = expectedTaskRunID \<and>
            tl_AttemptID lease = tr_CurrentAttemptID task \<and> tl_ExpiresAt lease \<noteq> 0))"

definition lease_workers :: "TaskRun list \<Rightarrow> WorkerID list" where
  "lease_workers ts = List.map_filter (\<lambda>t. map_option tl_WorkerID (tr_Lease t)) ts"

definition status_count :: "TaskRunStatus \<Rightarrow> TaskRun list \<Rightarrow> nat" where
  "status_count s ts = length (filter (\<lambda>t. tr_Status t = s) ts)"

definition finished :: "TaskRunStatus \<Rightarrow> bool" where
  "finished s \<longleftrightarrow> s \<notin> {TaskRunPending, TaskRunReady, TaskRunRunning, TaskRunRetryWaiting}"

text \<open>The workflow status against the task statuses.\<close>

fun aggregate_ok :: "WorkflowRunStatus \<Rightarrow> TaskRun list \<Rightarrow> bool" where
  "aggregate_ok WorkflowRunPending ts = (\<forall>t \<in> set ts. tr_Status t = TaskRunPending)"
| "aggregate_ok WorkflowRunRunning ts = True"
| "aggregate_ok WorkflowRunSucceeded ts = (\<forall>t \<in> set ts. tr_Status t = TaskRunSucceeded)"
| "aggregate_ok WorkflowRunFailed ts =
     ((\<forall>t \<in> set ts. finished (tr_Status t)) \<and> (\<exists>t \<in> set ts. tr_Status t \<in> {TaskRunFailed, TaskRunCanceled}))"
| "aggregate_ok WorkflowRunCanceled ts =
     (\<forall>t \<in> set ts. finished (tr_Status t) \<and> tr_Status t \<noteq> TaskRunFailed)"
| "aggregate_ok (WorkflowRunOther _) ts = False"

definition worker_ok :: "Time \<Rightarrow> WorkerHeartbeat \<Rightarrow> bool" where
  "worker_ok createdAt w \<longleftrightarrow> validIdentifier (wh_WorkerID w) \<and> wh_LastHeartbeatAt w \<noteq> 0 \<and> createdAt \<le> wh_LastHeartbeatAt w"

definition snapshot_ok :: "WorkflowRunSnapshot \<Rightarrow> bool" where
  "snapshot_ok s \<longleftrightarrow>
     validIdentifier (ws_ID s) \<and> validIdentifier (ws_WorkflowID s) \<and>
     ws_CreatedAt s \<noteq> 0 \<and> ws_UpdatedAt s \<noteq> 0 \<and> ws_CreatedAt s \<le> ws_UpdatedAt s \<and>
     ws_Tasks s \<noteq> [] \<and> distinct (map tr_TaskID (ws_Tasks s)) \<and> (\<forall>t \<in> set (ws_Tasks s). snapshot_task_ok s t) \<and>
     distinct (lease_workers (ws_Tasks s)) \<and>
     distinct (map wh_WorkerID (ws_Workers s)) \<and> (\<forall>w \<in> set (ws_Workers s). worker_ok (ws_CreatedAt s) w) \<and>
     set (lease_workers (ws_Tasks s)) \<subseteq> wh_WorkerID ` set (ws_Workers s) \<and>
     aggregate_ok (ws_Status s) (ws_Tasks s)"

lemma validate_task_Inr_iff:
  "validate_task s seen leased t = Inr leased' \<longleftrightarrow>
     tr_TaskID t \<notin> set seen \<and> snapshot_task_ok s t \<and>
     (case tr_Lease t of None \<Rightarrow> leased' = leased
      | Some lease \<Rightarrow> tl_WorkerID lease \<notin> set leased \<and> leased' = tl_WorkerID lease # leased)"
  by (simp add: validate_task_def validate_lease_def snapshot_task_ok_def Let_def IsZero_def zero_time_def
        terminal_def split: option.split) (intro conjI allI impI iffI; (elim conjE)?; force)

lemma lease_workers_simps [simp]:
  "lease_workers [] = []"
  "lease_workers (t # ts) = (case tr_Lease t of None \<Rightarrow> lease_workers ts | Some l \<Rightarrow> tl_WorkerID l # lease_workers ts)"
  by (simp_all add: lease_workers_def List.map_filter_def split: option.split)

lemma validate_tasks_Inr_iff:
  "(\<exists>counts'. validate_tasks s ts seen counts leased = Inr (counts', leased')) \<longleftrightarrow>
     distinct (map tr_TaskID ts) \<and> set (map tr_TaskID ts) \<inter> set seen = {} \<and> (\<forall>t \<in> set ts. snapshot_task_ok s t) \<and>
     distinct (lease_workers ts) \<and> set (lease_workers ts) \<inter> set leased = {} \<and> leased' = rev (lease_workers ts) @ leased"
proof (induction ts arbitrary: seen counts leased)
  case (Cons t ts)
  show ?case
    by (cases "tr_Lease t") (auto simp: bindE_Inr_iff validate_task_Inr_iff Cons.IH)
qed auto

lemma validate_tasks_counts:
  "validate_tasks s ts seen counts leased = Inr (counts', leased') \<Longrightarrow>
   mget_or 0 counts' st = mget_or 0 counts st + int (status_count st ts)"
proof (induction ts arbitrary: seen counts leased)
  case (Cons t ts)
  then obtain l' where "validate_tasks s ts (tr_TaskID t # seen)
      (mput (tr_Status t) (mget_or 0 counts (tr_Status t) + 1) counts) l' = Inr (counts', leased')"
    by (auto simp: bindE_Inr_iff)
  from Cons.IH [OF this] show ?case by (simp add: status_count_def mget_or_def go_map)
qed (simp add: status_count_def)

lemma validate_workers_Inr_iff:
  "validate_workers s ws seen = Inr seen' \<longleftrightarrow>
     distinct (map wh_WorkerID ws) \<and> set (map wh_WorkerID ws) \<inter> set seen = {} \<and>
     (\<forall>w \<in> set ws. worker_ok (ws_CreatedAt s) w) \<and> seen' = rev (map wh_WorkerID ws) @ seen"
  by (induction ws arbitrary: seen) (auto simp: worker_ok_def IsZero_def zero_time_def)

lemma status_count_all: "status_count st ts = length ts \<longleftrightarrow> (\<forall>t \<in> set ts. tr_Status t = st)"
  unfolding status_count_def by (metis (mono_tags, lifting) filter_True length_filter_less less_irrefl)

lemma status_count_pos: "0 < status_count st ts \<longleftrightarrow> (\<exists>t \<in> set ts. tr_Status t = st)"
  by (simp add: status_count_def filter_empty_conv)

lemma status_count_zero: "status_count st ts = 0 \<longleftrightarrow> (\<forall>t \<in> set ts. tr_Status t \<noteq> st)"
  by (auto simp: status_count_def filter_empty_conv)

lemma validateAggregateStatus_iff:
  assumes "\<And>st. mget_or 0 counts st = int (status_count st (ws_Tasks s))" "workflow_status_valid (ws_Status s)"
  shows "validateAggregateStatus s counts = Inr () \<longleftrightarrow> aggregate_ok (ws_Status s) (ws_Tasks s)"
proof -
  let ?c = "\<lambda>st. status_count st (ws_Tasks s)"
  have unfinished: "0 < int (?c TaskRunPending) + int (?c TaskRunReady) + int (?c TaskRunRunning) + int (?c TaskRunRetryWaiting)
      \<longleftrightarrow> (\<exists>t \<in> set (ws_Tasks s). \<not> finished (tr_Status t))"
  proof -
    have sum4: "0 < int a + int b + int c + int d \<longleftrightarrow> 0 < a \<or> 0 < b \<or> 0 < c \<or> 0 < d" for a b c d by auto
    show ?thesis unfolding sum4 status_count_pos by (auto simp: finished_def)
  qed
  have stopped: "int (?c TaskRunFailed) + int (?c TaskRunCanceled) = 0
      \<longleftrightarrow> \<not> (\<exists>t \<in> set (ws_Tasks s). tr_Status t \<in> {TaskRunFailed, TaskRunCanceled})"
  proof -
    have sum2: "int a + int b = 0 \<longleftrightarrow> a = 0 \<and> b = 0" for a b by auto
    show ?thesis unfolding sum2 status_count_zero by auto
  qed
  have failed: "0 < int (?c TaskRunFailed) \<longleftrightarrow> (\<exists>t \<in> set (ws_Tasks s). tr_Status t = TaskRunFailed)"
    using status_count_zero [of TaskRunFailed "ws_Tasks s"] by auto
  show ?thesis
    using assms(2)
    by (cases "ws_Status s")
       (auto simp: validateAggregateStatus_def Let_def assms(1) status_count_all unfinished stopped failed
          status_count_zero)
qed

lemma case_filter_Inr_iff:
  "(case filter P xs of [] \<Rightarrow> r | x # _ \<Rightarrow> Inl (f x)) = Inr u \<longleftrightarrow> (\<forall>x \<in> set xs. \<not> P x) \<and> r = Inr u"
  by (cases "filter P xs") (auto simp: filter_empty_conv dest: filter_eq_ConsD)

lemma snapshot_Validate_iff: "snapshot_Validate s = Inr () \<longleftrightarrow> snapshot_ok s"
proof -
  let ?head = "validIdentifier (ws_ID s) \<and> validIdentifier (ws_WorkflowID s) \<and> workflow_status_valid (ws_Status s) \<and>
     ws_CreatedAt s \<noteq> 0 \<and> ws_UpdatedAt s \<noteq> 0 \<and> ws_CreatedAt s \<le> ws_UpdatedAt s \<and> ws_Tasks s \<noteq> []"
  have st: "aggregate_ok (ws_Status s) ts \<Longrightarrow> workflow_status_valid (ws_Status s)" for ts
    by (cases "ws_Status s") auto
  have unf: "snapshot_Validate s = Inr () \<longleftrightarrow> ?head \<and>
    (\<exists>counts leased. validate_tasks s (ws_Tasks s) [] [] [] = Inr (counts, leased) \<and>
      (\<exists>seen. validate_workers s (ws_Workers s) [] = Inr seen \<and> set leased \<subseteq> set seen \<and> validateAggregateStatus s counts = Inr ()))"
    by (simp add: snapshot_Validate_def Let_def bindE_Inr_iff IsZero_def zero_time_def case_filter_Inr_iff subset_code(1))
  show ?thesis
  proof (cases "\<exists>counts leased. validate_tasks s (ws_Tasks s) [] [] [] = Inr (counts, leased)")
    case True
    then obtain counts leased where vt: "validate_tasks s (ws_Tasks s) [] [] [] = Inr (counts, leased)" by blast
    then have t: "distinct (map tr_TaskID (ws_Tasks s)) \<and> (\<forall>t \<in> set (ws_Tasks s). snapshot_task_ok s t) \<and>
        distinct (lease_workers (ws_Tasks s)) \<and> leased = rev (lease_workers (ws_Tasks s))"
      using validate_tasks_Inr_iff [of s "ws_Tasks s" "[]" "[]" "[]" leased] by auto
    have "mget_or 0 counts st = int (status_count st (ws_Tasks s))" for st
      using validate_tasks_counts [OF vt] by (simp add: mget_or_def)
    then have ag: "workflow_status_valid (ws_Status s) \<Longrightarrow>
        validateAggregateStatus s counts = Inr () \<longleftrightarrow> aggregate_ok (ws_Status s) (ws_Tasks s)"
      by (rule validateAggregateStatus_iff)
    show ?thesis unfolding unf using vt t ag st by (auto simp: snapshot_ok_def validate_workers_Inr_iff)
  next
    case False
    then show ?thesis
      unfolding unf using validate_tasks_Inr_iff [of s "ws_Tasks s" "[]" "[]" "[]"] by (auto simp: snapshot_ok_def)
  qed
qed

text \<open>C23: snapshot validation accepts exactly the consistent snapshots: valid identities, ordered
  timestamps, distinct tasks whose attempt, lease and deadline fields agree with their status, at most
  one live lease per worker with a recorded heartbeat, and a workflow status that matches the tasks.\<close>

theorem snapshot_Validate_correct: "snapshot_Validate s = Inr () \<longleftrightarrow> snapshot_ok s"
  by (rule snapshot_Validate_iff)

section \<open>The invariant of a run\<close>

definition task_inv :: "WorkflowRun \<Rightarrow> TaskID \<Rightarrow> TaskRun \<Rightarrow> bool" where
  "task_inv run k t \<longleftrightarrow>
     (let n = tr_AttemptCount t; status = tr_Status t; limit = EffectiveMaxAttempts (retryPolicyLocked run k)
      in tr_TaskID t = k \<and> 0 \<le> n \<and> n \<le> limit \<and> tr_TaskRunID t = TaskRunIDFor (run_id run) k \<and>
         tr_CurrentAttemptID t = (if n = 0 then '''' else AttemptIDFor (TaskRunIDFor (run_id run) k) n) \<and>
         task_status_valid status \<and> run_createdAt run \<le> tr_UpdatedAt t \<and> tr_UpdatedAt t \<le> run_updatedAt run \<and>
         (status = TaskRunPending \<longrightarrow> n = 0) \<and>
         (status \<in> {TaskRunReady, TaskRunRetryWaiting} \<longrightarrow> n < limit) \<and>
         (status \<in> {TaskRunRunning, TaskRunRetryWaiting, TaskRunSucceeded, TaskRunFailed} \<longrightarrow> 0 < n) \<and>
         (status = TaskRunRunning \<longrightarrow> run_createdAt run \<le> tr_StartedAt t) \<and>
         (terminal status \<longrightarrow> run_createdAt run \<le> tr_FinishedAt t) \<and>
         (if status = TaskRunRetryWaiting then run_createdAt run < tr_NextAttemptAt t else tr_NextAttemptAt t = 0) \<and>
         (\<forall>lease. tr_Lease t = Some lease \<longrightarrow>
            status = TaskRunRunning \<and> validIdentifier (tl_WorkerID lease) \<and>
            tl_TaskRunID lease = TaskRunIDFor (run_id run) k \<and> tl_AttemptID lease = tr_CurrentAttemptID t \<and>
            run_createdAt run < tl_ExpiresAt lease))"

definition run_leases :: "WorkflowRun \<Rightarrow> TaskID \<Rightarrow> TaskLease \<Rightarrow> bool" where
  "run_leases run k lease \<longleftrightarrow> (\<exists>t. mget (run_tasks run) k = Some t \<and> tr_Lease t = Some lease)"

definition run_inv :: "WorkflowRun \<Rightarrow> bool" where
  "run_inv run \<longleftrightarrow>
     validIdentifier (run_id run) \<and> 0 < run_createdAt run \<and> run_createdAt run \<le> run_updatedAt run \<and>
     workflow_status_valid (run_status run) \<and>
     workflow_Validate (run_definition run) = Inr () \<and> cloneDefinition (run_definition run) = run_definition run \<and>
     wf_map (run_tasks run) \<and> set (mkeys (run_tasks run)) = set (task_ids (run_definition run)) \<and>
     wf_map (run_workers run) \<and>
     (\<forall>k t. mget (run_tasks run) k = Some t \<longrightarrow> task_inv run k t) \<and>
     (\<forall>w h. mget (run_workers run) w = Some h \<longrightarrow>
        wh_WorkerID h = w \<and> validIdentifier w \<and> run_createdAt run \<le> wh_LastHeartbeatAt h) \<and>
     (\<forall>k lease. run_leases run k lease \<longrightarrow> mhas (run_workers run) (tl_WorkerID lease))"

lemma find_retry_policy_valid:
  "(\<And>t. t \<in> set ts \<Longrightarrow> invalidRetryPolicyReason (td_Retry t) = '''') \<Longrightarrow>
   invalidRetryPolicyReason (find_retry_policy k ts) = ''''"
proof (induction k ts rule: find_retry_policy.induct)
  case (1 k)
  then show ?case by (simp add: invalidRetryPolicyReason_def)
qed simp

lemma retryPolicy_valid:
  "workflow_Validate (run_definition run) = Inr () \<Longrightarrow> invalidRetryPolicyReason (retryPolicyLocked run k) = ''''"
  unfolding retryPolicyLocked_def
  by (rule find_retry_policy_valid) (simp add: workflow_Validate_iff structurally_valid_def task_ok_def)

lemma rescheduled_inv:
  assumes "rescheduled (retryPolicyLocked run k) ts t t'" "invalidRetryPolicyReason (retryPolicyLocked run k) = ''''"
    "run_createdAt run \<le> ts"
  shows "tr_AttemptCount t < EffectiveMaxAttempts (retryPolicyLocked run k)"
    "tr_Status t' \<in> {TaskRunReady, TaskRunRetryWaiting}"
    "if tr_Status t' = TaskRunRetryWaiting then run_createdAt run < tr_NextAttemptAt t' else tr_NextAttemptAt t' = 0"
proof -
  let ?d = "RetryDelay (retryPolicyLocked run k) (tr_AttemptCount t)"
  have "0 < sint ?d" if "?d \<noteq> 0"
    using RetryDelay_nonneg [OF assms(2), of "tr_AttemptCount t"] that signed_eq_0_iff [of ?d]
    by (metis order_le_less)
  then have "run_createdAt run < time_add ts ?d" if "?d \<noteq> 0"
    using that assms(3) by (simp add: time_add_def)
  then show "tr_AttemptCount t < EffectiveMaxAttempts (retryPolicyLocked run k)"
    "tr_Status t' \<in> {TaskRunReady, TaskRunRetryWaiting}"
    "if tr_Status t' = TaskRunRetryWaiting then run_createdAt run < tr_NextAttemptAt t' else tr_NextAttemptAt t' = 0"
    using assms(1) by (auto simp: rescheduled_def zero_time_def)
qed

text \<open>Only these parts of the run matter for a task's invariant.\<close>

lemma task_inv_cong:
  assumes "run_id run' = run_id run" "run_definition run' = run_definition run" "run_createdAt run' = run_createdAt run"
    "run_updatedAt run \<le> run_updatedAt run'" "task_inv run k t"
  shows "task_inv run' k t"
  using assms unfolding task_inv_def Let_def retryPolicyLocked_def by auto

lemma task_step_inv:
  assumes "task_step run ts k t t'" "task_inv run k t" "workflow_Validate (run_definition run) = Inr ()"
    "run_updatedAt run \<le> ts" "run_createdAt run \<le> run_updatedAt run"
  shows "task_inv (run\<lparr>run_updatedAt := ts\<rparr>) k t'"
proof -
  have pol: "invalidRetryPolicyReason (retryPolicyLocked run k) = ''''" by (rule retryPolicy_valid [OF assms(3)])
  have c: "run_createdAt run \<le> ts" using assms(4,5) by simp
  have lim: "1 \<le> EffectiveMaxAttempts (retryPolicyLocked run k)" by (rule EffectiveMaxAttempts_pos [OF pol])
  have rp: "retryPolicyLocked (run\<lparr>run_updatedAt := ts\<rparr>) k = retryPolicyLocked run k" by (simp add: retryPolicyLocked_def)
  note d = task_inv_def Let_def rp terminal_def zero_time_def
  from assms(1,2) show ?thesis
  proof (induction rule: task_step.induct)
    case (mark_ready t)
    then show ?case using lim c by (auto simp: d)
  next
    case (cancel_task t cause)
    then show ?case using c by (auto simp: d cancel_task_run_def cancelable_def)
  next
    case (renew dur t w)
    then show ?case using c assms(4,5)
      by (cases "tr_Lease t") (auto simp: d renew_task_run_def time_add_def split: if_splits)
  next
    case (start_task t w dur)
    then show ?case using c by (auto simp: d time_add_def)
  next
    case (complete_task t tr w a out err oc t')
    note f = complete_task_run_fields [OF complete_task(2)]
    have run: "tr_Status t = TaskRunRunning" by (rule completion_matches_running [OF complete_task(1)])
    from f(10) show ?case
    proof
      assume "rescheduled (retryPolicyLocked run k) ts t t'"
      from rescheduled_inv [OF this pol c] show ?thesis using complete_task.prems run f(1-7) c by (auto simp: d)
    qed (use complete_task.prems run f(1-7) c in \<open>auto simp: d\<close>)
  next
    case (recover_task t r t')
    note f = recover_task_run_fields [OF recover_task(1)]
    have ids: "tr_TaskRunID t' = tr_TaskRunID t" "tr_CurrentAttemptID t' = tr_CurrentAttemptID t"
    proof -
      have "tr_CurrentAttemptID t = (if tr_AttemptCount t = 0 then '''' else AttemptIDFor (TaskRunIDFor (run_id run) k) (tr_AttemptCount t))"
        using recover_task.prems by (simp add: task_inv_def Let_def)
      then have "\<not> (tr_CurrentAttemptID t = '''' \<and> 0 < tr_AttemptCount t)" by simp
      then show "tr_TaskRunID t' = tr_TaskRunID t" "tr_CurrentAttemptID t' = tr_CurrentAttemptID t" using f(8) by blast+
    qed
    from f(9) show ?case
    proof
      assume "rescheduled (retryPolicyLocked run k) ts t t'"
      from rescheduled_inv [OF this pol c] show ?thesis using recover_task.prems ids f(1-6) c by (auto simp: d)
    qed (use recover_task.prems ids f(1-6) c in \<open>auto simp: d\<close>)
  next
    case (promote_task t)
    then show ?case using c by (auto simp: d promote_task_run_def retry_due_def)
  qed
qed

lemma run_step_workers:
  assumes "run_step run e run'"
  shows "run_workers run' = run_workers run \<or>
    (\<exists>w h. run_workers run' = mput w h (run_workers run) \<and> wh_WorkerID h = w \<and> validIdentifier w \<and>
       run_updatedAt run \<le> wh_LastHeartbeatAt h)"
  using assms
proof (cases rule: run_step.cases)
  case (heartbeat now w d)
  from heartbeat(2) show ?thesis
    by (rule recordWorkerHeartbeat_InrE) (intro disjI2 exI [of _ w]
      exI [of _ "\<lparr>wh_WorkerID = w, wh_LastHeartbeatAt = nextTimestampLocked run now\<rparr>"], simp add: nextTimestamp_ge)
next
  case (start now t w d a)
  from start(2) show ?thesis
    by (rule startTaskAttempt_InrE) (intro disjI2 exI [of _ w]
      exI [of _ "\<lparr>wh_WorkerID = w, wh_LastHeartbeatAt = nextTimestampLocked run now\<rparr>"], simp add: nextTimestamp_ge)
next
  case (complete now t tr w a out err outcome)
  from complete(2) show ?thesis by (rule completeTaskAttempt_InrE) auto
qed (auto simp: transitionTask_def transitionWorkflow_def cancelUnfinished_def recoverExpiredLeases_def
      promoteDueRetries_def setPersistedVersion_def Let_def split: option.splits if_splits)

text \<open>Where the leases after a step come from: from the same worker's lease before, or from a start.\<close>

lemma task_step_lease:
  "\<lbrakk>task_step run ts k t t'; tr_Lease t' = Some l'\<rbrakk> \<Longrightarrow>
   (\<exists>l. tr_Lease t = Some l \<and> tl_WorkerID l' = tl_WorkerID l) \<or> (tr_Status t = TaskRunReady \<and> tr_Status t' = TaskRunRunning)"
proof (induction rule: task_step.induct)
  case (renew d t w)
  then show ?case by (auto simp: renew_task_run_def split: option.splits if_splits)
next
  case (complete_task t tr w a out err oc t')
  then show ?case using complete_task_run_fields(5) [OF complete_task(2)] by simp
next
  case (recover_task t r t')
  then show ?case using recover_task_run_fields(4) [OF recover_task(1)] by simp
qed (auto simp: cancel_task_run_def promote_task_run_def)

lemma run_step_lease:
  assumes "run_step run e run'" "run_leases run' k l'"
  shows "(\<exists>l. run_leases run k l \<and> tl_WorkerID l' = tl_WorkerID l) \<or> (\<exists>a. e = EvStart k a (tl_WorkerID l'))"
proof (cases "\<exists>tid a w. e = EvStart tid a w")
  case True
  then obtain now tid w d a where e: "e = EvStart tid a w" and s: "startTaskAttempt run now tid w d = Inr (a, run')"
    using assms(1) by (auto elim: run_step.cases)
  from s show ?thesis
    by (rule startTaskAttempt_InrE) (use assms(2) e in \<open>auto simp: run_leases_def go_map split: if_splits\<close>)
next
  case False
  obtain t' where t': "mget (run_tasks run') k = Some t'" "tr_Lease t' = Some l'"
    using assms(2) by (auto simp: run_leases_def)
  have not_start: "\<not> (tr_Status t = TaskRunReady \<and> tr_Status t' = TaskRunRunning)" if "mget (run_tasks run) k = Some t" for t
    using assms(1) that t'(1) False
  proof (cases rule: run_step.cases)
    case (heartbeat now w d)
    from heartbeat(2) show ?thesis by (rule recordWorkerHeartbeat_InrE) (use that t'(1) in \<open>auto simp: go_map\<close>)
  next
    case (complete now tid tr w a out err outcome)
    from complete(2) show ?thesis
      by (rule completeTaskAttempt_InrE)
         (use that t'(1) in \<open>auto simp: go_map completion_matches_def split: if_splits\<close>)
  next
    case (recover now rs)
    then show ?thesis using that t'(1)
      by (auto simp: recoverExpiredLeases_def recovered_task_run_def recover_task_run_def Let_def go_map split: option.splits)
  qed (auto simp: transitionTask_def transitionWorkflow_def cancelUnfinished_def cancel_task_run_def
      promoteDueRetries_def promote_task_run_def setPersistedVersion_def Let_def go_map split: option.splits if_splits)
  obtain t where t: "mget (run_tasks run) k = Some t" using run_step_keys [OF assms(1) t'(1)] .
  have "t' = t \<or> task_step run (run_updatedAt run') k t t'" using run_step_task_step [OF assms(1) t] t'(1) by simp
  then show ?thesis
  proof
    assume s: "task_step run (run_updatedAt run') k t t'"
    from task_step_lease [OF s t'(2)] not_start [OF t] show ?thesis
      using t unfolding run_leases_def by blast
  qed (use t t'(2) in \<open>auto simp: run_leases_def\<close>)
qed

lemma run_invD:
  assumes "run_inv run"
  shows "validIdentifier (run_id run)" "0 < run_createdAt run" "run_createdAt run \<le> run_updatedAt run"
    "workflow_Validate (run_definition run) = Inr ()" "cloneDefinition (run_definition run) = run_definition run"
    "wf_map (run_tasks run)" "set (mkeys (run_tasks run)) = set (task_ids (run_definition run))" "wf_map (run_workers run)"
    "mget (run_tasks run) k = Some t \<Longrightarrow> task_inv run k t"
    "mget (run_workers run) w = Some h \<Longrightarrow> wh_WorkerID h = w \<and> validIdentifier w \<and> run_createdAt run \<le> wh_LastHeartbeatAt h"
    "run_leases run k lease \<Longrightarrow> mhas (run_workers run) (tl_WorkerID lease)"
    "workflow_status_valid (run_status run)"
  using assms by (simp_all add: run_inv_def)

lemma run_step_status:
  assumes "run_step run e run'" "workflow_status_valid (run_status run)"
  shows "workflow_status_valid (run_status run')"
proof -
  have legal: "legalWorkflowTransition a b \<Longrightarrow> workflow_status_valid b" for a b by (cases a) auto
  from assms(1) show ?thesis
  proof (cases rule: run_step.cases)
    case (complete now tid tr w a out err outcome)
    from complete(2) show ?thesis by (rule completeTaskAttempt_InrE) (use assms(2) in auto)
  next
    case (flow now s)
    then show ?thesis using legal by (auto simp: transitionWorkflow_def split: if_splits)
  qed (use assms(2) in \<open>auto simp: transitionTask_def cancelUnfinished_def recordWorkerHeartbeat_def startTaskAttempt_def
        recoverExpiredLeases_def promoteDueRetries_def setPersistedVersion_def Let_def split: option.splits if_splits\<close>)
qed

lemma wf_map_mkeys: "mkeys m' = mkeys m \<Longrightarrow> wf_map m' = wf_map m"
  by (simp add: wf_map_def mkeys_def)

lemma run_step_inv:
  assumes step: "run_step run e run'" and inv: "run_inv run"
  shows "run_inv run'"
proof -
  note id = run_step_id [OF step] and i = run_invD [OF inv]
  have tasks: "task_inv run' k t'" if t': "mget (run_tasks run') k = Some t'" for k t'
  proof -
    obtain t where t: "mget (run_tasks run) k = Some t" using run_step_keys [OF step t'] .
    have "t' = t \<or> task_step run (run_updatedAt run') k t t'" using run_step_task_step [OF step t] t' by simp
    then have "task_inv (run\<lparr>run_updatedAt := run_updatedAt run'\<rparr>) k t'"
    proof
      assume "t' = t"
      with i(9) [OF t] id(5) show ?thesis by (auto intro: task_inv_cong [where run = run])
    next
      assume "task_step run (run_updatedAt run') k t t'"
      then show ?thesis by (rule task_step_inv [OF _ i(9) [OF t] i(4) id(5) i(3)])
    qed
    then show ?thesis by (rule task_inv_cong [rotated 4]) (simp_all add: id)
  qed
  have workers: "wh_WorkerID h = w \<and> validIdentifier w \<and> run_createdAt run \<le> wh_LastHeartbeatAt h"
    if "mget (run_workers run') w = Some h" for w h
    using run_step_workers [OF step] that i(3,10) by (auto simp: go_map split: if_splits)
  have wf: "wf_map (run_workers run')" using run_step_workers [OF step] i(8) by auto
  have has: "mhas (run_workers run) w \<Longrightarrow> mhas (run_workers run') w" for w
    using run_step_workers [OF step] by auto
  have "mhas (run_workers run') (tl_WorkerID l')" if "run_leases run' k l'" for k l'
    using run_step_lease [OF step that]
  proof
    assume "\<exists>l. run_leases run k l \<and> tl_WorkerID l' = tl_WorkerID l"
    then show ?thesis using i(11) has by auto
  next
    assume "\<exists>a. e = EvStart k a (tl_WorkerID l')"
    then obtain now d a where "startTaskAttempt run now k (tl_WorkerID l') d = Inr (a, run')"
      using step by (auto elim: run_step.cases)
    then show ?thesis by (rule startTaskAttempt_InrE) simp
  qed
  moreover have "wf_map (run_tasks run')" using wf_map_mkeys [OF id(4)] i(6) by simp
  ultimately show ?thesis
    using i id tasks workers wf run_step_status [OF step] unfolding run_inv_def by simp
qed

lemma run_trace_inv: "\<lbrakk>run_trace run es run'; run_inv run\<rbrakk> \<Longrightarrow> run_inv run'"
  by (induction rule: run_trace.induct) (auto intro: run_step_inv)

lemma cloneDefinition_idem [simp]: "cloneDefinition (cloneDefinition definition) = cloneDefinition definition"
  by (simp add: cloneDefinition_def)

lemma task_ids_clone [simp]: "task_ids (cloneDefinition definition) = task_ids definition"
  by (simp add: task_ids_def cloneDefinition_def)

lemma deps_of_clone: "deps_of (cloneDefinition definition) t = deps_of definition t"
proof -
  have "mget_or zero_TaskDefinition (map (\<lambda>task. (td_ID task, task)) (map (\<lambda>task. task\<lparr>td_Dependencies := append_nil (elems (td_Dependencies task))\<rparr>) ts)) t
      = (let task = mget_or zero_TaskDefinition (map (\<lambda>task. (td_ID task, task)) ts) t
         in task\<lparr>td_Dependencies := append_nil (elems (td_Dependencies task))\<rparr>)" for ts
    by (induction ts) (auto simp: mget_or_def Let_def zero_TaskDefinition_def append_nil_def)
  then show ?thesis by (simp add: deps_of_def task_at_def task_table_def cloneDefinition_def Let_def)
qed

lemma workflow_Validate_clone: "workflow_Validate (cloneDefinition definition) = Inr () \<longleftrightarrow> workflow_Validate definition = Inr ()"
proof -
  have "dep_rel (cloneDefinition definition) = dep_rel definition" by (simp add: dep_rel_def deps_of_clone)
  moreover have "structurally_valid (cloneDefinition definition) = structurally_valid definition"
    unfolding structurally_valid_def task_ids_clone
    by (simp add: cloneDefinition_def task_ok_def deps_ok_def)
  ultimately show ?thesis by (simp add: workflow_Validate_iff)
qed

lemma newWorkflowRun_inv:
  assumes "newWorkflowRun runID definition now = Inr run" "0 < now"
  shows "run_inv run"
  using assms(1)
proof (rule newWorkflowRun_InrE)
  assume v: "validRunID runID" "workflow_Validate definition = Inr ()"
    and run: "run = \<lparr>run_id = runID, run_definition = cloneDefinition definition, run_version = 0,
            run_status = WorkflowRunPending, run_tasks = map (\<lambda>t. (t, new_task_run runID now t)) (task_ids definition),
            run_workers = [], run_createdAt = now, run_updatedAt = now\<rparr>"
  have "workflow_Validate (run_definition run) = Inr ()" using v by (simp add: run workflow_Validate_clone)
  then have lim: "1 \<le> EffectiveMaxAttempts (retryPolicyLocked run k)" for k
    by (intro EffectiveMaxAttempts_pos retryPolicy_valid)
  have t: "mget (run_tasks run) k = Some t \<Longrightarrow> t = new_task_run runID now k" for k t
    by (auto simp: run dest!: map_of_SomeD)
  have "task_inv run k (new_task_run runID now k)" for k
    using lim [of k] by (simp add: task_inv_def Let_def new_task_run_def terminal_def zero_time_def run)
  then have tasks: "mget (run_tasks run) k = Some t \<Longrightarrow> task_inv run k t" for k t using t by blast
  have "distinct (task_ids definition)"
    using v(2) by (simp add: workflow_Validate_iff structurally_valid_def)
  then have "wf_map (run_tasks run)" by (simp add: run wf_map_def comp_def)
  moreover have "mkeys (run_tasks run) = task_ids definition" by (simp add: run mkeys_def comp_def)
  moreover have "\<not> run_leases run k l" for k l
    using t unfolding run_leases_def by (metis new_task_run_def TaskRun.select_convs(9) option.distinct(1))
  moreover have "run_id run = runID" "run_createdAt run = now" "run_updatedAt run = now" "run_workers run = []"
    "run_definition run = cloneDefinition definition" "run_status run = WorkflowRunPending"
    by (simp_all add: run)
  ultimately show ?thesis
    using v assms(2) tasks by (simp add: run_inv_def workflow_Validate_clone validRunID_def)
qed

text \<open>C24: whatever sequence of operations a new run goes through, no task is ever started more often
  than its retry policy allows, and a ready or waiting task still has an attempt left.\<close>

theorem attempts_bounded:
  assumes "newWorkflowRun runID definition now = Inr run" "0 < now" "run_trace run es run'"
    "mget (run_tasks run') k = Some t"
  shows "0 \<le> tr_AttemptCount t \<and> tr_AttemptCount t \<le> EffectiveMaxAttempts (retryPolicyLocked run' k) \<and>
    (tr_Status t \<in> {TaskRunReady, TaskRunRetryWaiting} \<longrightarrow> tr_AttemptCount t < EffectiveMaxAttempts (retryPolicyLocked run' k))"
  using run_invD(9) [OF run_trace_inv [OF assms(3) newWorkflowRun_inv [OF assms(1,2)]] assms(4)]
  by (auto simp: task_inv_def Let_def)

end
