(* ===== verification/FF_FileStore.thy ===== *)
theory FF_FileStore
  imports FF_Security FF_Snapshot
begin

text \<open>
  The embedded store, \<open>internal/persistence/file_store.go\<close>: maps in memory backed by an append-only
  journal. The contents of the journal file are part of the state. \<open>encoding/json\<close> and SHA-256 enter as a
  \<open>journal_codec\<close>, and what the operating system answers as an \<open>append_io\<close> or \<open>replay_io\<close>, so that every
  failing system call is a branch. The mutex makes every method atomic. A context that is consulted
  twice is two arguments.
\<close>

section \<open>Data\<close>

record journalRecord =
  jr_Version :: int
  jr_Operation :: string
  jr_Workflow :: "WorkflowDefinition option"
  jr_Run :: "WorkflowRunSnapshot option"
  jr_User :: "User option"
  jr_Project :: "Project option"
  jr_Membership :: "Membership option"
  jr_Ownership :: "WorkflowOwnership option"
  jr_AuditEvent :: "AuditEvent option"

record FileStore =
  fs_file :: string
  fs_workflows :: "(WorkflowID, WorkflowDefinition) gomap"
  fs_runs :: "(RunID, WorkflowRunSnapshot) gomap"
  fs_users :: "(UserID, User) gomap"
  fs_projects :: "(ProjectID, Project) gomap"
  fs_memberships :: "(ProjectID, (UserID, Membership) gomap) gomap"
  fs_ownerships :: "(WorkflowID, WorkflowOwnership) gomap"
  fs_auditEvents :: "(ProjectID, AuditEvent list) gomap"
  fs_auditIDs :: "(AuditEventID, unit) gomap"

text \<open>\<open>json.Marshal\<close> and \<open>json.Unmarshal\<close> of records and of envelopes (checksum and payload), and the
  hexadecimal SHA-256 digest.\<close>

record journal_codec =
  cd_marshal :: "journalRecord \<Rightarrow> go_error + string"
  cd_unmarshal :: "string \<Rightarrow> go_error + journalRecord"
  cd_wrap :: "string \<times> string \<Rightarrow> go_error + string"
  cd_unwrap :: "string \<Rightarrow> go_error + string \<times> string"
  cd_digest :: "string \<Rightarrow> string"

text \<open>What the system calls of one append answer: opening, each \<open>Write\<close> (bytes taken and error; further calls
  take everything), \<open>Sync\<close> and \<open>Close\<close>.\<close>

record append_io =
  ai_open :: "go_error option"
  ai_writes :: "(nat \<times> go_error option) list"
  ai_sync :: "go_error option"
  ai_close :: "go_error option"

text \<open>The same for a replay; a read fails when it passes a given offset.\<close>

record replay_io =
  ri_open :: "go_error option"
  ri_read :: "(nat \<times> go_error) option"
  ri_truncate :: "go_error option"
  ri_sync :: "go_error option"
  ri_close :: "go_error option"

definition journalVersion :: int where
  "journalVersion = 1"

definition operationSaveWorkflow :: string where "operationSaveWorkflow = ''save_workflow''"
definition operationCreateRun :: string where "operationCreateRun = ''create_run''"
definition operationSaveRun :: string where "operationSaveRun = ''save_run''"
definition operationCreateProject :: string where "operationCreateProject = ''create_project''"
definition operationSaveProject :: string where "operationSaveProject = ''save_project''"
definition operationPutMembership :: string where "operationPutMembership = ''put_membership''"
definition operationSaveOwnedWorkflow :: string where "operationSaveOwnedWorkflow = ''save_owned_workflow''"

definition zero_record :: "string \<Rightarrow> journalRecord" where
  "zero_record operation = \<lparr>jr_Version = journalVersion, jr_Operation = operation, jr_Workflow = None, jr_Run = None,
     jr_User = None, jr_Project = None, jr_Membership = None, jr_Ownership = None, jr_AuditEvent = None\<rparr>"

definition empty_store :: "string \<Rightarrow> FileStore" where
  "empty_store file = \<lparr>fs_file = file, fs_workflows = [], fs_runs = [], fs_users = [], fs_projects = [],
     fs_memberships = [], fs_ownerships = [], fs_auditEvents = [], fs_auditIDs = []\<rparr>"

section \<open>Helpers\<close>

definition store_contextError :: "go_context \<Rightarrow> go_error option" where
  "store_contextError ctx = (case ctx of
       NilContext \<Rightarrow> Some (errors_New ''ForgeFlow store context is nil'')
     | Context None \<Rightarrow> None
     | Context (Some err) \<Rightarrow> Some (Wrapf ''ForgeFlow store operation: %w'' [] err))"

definition checkE :: "go_error option \<Rightarrow> go_error + unit" where
  "checkE err = (case err of None \<Rightarrow> Inr () | Some e \<Rightarrow> Inl e)"

definition errors_Join :: "go_error option list \<Rightarrow> go_error option" where
  "errors_Join errs = (case List.map_filter id errs of [] \<Rightarrow> None | es \<Rightarrow> Some (JoinedError es))"

fun writeAll :: "(nat \<times> go_error option) list \<Rightarrow> string \<Rightarrow> string \<times> go_error option" where
  "writeAll writes [] = ([], None)"
| "writeAll [] data = (data, None)"
| "writeAll ((written, Some err) # writes) data = (take written data, Some err)"
| "writeAll ((written, None) # writes) data =
     (if written = 0 then ([], Some (errors_New ''short write''))
      else case writeAll writes (drop written data) of (later, err) \<Rightarrow> (take written data @ later, err))"

definition fs_cloneDefinition :: "WorkflowDefinition \<Rightarrow> WorkflowDefinition" where
  "fs_cloneDefinition definition =
     definition\<lparr>wd_Tasks := map (\<lambda>task. task\<lparr>td_Dependencies := append_nil (elems (td_Dependencies task))\<rparr>) (wd_Tasks definition)\<rparr>"

definition cloneSnapshot :: "WorkflowRunSnapshot \<Rightarrow> WorkflowRunSnapshot" where
  "cloneSnapshot snapshot =
     snapshot\<lparr>ws_Tasks := map (\<lambda>task. case tr_Lease task of None \<Rightarrow> task | Some lease \<Rightarrow> task\<lparr>tr_Lease := Some lease\<rparr>) (ws_Tasks snapshot)\<rparr>"

definition cloneSecurityAuditEvent :: "AuditEvent \<Rightarrow> AuditEvent" where
  "cloneSecurityAuditEvent event = (case ae_Metadata event of
       None \<Rightarrow> event
     | Some metadata \<Rightarrow> event\<lparr>ae_Metadata := Some (fold (\<lambda>(key, value). mput key value) metadata [])\<rparr>)"

definition newline :: char where
  "newline = CHR 0x0A"

section \<open>The journal\<close>

definition appendRecord :: "journal_codec \<Rightarrow> append_io \<Rightarrow> FileStore \<Rightarrow> journalRecord \<Rightarrow> go_error option \<times> FileStore" where
  "appendRecord codec io store rec =
     (case cd_marshal codec rec of
        Inl err \<Rightarrow> (Some (Wrapf ''encode ForgeFlow journal record: %w'' [] err), store)
      | Inr payload \<Rightarrow>
     (case cd_wrap codec (cd_digest codec payload, payload) of
        Inl err \<Rightarrow> (Some (Wrapf ''encode ForgeFlow journal envelope: %w'' [] err), store)
      | Inr envelope \<Rightarrow>
     (case ai_open io of
        Some err \<Rightarrow> (Some (Wrapf ''open ForgeFlow journal for append: %w'' [] err), store)
      | None \<Rightarrow>
          let encoded = envelope @ [newline];
              (written, writeErr) = writeAll (ai_writes io) encoded;
              syncErr = (case writeErr of None \<Rightarrow> ai_sync io | Some _ \<Rightarrow> None);
              store = store\<lparr>fs_file := fs_file store @ written\<rparr>
          in case errors_Join [writeErr, syncErr, ai_close io] of
               Some err \<Rightarrow> (Some (Wrapf ''commit ForgeFlow journal record: %w'' [] err), store)
             | None \<Rightarrow> (None, store))))"

definition validateRunDefinition :: "FileStore \<Rightarrow> WorkflowRunSnapshot \<Rightarrow> go_error + unit" where
  "validateRunDefinition store snapshot =
     (case mget (fs_workflows store) (ws_WorkflowID snapshot) of
        None \<Rightarrow> Inl (WorkflowNotFoundError (ws_WorkflowID snapshot))
      | Some definition \<Rightarrow>
          (case restoreWorkflowRun snapshot definition of
             Inl err \<Rightarrow> Inl (Wrapf ''validate workflow run against definition: %w'' [] err)
           | Inr _ \<Rightarrow> Inr ()))"

definition validateProjectCreation :: "go_context \<Rightarrow> User \<Rightarrow> Project \<Rightarrow> Membership \<Rightarrow> AuditEvent \<Rightarrow> go_error + unit" where
  "validateProjectCreation ctx user project membership event =
     bindE (checkE (store_contextError ctx)) (\<lambda>_.
     bindE (wrapE (Wrapf ''create project user: %w'' []) (user_Validate user)) (\<lambda>_.
     bindE (wrapE (Wrapf ''create project: %w'' []) (project_Validate project)) (\<lambda>_.
     bindE (wrapE (Wrapf ''create project membership: %w'' []) (membership_Validate membership)) (\<lambda>_.
     bindE (wrapE (Wrapf ''create project audit event: %w'' []) (audit_Validate event)) (\<lambda>_.
       guardE (pj_CreatedBy project \<noteq> us_ID user \<or> mem_ProjectID membership \<noteq> pj_ID project \<or>
               mem_UserID membership \<noteq> us_ID user \<or> mem_Role membership \<noteq> RoleAdmin \<or>
               ae_ProjectID event \<noteq> pj_ID project \<or> ae_ActorUserID event \<noteq> us_ID user)
         (errors_New ''create project: creator, initial admin, or audit identity does not match''))))))"

definition membership_of :: "FileStore \<Rightarrow> ProjectID \<Rightarrow> UserID \<Rightarrow> Membership option" where
  "membership_of store projectID userID = mget (mget_or [] (fs_memberships store) projectID) userID"

text \<open>The checks of \<open>applySecurityRecord\<close> come before its updates.\<close>

definition security_record_error :: "FileStore \<Rightarrow> journalRecord \<Rightarrow> go_error + unit" where
  "security_record_error store rec =
     bindE (case jr_AuditEvent rec of None \<Rightarrow> Inr ()
            | Some event \<Rightarrow> bindE (audit_Validate event) (\<lambda>_.
                guardE (mhas (fs_auditIDs store) (ae_ID event)) (AuditEventAlreadyExistsError (ae_ID event)))) (\<lambda>_.
       case jr_User rec of None \<Rightarrow> Inr ()
       | Some user \<Rightarrow> (case mget (fs_users store) (us_ID user) of None \<Rightarrow> Inr ()
            | Some existing \<Rightarrow> guardE (us_Disabled existing \<noteq> us_Disabled user)
                (Errorf ''user %q immutable disabled state differs'' [FStr (us_ID user)])))"

text \<open>Its updates, one per part the record may carry.\<close>

definition put_user :: "FileStore \<Rightarrow> User option \<Rightarrow> FileStore" where
  "put_user store u = (case u of None \<Rightarrow> store
     | Some user \<Rightarrow> if mhas (fs_users store) (us_ID user) then store
         else store\<lparr>fs_users := mput (us_ID user) user (fs_users store)\<rparr>)"

definition put_project :: "FileStore \<Rightarrow> Project option \<Rightarrow> FileStore" where
  "put_project store p = (case p of None \<Rightarrow> store
     | Some project \<Rightarrow> store\<lparr>fs_projects := mput (pj_ID project) project (fs_projects store)\<rparr>)"

definition put_membership :: "FileStore \<Rightarrow> Membership option \<Rightarrow> FileStore" where
  "put_membership store m = (case m of None \<Rightarrow> store
     | Some membership \<Rightarrow> store\<lparr>fs_memberships := mput (mem_ProjectID membership)
         (mput (mem_UserID membership) membership (mget_or [] (fs_memberships store) (mem_ProjectID membership)))
         (fs_memberships store)\<rparr>)"

definition put_workflow :: "FileStore \<Rightarrow> WorkflowDefinition option \<Rightarrow> FileStore" where
  "put_workflow store d = (case d of None \<Rightarrow> store
     | Some definition \<Rightarrow> store\<lparr>fs_workflows := mput (wd_ID definition) (fs_cloneDefinition definition) (fs_workflows store)\<rparr>)"

definition put_ownership :: "FileStore \<Rightarrow> WorkflowOwnership option \<Rightarrow> FileStore" where
  "put_ownership store ow = (case ow of None \<Rightarrow> store
     | Some ownership \<Rightarrow> store\<lparr>fs_ownerships := mput (ow_WorkflowID ownership) ownership (fs_ownerships store)\<rparr>)"

definition put_audit :: "FileStore \<Rightarrow> AuditEvent option \<Rightarrow> FileStore" where
  "put_audit store e = (case e of None \<Rightarrow> store
     | Some event \<Rightarrow>
         let event = cloneSecurityAuditEvent event
         in store\<lparr>fs_auditEvents := mput (ae_ProjectID event)
                    (mget_or [] (fs_auditEvents store) (ae_ProjectID event) @ [event]) (fs_auditEvents store),
                  fs_auditIDs := mput (ae_ID event) () (fs_auditIDs store)\<rparr>)"

definition applySecurityRecord :: "FileStore \<Rightarrow> journalRecord \<Rightarrow> go_error + FileStore" where
  "applySecurityRecord store rec =
     bindE (security_record_error store rec) (\<lambda>_.
       let store = put_user store (jr_User rec);
           store = put_project store (jr_Project rec);
           store = put_membership store (jr_Membership rec);
           store = put_workflow store (jr_Workflow rec);
           store = put_ownership store (jr_Ownership rec)
       in Inr (put_audit store (jr_AuditEvent rec)))"

text \<open>The two run records of \<open>applyRecord\<close>. A record without a version is from an older journal and gets
  the next one.\<close>

definition applyRunRecord :: "FileStore \<Rightarrow> string \<Rightarrow> WorkflowRunSnapshot \<Rightarrow> go_error + FileStore" where
  "applyRunRecord store operation snapshot =
     (let run = cloneSnapshot snapshot;
          current = mget (fs_runs store) (ws_ID run);
          run = (if ws_Version run = 0
                 then run\<lparr>ws_Version := (case current of None \<Rightarrow> 1 | Some c \<Rightarrow> ws_Version c + 1)\<rparr> else run);
          want = (case current of None \<Rightarrow> 0 | Some c \<Rightarrow> ws_Version c) + 1
      in bindE (wrapE (Wrapf ''replay ForgeFlow workflow run: %w'' []) (snapshot_Validate run)) (\<lambda>_.
         bindE (wrapE (Wrapf ''replay ForgeFlow workflow run: %w'' []) (validateRunDefinition store run)) (\<lambda>_.
           if operation = operationCreateRun \<and> \<not> Option.is_none current then Inl (RunAlreadyExistsError (ws_ID run))
           else if operation = operationSaveRun \<and> Option.is_none current then Inl (RunNotFoundError (ws_ID run))
           else if operation = operationCreateRun \<and> ws_Version run \<noteq> 1
           then Inl (Errorf ''replay ForgeFlow workflow run %q: create version is %d, want 1'' [FStr (ws_ID run), FNum (uint (ws_Version run))])
           else if operation = operationSaveRun \<and> ws_Version run \<noteq> want
           then Inl (Errorf ''replay ForgeFlow workflow run %q: version is %d, want %d''
                       [FStr (ws_ID run), FNum (uint (ws_Version run)), FNum (uint want)])
           else Inr (store\<lparr>fs_runs := mput (ws_ID run) run (fs_runs store)\<rparr>))))"

definition applyWorkflowRecord :: "FileStore \<Rightarrow> WorkflowDefinition \<Rightarrow> go_error + FileStore" where
  "applyWorkflowRecord store definition =
     bindE (wrapE (Wrapf ''replay ForgeFlow workflow definition: %w'' []) (lift_validation (workflow_Validate definition))) (\<lambda>_.
       case mget (fs_workflows store) (wd_ID definition) of
         Some existing \<Rightarrow>
           if existing \<noteq> definition then Inl (WorkflowConflictError (wd_ID definition))
           else Inr (store\<lparr>fs_workflows := mput (wd_ID definition) (fs_cloneDefinition definition) (fs_workflows store)\<rparr>)
       | None \<Rightarrow> Inr (store\<lparr>fs_workflows := mput (wd_ID definition) (fs_cloneDefinition definition) (fs_workflows store)\<rparr>))"

definition applyCreateProject :: "FileStore \<Rightarrow> journalRecord \<Rightarrow> User \<Rightarrow> Project \<Rightarrow> Membership \<Rightarrow> AuditEvent \<Rightarrow> go_error + FileStore" where
  "applyCreateProject store rec user project membership event =
     bindE (wrapE (Wrapf ''replay ForgeFlow project: %w'' []) (validateProjectCreation (Context None) user project membership event)) (\<lambda>_.
       if mhas (fs_projects store) (pj_ID project) then Inl (ProjectAlreadyExistsError (pj_ID project))
       else applySecurityRecord store rec)"

definition applySaveProject :: "FileStore \<Rightarrow> journalRecord \<Rightarrow> Project \<Rightarrow> AuditEvent \<Rightarrow> go_error + FileStore" where
  "applySaveProject store rec project event =
     bindE (wrapE (Wrapf ''replay ForgeFlow project: %w'' []) (project_Validate project)) (\<lambda>_.
       if \<not> mhas (fs_projects store) (pj_ID project) then Inl (ProjectNotFoundError (pj_ID project))
       else if ae_ProjectID event \<noteq> pj_ID project then Inl (errors_New ''replay ForgeFlow project: audit project does not match'')
       else applySecurityRecord store rec)"

definition applyPutMembership :: "FileStore \<Rightarrow> journalRecord \<Rightarrow> User \<Rightarrow> Membership \<Rightarrow> AuditEvent \<Rightarrow> go_error + FileStore" where
  "applyPutMembership store rec user membership event =
     bindE (wrapE (Wrapf ''replay ForgeFlow membership user: %w'' []) (user_Validate user)) (\<lambda>_.
     bindE (wrapE (Wrapf ''replay ForgeFlow membership: %w'' []) (membership_Validate membership)) (\<lambda>_.
       if mem_UserID membership \<noteq> us_ID user \<or> ae_ProjectID event \<noteq> mem_ProjectID membership
       then Inl (errors_New ''replay ForgeFlow membership: identities do not match'')
       else if \<not> mhas (fs_projects store) (mem_ProjectID membership) then Inl (ProjectNotFoundError (mem_ProjectID membership))
       else applySecurityRecord store rec))"

definition applyOwnedWorkflow :: "FileStore \<Rightarrow> journalRecord \<Rightarrow> WorkflowDefinition \<Rightarrow> WorkflowOwnership \<Rightarrow> go_error + FileStore" where
  "applyOwnedWorkflow store rec definition ownership =
     bindE (wrapE (Wrapf ''replay ForgeFlow owned workflow: %w'' []) (lift_validation (workflow_Validate definition))) (\<lambda>_.
     bindE (wrapE (Wrapf ''replay ForgeFlow workflow ownership: %w'' []) (ownership_Validate ownership)) (\<lambda>_.
       if ow_WorkflowID ownership \<noteq> wd_ID definition
       then Inl (errors_New ''replay ForgeFlow owned workflow: ownership identity does not match'')
       else if \<not> mhas (fs_projects store) (ow_ProjectID ownership) then Inl (ProjectNotFoundError (ow_ProjectID ownership))
       else if membership_of store (ow_ProjectID ownership) (ow_OwnerUserID ownership) = None
       then Inl (errors_New ''replay ForgeFlow owned workflow: owner is not a project member'')
       else if (case mget (fs_workflows store) (wd_ID definition) of None \<Rightarrow> False | Some existing \<Rightarrow> existing \<noteq> definition)
       then Inl (WorkflowConflictError (wd_ID definition))
       else if (case mget (fs_ownerships store) (wd_ID definition) of None \<Rightarrow> False | Some existing \<Rightarrow> existing \<noteq> ownership)
       then Inl (WorkflowOwnershipConflictError (wd_ID definition))
       else applySecurityRecord store rec))"

definition applyRecord :: "FileStore \<Rightarrow> journalRecord \<Rightarrow> go_error + FileStore" where
  "applyRecord store rec =
     (if jr_Operation rec = operationSaveWorkflow then
        (case (jr_Workflow rec, jr_Run rec) of
           (Some definition, None) \<Rightarrow> applyWorkflowRecord store definition
         | _ \<Rightarrow> Inl (errors_New ''replay ForgeFlow journal: malformed workflow record''))
      else if jr_Operation rec = operationCreateRun \<or> jr_Operation rec = operationSaveRun then
        (case (jr_Run rec, jr_Workflow rec) of
           (Some run, None) \<Rightarrow> applyRunRecord store (jr_Operation rec) run
         | _ \<Rightarrow> Inl (errors_New ''replay ForgeFlow journal: malformed workflow run record''))
      else if jr_Operation rec = operationCreateProject then
        (case (jr_User rec, jr_Project rec, jr_Membership rec, jr_AuditEvent rec) of
           (Some user, Some project, Some membership, Some event) \<Rightarrow> applyCreateProject store rec user project membership event
         | _ \<Rightarrow> Inl (errors_New ''replay ForgeFlow journal: malformed create project record''))
      else if jr_Operation rec = operationSaveProject then
        (case (jr_Project rec, jr_AuditEvent rec) of
           (Some project, Some event) \<Rightarrow> applySaveProject store rec project event
         | _ \<Rightarrow> Inl (errors_New ''replay ForgeFlow journal: malformed save project record''))
      else if jr_Operation rec = operationPutMembership then
        (case (jr_User rec, jr_Membership rec, jr_AuditEvent rec) of
           (Some user, Some membership, Some event) \<Rightarrow> applyPutMembership store rec user membership event
         | _ \<Rightarrow> Inl (errors_New ''replay ForgeFlow journal: malformed membership record''))
      else if jr_Operation rec = operationSaveOwnedWorkflow then
        (case (jr_Workflow rec, jr_Ownership rec) of
           (Some definition, Some ownership) \<Rightarrow> applyOwnedWorkflow store rec definition ownership
         | _ \<Rightarrow> Inl (errors_New ''replay ForgeFlow journal: malformed owned workflow record''))
      else Inl (Errorf ''replay ForgeFlow journal: unknown operation %q'' [FStr (jr_Operation rec)]))"

definition replayLine :: "journal_codec \<Rightarrow> FileStore \<Rightarrow> string \<Rightarrow> go_error + FileStore" where
  "replayLine codec store line =
     (case cd_unwrap codec line of
        Inl err \<Rightarrow> Inl (Wrapf ''decode ForgeFlow journal envelope: %w'' [] err)
      | Inr (checksum, payload) \<Rightarrow>
          if checksum \<noteq> cd_digest codec payload then Inl (errors_New ''verify ForgeFlow journal record: checksum mismatch'')
          else case cd_unmarshal codec payload of
            Inl err \<Rightarrow> Inl (Wrapf ''decode ForgeFlow journal record: %w'' [] err)
          | Inr rec \<Rightarrow>
              if jr_Version rec \<noteq> journalVersion
              then Inl (Errorf ''decode ForgeFlow journal record: unsupported version %d'' [FNum (jr_Version rec)])
              else applyRecord store rec)"

text \<open>\<open>bufio.Reader.ReadBytes\<close> of a newline: the line with its newline and what follows, or \<open>None\<close> at the end
  of the file.\<close>

definition ReadBytes :: "string \<Rightarrow> (string \<times> string) option" where
  "ReadBytes input = (case dropWhile (\<lambda>c. c \<noteq> newline) input of
       [] \<Rightarrow> None
     | _ # rest \<Rightarrow> Some (takeWhile (\<lambda>c. c \<noteq> newline) input @ [newline], rest))"

lemma ReadBytes_shorter: "ReadBytes input = Some (line, rest) \<Longrightarrow> length rest < length input"
  using length_dropWhile_le [of "\<lambda>c. c \<noteq> newline" input] by (auto simp: ReadBytes_def split: list.splits)

definition read_fault :: "replay_io \<Rightarrow> nat \<Rightarrow> go_error option" where
  "read_fault io reach = (case ri_read io of None \<Rightarrow> None | Some (offset, err) \<Rightarrow> if offset < reach then Some err else None)"

text \<open>The end of a replay: an incomplete last record is cut off, and the file is closed.\<close>

definition replay_end :: "replay_io \<Rightarrow> string \<Rightarrow> nat \<Rightarrow> FileStore \<Rightarrow> go_error option \<times> FileStore" where
  "replay_end io line committedOffset store =
     (if line \<noteq> [] then
        (case ri_truncate io of
           Some err \<Rightarrow> (errors_Join [Some (Wrapf ''truncate incomplete ForgeFlow journal record: %w'' [] err), ri_close io], store)
         | None \<Rightarrow>
             let store = store\<lparr>fs_file := take committedOffset (fs_file store)\<rparr>
             in (case ri_sync io of
                   Some err \<Rightarrow> (errors_Join [Some (Wrapf ''sync truncated ForgeFlow journal: %w'' [] err), ri_close io], store)
                 | None \<Rightarrow> (map_option (Wrapf ''close ForgeFlow journal: %w'' []) (ri_close io), store)))
      else (map_option (Wrapf ''close ForgeFlow journal: %w'' []) (ri_close io), store))"

function replay_loop :: "journal_codec \<Rightarrow> replay_io \<Rightarrow> string \<Rightarrow> nat \<Rightarrow> FileStore \<Rightarrow> go_error option \<times> FileStore" where
  "replay_loop codec io input committedOffset store =
     (case ReadBytes input of
        Some (line, rest) \<Rightarrow>
          (case read_fault io (committedOffset + length line) of
             Some err \<Rightarrow> (errors_Join [Some (Wrapf ''read ForgeFlow journal: %w'' [] err), ri_close io], store)
           | None \<Rightarrow>
               (case replayLine codec store line of
                  Inl err \<Rightarrow> (errors_Join [Some err, ri_close io], store)
                | Inr store \<Rightarrow> replay_loop codec io rest (committedOffset + length line) store))
      | None \<Rightarrow>
          (case read_fault io (committedOffset + length input + 1) of
             Some err \<Rightarrow> (errors_Join [Some (Wrapf ''read ForgeFlow journal: %w'' [] err), ri_close io], store)
           | None \<Rightarrow> replay_end io input committedOffset store))"
  by pat_completeness auto

termination replay_loop
  by (relation "measure (\<lambda>(_, _, input, _). length input)") (auto dest: ReadBytes_shorter)

declare replay_loop.simps [simp del]

definition replay :: "journal_codec \<Rightarrow> replay_io \<Rightarrow> FileStore \<Rightarrow> go_error option \<times> FileStore" where
  "replay codec io store =
     (case ri_open io of
        Some err \<Rightarrow> (Some (Wrapf ''open ForgeFlow journal: %w'' [] err), store)
      | None \<Rightarrow> replay_loop codec io (fs_file store) 0 store)"

text \<open>\<open>absErr\<close> and \<open>mkdirErr\<close> are what \<open>filepath.Abs\<close> and \<open>os.MkdirAll\<close> answer. The second component is the
  file as it is left.\<close>

definition OpenFileStore ::
  "journal_codec \<Rightarrow> go_error option \<Rightarrow> go_error option \<Rightarrow> replay_io \<Rightarrow> string \<Rightarrow> string \<Rightarrow> (go_error + FileStore) \<times> string" where
  "OpenFileStore codec absErr mkdirErr io path file =
     (if path = '''' then (Inl (errors_New ''open ForgeFlow file store: path is empty''), file)
      else case absErr of Some err \<Rightarrow> (Inl (Wrapf ''resolve ForgeFlow file store path: %w'' [] err), file)
      | None \<Rightarrow>
        (case mkdirErr of Some err \<Rightarrow> (Inl (Wrapf ''create ForgeFlow file store directory: %w'' [] err), file)
         | None \<Rightarrow>
            (case replay codec io (empty_store file) of
               (Some err, store) \<Rightarrow> (Inl err, fs_file store)
             | (None, store) \<Rightarrow> (Inr store, fs_file store))))"

section \<open>Workflows and runs\<close>

text \<open>Commit: append the record, and only when that succeeded make the change visible.\<close>

definition commit ::
  "journal_codec \<Rightarrow> append_io \<Rightarrow> FileStore \<Rightarrow> journalRecord \<Rightarrow> (FileStore \<Rightarrow> FileStore) \<Rightarrow> go_error option \<times> FileStore" where
  "commit codec io store rec change =
     (case appendRecord codec io store rec of
        (Some err, store) \<Rightarrow> (Some err, store)
      | (None, store) \<Rightarrow> (None, change store))"

definition SaveWorkflow ::
  "journal_codec \<Rightarrow> append_io \<Rightarrow> go_context \<Rightarrow> go_context \<Rightarrow> FileStore \<Rightarrow> WorkflowDefinition \<Rightarrow> go_error option \<times> FileStore" where
  "SaveWorkflow codec io ctx ctx' store definition =
     (case bindE (checkE (store_contextError ctx)) (\<lambda>_.
             wrapE (Wrapf ''save workflow definition: %w'' []) (lift_validation (workflow_Validate definition))) of
        Inl err \<Rightarrow> (Some err, store)
      | Inr _ \<Rightarrow>
          (case mget (fs_workflows store) (wd_ID definition) of
             Some existing \<Rightarrow>
               if existing = definition then (None, store)
               else (Some (WorkflowConflictError (wd_ID definition)), store)
           | None \<Rightarrow>
               (case store_contextError ctx' of
                  Some err \<Rightarrow> (Some err, store)
                | None \<Rightarrow>
                    let definition = fs_cloneDefinition definition
                    in commit codec io store ((zero_record operationSaveWorkflow)\<lparr>jr_Workflow := Some definition\<rparr>)
                         (\<lambda>store. store\<lparr>fs_workflows := mput (wd_ID definition) definition (fs_workflows store)\<rparr>))))"

definition LoadWorkflow :: "FileStore \<Rightarrow> go_context \<Rightarrow> WorkflowID \<Rightarrow> go_error + WorkflowDefinition option" where
  "LoadWorkflow store ctx workflowID =
     bindE (checkE (store_contextError ctx)) (\<lambda>_. Inr (map_option fs_cloneDefinition (mget (fs_workflows store) workflowID)))"

text \<open>The common end of \<open>CreateRun\<close> and \<open>SaveRun\<close>: check the definition and the context again, store the
  snapshot under its new version, and return a copy.\<close>

definition store_run ::
  "journal_codec \<Rightarrow> append_io \<Rightarrow> go_context \<Rightarrow> FileStore \<Rightarrow> string \<Rightarrow> u64 \<Rightarrow> WorkflowRunSnapshot
   \<Rightarrow> (go_error + WorkflowRunSnapshot) \<times> FileStore" where
  "store_run codec io ctx' store operation version snapshot =
     (case bindE (validateRunDefinition store snapshot) (\<lambda>_. checkE (store_contextError ctx')) of
        Inl err \<Rightarrow> (Inl err, store)
      | Inr _ \<Rightarrow>
          let snapshot = (cloneSnapshot snapshot)\<lparr>ws_Version := version\<rparr>
          in (case commit codec io store ((zero_record operation)\<lparr>jr_Run := Some snapshot\<rparr>)
                     (\<lambda>store. store\<lparr>fs_runs := mput (ws_ID snapshot) snapshot (fs_runs store)\<rparr>) of
                (Some err, store) \<Rightarrow> (Inl err, store)
              | (None, store) \<Rightarrow> (Inr (cloneSnapshot snapshot), store)))"

definition CreateRun ::
  "journal_codec \<Rightarrow> append_io \<Rightarrow> go_context \<Rightarrow> go_context \<Rightarrow> FileStore \<Rightarrow> WorkflowRunSnapshot
   \<Rightarrow> (go_error + WorkflowRunSnapshot) \<times> FileStore" where
  "CreateRun codec io ctx ctx' store snapshot =
     (case bindE (checkE (store_contextError ctx)) (\<lambda>_.
             wrapE (Wrapf ''create workflow run: %w'' []) (snapshot_Validate snapshot)) of
        Inl err \<Rightarrow> (Inl err, store)
      | Inr _ \<Rightarrow>
          if mhas (fs_runs store) (ws_ID snapshot) then (Inl (RunAlreadyExistsError (ws_ID snapshot)), store)
          else if ws_Version snapshot \<noteq> 0
          then (Inl (Errorf ''create workflow run %q: initial version must be zero'' [FStr (ws_ID snapshot)]), store)
          else store_run codec io ctx' store operationCreateRun 1 snapshot)"

definition SaveRun ::
  "journal_codec \<Rightarrow> append_io \<Rightarrow> go_context \<Rightarrow> go_context \<Rightarrow> FileStore \<Rightarrow> WorkflowRunSnapshot
   \<Rightarrow> (go_error + WorkflowRunSnapshot) \<times> FileStore" where
  "SaveRun codec io ctx ctx' store snapshot =
     (case bindE (checkE (store_contextError ctx)) (\<lambda>_.
             wrapE (Wrapf ''save workflow run: %w'' []) (snapshot_Validate snapshot)) of
        Inl err \<Rightarrow> (Inl err, store)
      | Inr _ \<Rightarrow>
          (case mget (fs_runs store) (ws_ID snapshot) of
             None \<Rightarrow> (Inl (RunNotFoundError (ws_ID snapshot)), store)
           | Some current \<Rightarrow>
               if ws_Version snapshot \<noteq> ws_Version current
               then (Inl (RunVersionConflictError (ws_ID snapshot) (ws_Version snapshot) (ws_Version current)), store)
               else store_run codec io ctx' store operationSaveRun (ws_Version snapshot + 1) snapshot))"

definition LoadRun :: "FileStore \<Rightarrow> go_context \<Rightarrow> RunID \<Rightarrow> go_error + WorkflowRunSnapshot option" where
  "LoadRun store ctx runID =
     bindE (checkE (store_contextError ctx)) (\<lambda>_. Inr (map_option cloneSnapshot (mget (fs_runs store) runID)))"

section \<open>Projects, memberships and ownership\<close>

text \<open>The security operations apply the record they appended and ignore the result of applying it.\<close>

definition commit_security :: "journal_codec \<Rightarrow> append_io \<Rightarrow> FileStore \<Rightarrow> journalRecord \<Rightarrow> go_error option \<times> FileStore" where
  "commit_security codec io store rec =
     commit codec io store rec (\<lambda>store. case applySecurityRecord store rec of Inl _ \<Rightarrow> store | Inr store' \<Rightarrow> store')"

text \<open>A known user replaces the one that was passed, unless disabled.\<close>

definition known_user :: "FileStore \<Rightarrow> User \<Rightarrow> go_error + User" where
  "known_user store user = (case mget (fs_users store) (us_ID user) of
       None \<Rightarrow> Inr user
     | Some existing \<Rightarrow> if us_Disabled existing then Inl (UserDisabledError (us_ID user)) else Inr existing)"

definition fresh_audit :: "FileStore \<Rightarrow> AuditEvent \<Rightarrow> go_error + unit" where
  "fresh_audit store event = guardE (mhas (fs_auditIDs store) (ae_ID event)) (AuditEventAlreadyExistsError (ae_ID event))"

definition CreateProject ::
  "journal_codec \<Rightarrow> append_io \<Rightarrow> go_context \<Rightarrow> FileStore \<Rightarrow> User \<Rightarrow> Project \<Rightarrow> Membership \<Rightarrow> AuditEvent \<Rightarrow> go_error option \<times> FileStore" where
  "CreateProject codec io ctx store user project membership event =
     (case bindE (validateProjectCreation ctx user project membership event) (\<lambda>_.
           bindE (guardE (mhas (fs_projects store) (pj_ID project)) (ProjectAlreadyExistsError (pj_ID project))) (\<lambda>_.
           bindE (known_user store user) (\<lambda>user.
           bindE (fresh_audit store event) (\<lambda>_. Inr user)))) of
        Inl err \<Rightarrow> (Some err, store)
      | Inr user \<Rightarrow>
          commit_security codec io store ((zero_record operationCreateProject)
            \<lparr>jr_User := Some user, jr_Project := Some project, jr_Membership := Some membership, jr_AuditEvent := Some event\<rparr>))"

definition LoadUser :: "FileStore \<Rightarrow> go_context \<Rightarrow> UserID \<Rightarrow> go_error + User option" where
  "LoadUser store ctx userID = bindE (checkE (store_contextError ctx)) (\<lambda>_. Inr (mget (fs_users store) userID))"

definition LoadProject :: "FileStore \<Rightarrow> go_context \<Rightarrow> ProjectID \<Rightarrow> go_error + Project option" where
  "LoadProject store ctx projectID = bindE (checkE (store_contextError ctx)) (\<lambda>_. Inr (mget (fs_projects store) projectID))"

definition SaveProject ::
  "journal_codec \<Rightarrow> append_io \<Rightarrow> go_context \<Rightarrow> FileStore \<Rightarrow> Project \<Rightarrow> AuditEvent \<Rightarrow> go_error option \<times> FileStore" where
  "SaveProject codec io ctx store project event =
     (case bindE (checkE (store_contextError ctx)) (\<lambda>_.
           bindE (wrapE (Wrapf ''save project: %w'' []) (project_Validate project)) (\<lambda>_.
           bindE (wrapE (Wrapf ''save project audit event: %w'' []) (audit_Validate event)) (\<lambda>_.
           bindE (guardE (ae_ProjectID event \<noteq> pj_ID project)
                    (errors_New ''save project: audit event belongs to another project'')) (\<lambda>_.
             case mget (fs_projects store) (pj_ID project) of
               None \<Rightarrow> Inl (ProjectNotFoundError (pj_ID project))
             | Some existing \<Rightarrow>
                 bindE (guardE (pj_CreatedAt existing \<noteq> pj_CreatedAt project \<or> pj_CreatedBy existing \<noteq> pj_CreatedBy project)
                          (errors_New ''save project: immutable creator fields changed'')) (\<lambda>_. fresh_audit store event))))) of
        Inl err \<Rightarrow> (Some err, store)
      | Inr _ \<Rightarrow>
          commit_security codec io store ((zero_record operationSaveProject)\<lparr>jr_Project := Some project, jr_AuditEvent := Some event\<rparr>))"

text \<open>An existing membership keeps its creation time, and its update time must not move backwards.\<close>

definition merge_membership :: "FileStore \<Rightarrow> Membership \<Rightarrow> go_error + Membership" where
  "merge_membership store membership =
     (case membership_of store (mem_ProjectID membership) (mem_UserID membership) of
        None \<Rightarrow> Inr membership
      | Some existing \<Rightarrow>
          let membership = membership\<lparr>mem_CreatedAt := mem_CreatedAt existing\<rparr>
          in if mem_UpdatedAt membership < mem_UpdatedAt existing
             then Inl (errors_New ''put membership: update timestamp moved backwards'') else Inr membership)"

definition PutMembership ::
  "journal_codec \<Rightarrow> append_io \<Rightarrow> go_context \<Rightarrow> FileStore \<Rightarrow> User \<Rightarrow> Membership \<Rightarrow> AuditEvent \<Rightarrow> go_error option \<times> FileStore" where
  "PutMembership codec io ctx store user membership event =
     (case bindE (checkE (store_contextError ctx)) (\<lambda>_.
           bindE (wrapE (Wrapf ''put membership user: %w'' []) (user_Validate user)) (\<lambda>_.
           bindE (wrapE (Wrapf ''put membership: %w'' []) (membership_Validate membership)) (\<lambda>_.
           bindE (wrapE (Wrapf ''put membership audit event: %w'' []) (audit_Validate event)) (\<lambda>_.
           bindE (guardE (mem_UserID membership \<noteq> us_ID user \<or> ae_ProjectID event \<noteq> mem_ProjectID membership)
                    (errors_New ''put membership: user or audit project does not match membership'')) (\<lambda>_.
           bindE (guardE (\<not> mhas (fs_projects store) (mem_ProjectID membership)) (ProjectNotFoundError (mem_ProjectID membership))) (\<lambda>_.
           bindE (known_user store user) (\<lambda>user.
           bindE (merge_membership store membership) (\<lambda>membership.
           bindE (fresh_audit store event) (\<lambda>_. Inr (user, membership)))))))))) of
        Inl err \<Rightarrow> (Some err, store)
      | Inr (user, membership) \<Rightarrow>
          commit_security codec io store ((zero_record operationPutMembership)
            \<lparr>jr_User := Some user, jr_Membership := Some membership, jr_AuditEvent := Some event\<rparr>))"

definition LoadMembership :: "FileStore \<Rightarrow> go_context \<Rightarrow> ProjectID \<Rightarrow> UserID \<Rightarrow> go_error + Membership option" where
  "LoadMembership store ctx projectID userID =
     bindE (checkE (store_contextError ctx)) (\<lambda>_. Inr (membership_of store projectID userID))"

definition ListMemberships :: "FileStore \<Rightarrow> go_context \<Rightarrow> ProjectID \<Rightarrow> go_error + Membership list" where
  "ListMemberships store ctx projectID =
     bindE (checkE (store_contextError ctx)) (\<lambda>_.
       Inr (sort_key mem_UserID (mvals (mget_or [] (fs_memberships store) projectID))))"

definition SaveWorkflowForProject ::
  "journal_codec \<Rightarrow> append_io \<Rightarrow> go_context \<Rightarrow> FileStore \<Rightarrow> WorkflowDefinition \<Rightarrow> WorkflowOwnership \<Rightarrow> go_error option \<times> FileStore" where
  "SaveWorkflowForProject codec io ctx store definition ownership =
     (case bindE (checkE (store_contextError ctx)) (\<lambda>_.
           bindE (wrapE (Wrapf ''save owned workflow definition: %w'' []) (lift_validation (workflow_Validate definition))) (\<lambda>_.
           bindE (wrapE (Wrapf ''save workflow ownership: %w'' []) (ownership_Validate ownership)) (\<lambda>_.
           bindE (guardE (ow_WorkflowID ownership \<noteq> wd_ID definition)
                    (errors_New ''save workflow ownership: definition identity does not match'')) (\<lambda>_.
           bindE (guardE (\<not> mhas (fs_projects store) (ow_ProjectID ownership)) (ProjectNotFoundError (ow_ProjectID ownership))) (\<lambda>_.
           bindE (guardE (membership_of store (ow_ProjectID ownership) (ow_OwnerUserID ownership) = None)
                    (errors_New ''save workflow ownership: owner is not a project member'')) (\<lambda>_.
           bindE (guardE (case mget (fs_users store) (ow_OwnerUserID ownership) of None \<Rightarrow> False | Some owner \<Rightarrow> us_Disabled owner)
                    (UserDisabledError (ow_OwnerUserID ownership))) (\<lambda>_.
             guardE (case mget (fs_workflows store) (wd_ID definition) of None \<Rightarrow> False | Some existing \<Rightarrow> existing \<noteq> definition)
               (WorkflowConflictError (wd_ID definition))))))))) of
        Inl err \<Rightarrow> (Some err, store)
      | Inr _ \<Rightarrow>
          (case mget (fs_ownerships store) (wd_ID definition) of
             Some existing \<Rightarrow>
               if existing = ownership then (None, store)
               else (Some (WorkflowOwnershipConflictError (wd_ID definition)), store)
           | None \<Rightarrow>
               commit_security codec io store ((zero_record operationSaveOwnedWorkflow)
                 \<lparr>jr_Workflow := Some (fs_cloneDefinition definition), jr_Ownership := Some ownership\<rparr>)))"

definition LoadWorkflowOwnership :: "FileStore \<Rightarrow> go_context \<Rightarrow> WorkflowID \<Rightarrow> go_error + WorkflowOwnership option" where
  "LoadWorkflowOwnership store ctx workflowID =
     bindE (checkE (store_contextError ctx)) (\<lambda>_. Inr (mget (fs_ownerships store) workflowID))"

definition ListAuditEvents :: "FileStore \<Rightarrow> go_context \<Rightarrow> ProjectID \<Rightarrow> int \<Rightarrow> go_error + AuditEvent list" where
  "ListAuditEvents store ctx projectID limit =
     bindE (checkE (store_contextError ctx)) (\<lambda>_.
       if limit \<le> 0 \<or> 1000 < limit then Inl (errors_New ''list audit events: limit must be between 1 and 1000'')
       else let source = mget_or [] (fs_auditEvents store) projectID;
                limit = (if int (length source) < limit then int (length source) else limit)
            in Inr (map (\<lambda>index. cloneSecurityAuditEvent (source ! nat index))
                     (rev [int (length source) - limit..int (length source) - 1])))"

end
