(* ===== verification/FF_Engine.thy ===== *)
theory FF_Engine
  imports FF_FileStore
begin

text \<open>
  The execution engine: \<open>internal/execution/options.go\<close>, \<open>handler.go\<close> (the registry), \<open>engine.go\<close> and
  \<open>engine_broker.go\<close>. The \<open>Store\<close> and \<open>Broker\<close> interfaces are records of operations on a state, so that the
  engine can be run on the file store and on the in-memory broker. The scheduler loop is a function of one
  iteration: what its \<open>select\<close> received, what the context answered and what the clock showed are arguments.
  JSON, SHA-256 and the trace propagator are parameters (\<open>dispatch_codec\<close>); spans, metrics and logs are left out.
\<close>

section \<open>options.go\<close>

text \<open>Of the interface values in the configuration only their presence is kept; what they answer is an argument of
  the operations that use them.\<close>

record engineConfig =
  cf_clock :: "unit option"
  cf_leaseDuration :: Duration
  cf_heartbeatInterval :: Duration
  cf_workerNamespace :: string
  cf_taskBroker :: "unit option"
  cf_instrumentation :: "unit option"

datatype EngineOption =
    WithInstrumentation "unit option"
  | WithBroker "unit option"
  | WithClock "unit option"
  | WithLeaseTiming Duration Duration
  | WithWorkerNamespace string

definition defaultLeaseDuration :: Duration where "defaultLeaseDuration = 30000000000"
definition defaultHeartbeatInterval :: Duration where "defaultHeartbeatInterval = 10000000000"

fun apply_option :: "EngineOption \<Rightarrow> engineConfig \<Rightarrow> go_error + engineConfig" where
  "apply_option (WithInstrumentation instrumentation) config =
     (if instrumentation = None then Inl (errors_New ''instrumentation must not be nil'')
      else Inr (config\<lparr>cf_instrumentation := instrumentation\<rparr>))"
| "apply_option (WithBroker taskBroker) config =
     (if taskBroker = None then Inl (errors_New ''task broker must not be nil'')
      else Inr (config\<lparr>cf_taskBroker := taskBroker\<rparr>))"
| "apply_option (WithClock clock) config =
     (if clock = None then Inl (errors_New ''clock must not be nil'') else Inr (config\<lparr>cf_clock := clock\<rparr>))"
| "apply_option (WithLeaseTiming leaseDuration heartbeatInterval) config =
     Inr (config\<lparr>cf_leaseDuration := leaseDuration, cf_heartbeatInterval := heartbeatInterval\<rparr>)"
| "apply_option (WithWorkerNamespace namespace) config =
     (if \<not> validIdentifier namespace then Inl (Errorf ''worker namespace %q is invalid'' [FStr namespace])
      else Inr (config\<lparr>cf_workerNamespace := namespace\<rparr>))"

text \<open>\<open>namespaceHex\<close> is the hexadecimal text of the random bytes, or the error of \<open>rand.Read\<close>.\<close>

definition defaultEngineConfig :: "go_error + string \<Rightarrow> go_error + engineConfig" where
  "defaultEngineConfig namespaceHex =
     bindE (wrapE (Wrapf ''generate worker namespace: %w'' []) namespaceHex) (\<lambda>hex.
       Inr \<lparr>cf_clock = Some (), cf_leaseDuration = defaultLeaseDuration, cf_heartbeatInterval = defaultHeartbeatInterval,
            cf_workerNamespace = ''local-'' @ hex, cf_taskBroker = Some (), cf_instrumentation = Some ()\<rparr>)"

definition config_validate :: "engineConfig \<Rightarrow> go_error + unit" where
  "config_validate config =
     (if cf_clock config = None then Inl (errors_New ''clock must not be nil'')
      else if sint (cf_leaseDuration config) \<le> 0 then Inl (errors_New ''lease duration must be positive'')
      else if sint (cf_heartbeatInterval config) \<le> 0 then Inl (errors_New ''heartbeat interval must be positive'')
      else if sint (cf_heartbeatInterval config) \<ge> sint (cf_leaseDuration config)
      then Inl (errors_New ''heartbeat interval must be shorter than lease duration'')
      else if \<not> validIdentifier (cf_workerNamespace config) then Inl (errors_New ''worker namespace is invalid'')
      else if cf_taskBroker config = None then Inl (errors_New ''task broker must not be nil'')
      else if cf_instrumentation config = None then Inl (errors_New ''instrumentation must not be nil'')
      else Inr ())"

section \<open>handler.go\<close>

record TaskRequest =
  rq_RunID :: RunID
  rq_TaskRunID :: TaskRunID
  rq_AttemptID :: AttemptID
  rq_Task :: TaskDefinition

text \<open>A handler is a value of any type \<open>'h\<close>; \<open>None\<close> is a nil one.\<close>

type_synonym 'h HandlerRegistry = "(HandlerName, 'h) gomap"

definition NewHandlerRegistry :: "'h HandlerRegistry" where
  "NewHandlerRegistry = []"

definition Register :: "'h HandlerRegistry \<Rightarrow> HandlerName \<Rightarrow> 'h option \<Rightarrow> go_error option \<times> 'h HandlerRegistry" where
  "Register registry name handler =
     (if \<not> validIdentifier name
      then (Some (HandlerRegistrationError name ''handler names must be non-empty and contain no whitespace or control characters''), registry)
      else case handler of
        None \<Rightarrow> (Some (HandlerRegistrationError name ''handler must not be nil''), registry)
      | Some handler \<Rightarrow>
          if mhas registry name then (Some (HandlerRegistrationError name ''handler is already registered''), registry)
          else (None, mput name handler registry))"

definition registry_Handler :: "'h HandlerRegistry \<Rightarrow> HandlerName \<Rightarrow> 'h option" where
  "registry_Handler registry name = mget registry name"

section \<open>The interfaces of the engine\<close>

record 'st Store =
  st_SaveWorkflow :: "'st \<Rightarrow> go_context \<Rightarrow> WorkflowDefinition \<Rightarrow> go_error option \<times> 'st"
  st_LoadWorkflow :: "'st \<Rightarrow> go_context \<Rightarrow> WorkflowID \<Rightarrow> go_error + WorkflowDefinition option"
  st_CreateRun :: "'st \<Rightarrow> go_context \<Rightarrow> WorkflowRunSnapshot \<Rightarrow> (go_error + WorkflowRunSnapshot) \<times> 'st"
  st_SaveRun :: "'st \<Rightarrow> go_context \<Rightarrow> WorkflowRunSnapshot \<Rightarrow> (go_error + WorkflowRunSnapshot) \<times> 'st"
  st_LoadRun :: "'st \<Rightarrow> go_context \<Rightarrow> RunID \<Rightarrow> go_error + WorkflowRunSnapshot option"

record ('br, 'd) Broker =
  bk_Publish :: "'br \<Rightarrow> go_context \<Rightarrow> TaskMessage \<Rightarrow> go_error option \<times> 'br"
  bk_Ack :: "'br \<Rightarrow> go_context \<Rightarrow> 'd \<Rightarrow> go_error option \<times> 'br"
  bk_Nack :: "'br \<Rightarrow> go_context \<Rightarrow> 'd \<Rightarrow> go_error option \<times> 'br"
  bk_Progress :: "'br \<Rightarrow> go_context \<Rightarrow> 'd \<Rightarrow> go_error option \<times> 'br"
  bk_Message :: "'d \<Rightarrow> TaskMessage"

record taskDispatch =
  dp_RunID :: RunID
  dp_TaskID :: TaskID
  dp_TaskRunID :: TaskRunID
  dp_AttemptID :: AttemptID

record dispatch_codec =
  dc_marshal :: "taskDispatch \<Rightarrow> go_error + string"
  dc_unmarshal :: "string \<Rightarrow> go_error + taskDispatch"
  dc_sha256_hex :: "string \<Rightarrow> string"
  dc_inject :: "MessageID \<Rightarrow> (string, string) gomap"

record ('st, 'br, 'd, 'h) Engine =
  en_workerCount :: int
  en_registry :: "'h HandlerRegistry"
  en_store :: "'st Store"
  en_config :: engineConfig
  en_broker :: "('br, 'd) Broker"
  en_codec :: dispatch_codec

section \<open>engine.go\<close>

fun apply_options :: "EngineOption option list \<Rightarrow> engineConfig \<Rightarrow> go_error + engineConfig" where
  "apply_options [] config = Inr config"
| "apply_options (option # options) config =
     (case option of None \<Rightarrow> Inl (errors_New ''engine option must not be nil'')
      | Some option \<Rightarrow> bindE (apply_option option config) (apply_options options))"

definition NewEngine ::
  "int \<Rightarrow> 'h HandlerRegistry option \<Rightarrow> 'st Store option \<Rightarrow> go_error + string \<Rightarrow> EngineOption option list
   \<Rightarrow> ('br, 'd) Broker \<Rightarrow> dispatch_codec \<Rightarrow> go_error + ('st, 'br, 'd, 'h) Engine" where
  "NewEngine workerCount registry store namespaceHex options broker codec =
     (if workerCount < 1 then Inl (InvalidEngineConfigError workerCount (errors_New ''worker count must be at least one''))
      else case registry of None \<Rightarrow> Inl (InvalidEngineConfigError workerCount (errors_New ''handler registry must not be nil''))
      | Some registry \<Rightarrow>
        (case store of None \<Rightarrow> Inl (InvalidEngineConfigError workerCount (errors_New ''store must not be nil''))
         | Some store \<Rightarrow>
           wrapE (InvalidEngineConfigError workerCount)
             (bindE (defaultEngineConfig namespaceHex) (\<lambda>config.
              bindE (apply_options options config) (\<lambda>config.
              bindE (config_validate config) (\<lambda>_.
                Inr \<lparr>en_workerCount = workerCount, en_registry = registry, en_store = store, en_config = config,
                     en_broker = broker, en_codec = codec\<rparr>))))))"

definition persistenceError :: "string \<Rightarrow> RunID \<Rightarrow> go_error \<Rightarrow> go_error" where
  "persistenceError operation runID cause = PersistenceError operation runID cause"

definition applyPersistedVersion :: "WorkflowRun \<Rightarrow> WorkflowRunSnapshot \<Rightarrow> WorkflowRunSnapshot \<Rightarrow> go_error + WorkflowRun" where
  "applyPersistedVersion run candidate stored =
     (if ws_ID stored \<noteq> ws_ID candidate \<or> ws_WorkflowID stored \<noteq> ws_WorkflowID candidate
      then Inl (errors_New ''store returned a different workflow run after persistence'')
      else if ws_Version stored \<noteq> ws_Version candidate + 1
      then Inl (Errorf ''store returned workflow run version %d after version %d'' [FNum (uint (ws_Version stored)), FNum (uint (ws_Version candidate))])
      else Inr (setPersistedVersion run (ws_Version stored)))"

definition saveRun :: "'st Store \<Rightarrow> go_context \<Rightarrow> 'st \<Rightarrow> WorkflowRun \<Rightarrow> string \<Rightarrow> go_error option \<times> WorkflowRun \<times> 'st" where
  "saveRun store ctx st run operation =
     (let candidate = Snapshot run
      in case st_SaveRun store st ctx candidate of
           (Inl err, st) \<Rightarrow> (Some (persistenceError operation (run_id run) err), run, st)
         | (Inr stored, st) \<Rightarrow>
             (case applyPersistedVersion run candidate stored of
                Inl err \<Rightarrow> (Some (persistenceError operation (run_id run) err), run, st)
              | Inr run \<Rightarrow> (None, run, st)))"

text \<open>\<open>now\<close> holds the readings of the clock, one per operation on the run.\<close>

definition failRun ::
  "'st Store \<Rightarrow> go_context \<Rightarrow> (nat \<Rightarrow> Time) \<Rightarrow> 'st \<Rightarrow> WorkflowRun \<Rightarrow> go_error \<Rightarrow> go_error option \<times> WorkflowRun \<times> 'st" where
  "failRun store ctx now st run cause =
     (let run = cancelUnfinished run (now 0) (Some cause)
      in case transitionWorkflow run (now 1) WorkflowRunFailed of
           Inl err \<Rightarrow> (errors_Join [Some cause, Some (Wrapf ''mark workflow failed: %w'' [] err)], run, st)
         | Inr run \<Rightarrow>
             (case saveRun store ctx st run ''fail workflow run'' of
                (Some err, run, st) \<Rightarrow> (errors_Join [Some cause, Some err], run, st)
              | (None, run, st) \<Rightarrow> (Some cause, run, st)))"

definition cancelRun ::
  "'st Store \<Rightarrow> go_context \<Rightarrow> (nat \<Rightarrow> Time) \<Rightarrow> 'st \<Rightarrow> WorkflowRun \<Rightarrow> go_error \<Rightarrow> go_error option \<times> WorkflowRun \<times> 'st" where
  "cancelRun store ctx now st run cause =
     (let run = cancelUnfinished run (now 0) (Some cause)
      in case transitionWorkflow run (now 1) WorkflowRunCanceled of
           Inl err \<Rightarrow> (Some (Wrapf ''cancel workflow run: %w'' [] err), run, st)
         | Inr run \<Rightarrow>
             let canceledError = RunCanceledError (run_id run) cause
             in (case saveRun store ctx st run ''cancel workflow run'' of
                   (Some err, run, st) \<Rightarrow> (errors_Join [Some canceledError, Some err], run, st)
                 | (None, run, st) \<Rightarrow> (Some canceledError, run, st)))"

text \<open>The zero status of Go is no status: \<open>None\<close>.\<close>

fun terminal_state_loop :: "TaskRun list \<Rightarrow> bool \<Rightarrow> (WorkflowRunStatus \<times> go_error) option" where
  "terminal_state_loop [] canceled =
     (if canceled then Some (WorkflowRunCanceled, errors_New ''recovered an interrupted workflow cancellation'') else None)"
| "terminal_state_loop (task # rest) canceled =
     (if tr_Status task = TaskRunFailed
      then Some (WorkflowRunFailed, ErrorfText ''recovered failed task %q: %s'' (tr_TaskID task) (tr_Error task))
      else terminal_state_loop rest (canceled \<or> tr_Status task = TaskRunCanceled))"

definition recoveredTerminalTaskState :: "WorkflowRun \<Rightarrow> (WorkflowRunStatus \<times> go_error) option" where
  "recoveredTerminalTaskState run = terminal_state_loop (sortedTasksLocked run) False"

definition sortTasks :: "TaskDefinition list \<Rightarrow> TaskDefinition list" where
  "sortTasks ts = sort_key td_ID ts"

fun resolve_loop :: "'h HandlerRegistry \<Rightarrow> TaskDefinition list \<Rightarrow> (TaskID, 'h) gomap \<Rightarrow> go_error + (TaskID, 'h) gomap" where
  "resolve_loop registry [] resolved = Inr resolved"
| "resolve_loop registry (task # rest) resolved =
     (case registry_Handler registry (td_Handler task) of
        None \<Rightarrow> Inl (UnknownHandlerError (td_ID task) (td_Handler task))
      | Some handler \<Rightarrow> resolve_loop registry rest (mput (td_ID task) handler resolved))"

definition resolveHandlers :: "'h HandlerRegistry \<Rightarrow> WorkflowDefinition \<Rightarrow> go_error + (TaskID, 'h) gomap" where
  "resolveHandlers registry definition = resolve_loop registry (sortTasks (wd_Tasks definition)) []"

text \<open>The loop over the candidates: the tasks made ready, and the run.\<close>

fun mark_loop :: "(nat \<Rightarrow> Time) \<Rightarrow> TaskDefinition list \<Rightarrow> WorkflowRun \<Rightarrow> TaskDefinition list \<Rightarrow> (go_error + TaskDefinition list) \<times> WorkflowRun" where
  "mark_loop now [] run ready = (Inr ready, run)"
| "mark_loop now (task # rest) run ready =
     (case taskStatus run (td_ID task) of
        Inl err \<Rightarrow> (Inl err, run)
      | Inr status \<Rightarrow>
          if status \<noteq> TaskRunPending then mark_loop (\<lambda>i. now (Suc i)) rest run ready
          else (case transitionTask run (now 0) (td_ID task) TaskRunReady '''' None of
                  Inl err \<Rightarrow> (Inl err, run)
                | Inr run \<Rightarrow> mark_loop (\<lambda>i. now (Suc i)) rest run (ready @ [task])))"

definition markNewReady ::
  "(nat \<Rightarrow> Time) \<Rightarrow> WorkflowRun \<Rightarrow> WorkflowDefinition \<Rightarrow> (TaskID, unit) gomap \<Rightarrow> (go_error + TaskDefinition list) \<times> WorkflowRun" where
  "markNewReady now run definition completed =
     (case lift_validation (ReadyTasks definition (mkeys completed)) of
        Inl err \<Rightarrow> (Inl err, run)
      | Inr candidates \<Rightarrow> mark_loop now candidates run [])"

definition completedTaskIDs :: "WorkflowRun \<Rightarrow> (TaskID, unit) gomap" where
  "completedTaskIDs run = fold (\<lambda>task completed. if tr_Status task = TaskRunSucceeded then mput (tr_TaskID task) () completed else completed)
     (sortedTasksLocked run) []"

definition taskDefinitionsByID :: "WorkflowDefinition \<Rightarrow> (TaskID, TaskDefinition) gomap" where
  "taskDefinitionsByID definition = fold (\<lambda>task. mput (td_ID task) task) (wd_Tasks definition) []"

definition requireDefinition :: "(TaskID, TaskDefinition) gomap \<Rightarrow> TaskID \<Rightarrow> TaskDefinition" where
  "requireDefinition definitions taskID = mget_or zero_TaskDefinition definitions taskID"

definition existingReadyTasks :: "WorkflowRun \<Rightarrow> WorkflowDefinition \<Rightarrow> TaskDefinition list" where
  "existingReadyTasks run definition =
     (let definitions = taskDefinitionsByID definition
      in sortTasks (map (\<lambda>task. requireDefinition definitions (tr_TaskID task))
           (filter (\<lambda>task. tr_Status task = TaskRunReady) (sortedTasksLocked run))))"

definition cloneTaskDefinition :: "TaskDefinition \<Rightarrow> TaskDefinition" where
  "cloneTaskDefinition task = task\<lparr>td_Dependencies := append_nil (elems (td_Dependencies task))\<rparr>"

text \<open>How long the scheduler sleeps at most; \<open>None\<close> when nothing is due.\<close>

definition reliabilityTimer :: "Time \<Rightarrow> WorkflowRun \<Rightarrow> Duration option" where
  "reliabilityTimer now run =
     (case nextReliabilityDeadline run of
        (deadline, exists) \<Rightarrow>
          if \<not> exists then None
          else let duration = time_sub deadline now in Some (if sint duration < 0 then 0 else duration))"

text \<open>A handler returns or panics.\<close>

datatype handler_result = HandlerReturned string "go_error option" | HandlerPanicked string

fun invokeHandler :: "handler_result \<Rightarrow> string \<times> go_error option" where
  "invokeHandler (HandlerReturned output err) = (output, err)"
| "invokeHandler (HandlerPanicked recovered) = ('''', Some (Wrapf ''%w: handler panic: %v'' [FStr recovered] ErrWorkerDisappeared))"

section \<open>engine_broker.go: the state of a scheduler\<close>

record 'h taskJob =
  tj_request :: TaskRequest
  tj_handler :: "'h option"

record 'd brokerTaskResult =
  rs_taskID :: TaskID
  rs_taskRunID :: TaskRunID
  rs_workerID :: WorkerID
  rs_attemptID :: AttemptID
  rs_output :: string
  rs_err :: "go_error option"
  rs_delivery :: 'd

text \<open>\<open>wc_response\<close> names the channel on which the worker awaits its answer.\<close>

record 'd workerClaimEvent =
  wc_workerID :: WorkerID
  wc_slot :: int
  wc_delivery :: 'd
  wc_response :: nat

text \<open>The local variables of \<open>executeBrokerRun\<close>, with the run, the store and the broker they act on. \<open>sc_spawned\<close>
  lists the workers started and \<open>sc_responses\<close> the answers sent to claims, in order.\<close>

record ('st, 'br, 'd, 'h) sched =
  sc_run :: WorkflowRun
  sc_store :: 'st
  sc_broker :: 'br
  sc_handlers :: "(TaskID, 'h) gomap"
  sc_completed :: "(TaskID, unit) gomap"
  sc_ready :: "(TaskID, TaskDefinition) gomap"
  sc_workers :: "(WorkerID, int) gomap"
  sc_currentBySlot :: "(int, WorkerID) gomap"
  sc_generations :: "(int, int) gomap"
  sc_spawned :: "(WorkerID \<times> int) list"
  sc_inFlight :: "(AttemptID, unit) gomap"
  sc_activeDeliveries :: "(WorkerID, 'd) gomap"
  sc_pendingClaims :: "(AttemptID, 'd workerClaimEvent list) gomap"
  sc_published :: "(AttemptID, unit) gomap"
  sc_responses :: "(nat \<times> 'h taskJob option) list"

text \<open>A piece of the loop either goes on or returns from \<open>executeBrokerRun\<close>.\<close>

datatype 's flow = Continue 's | Return "go_error option" 's

fun then_flow :: "'s flow \<Rightarrow> ('s \<Rightarrow> 's flow) \<Rightarrow> 's flow" where
  "then_flow (Continue s) f = f s"
| "then_flow (Return err s) f = Return err s"

definition durability :: go_context where
  "durability = Context None"

definition sched_save :: "('st, 'br, 'd, 'h) Engine \<Rightarrow> string \<Rightarrow> ('st, 'br, 'd, 'h) sched \<Rightarrow> go_error option \<times> ('st, 'br, 'd, 'h) sched" where
  "sched_save engine operation s =
     (case saveRun (en_store engine) durability (sc_store s) (sc_run s) operation of
        (err, run, st) \<Rightarrow> (err, s\<lparr>sc_run := run, sc_store := st\<rparr>))"

definition sched_fail :: "('st, 'br, 'd, 'h) Engine \<Rightarrow> (nat \<Rightarrow> Time) \<Rightarrow> go_error \<Rightarrow> ('st, 'br, 'd, 'h) sched \<Rightarrow> ('st, 'br, 'd, 'h) sched flow" where
  "sched_fail engine now cause s =
     (case failRun (en_store engine) durability now (sc_store s) (sc_run s) cause of
        (err, run, st) \<Rightarrow> Return err (s\<lparr>sc_run := run, sc_store := st\<rparr>))"

definition sched_cancel :: "('st, 'br, 'd, 'h) Engine \<Rightarrow> (nat \<Rightarrow> Time) \<Rightarrow> go_error \<Rightarrow> ('st, 'br, 'd, 'h) sched \<Rightarrow> ('st, 'br, 'd, 'h) sched flow" where
  "sched_cancel engine now cause s =
     (case cancelRun (en_store engine) durability now (sc_store s) (sc_run s) cause of
        (err, run, st) \<Rightarrow> Return err (s\<lparr>sc_run := run, sc_store := st\<rparr>))"

text \<open>Save and go on, or return the error of the store.\<close>

definition save_or_return :: "('st, 'br, 'd, 'h) Engine \<Rightarrow> string \<Rightarrow> ('st, 'br, 'd, 'h) sched \<Rightarrow> ('st, 'br, 'd, 'h) sched flow" where
  "save_or_return engine operation s = (case sched_save engine operation s of (None, s) \<Rightarrow> Continue s | (Some err, s) \<Rightarrow> Return (Some err) s)"

section \<open>engine_broker.go: identities and acknowledgements\<close>

definition taskSubscription :: "dispatch_codec \<Rightarrow> RunID \<Rightarrow> Subscription" where
  "taskSubscription codec runID =
     (let suffix = dc_sha256_hex codec runID
      in \<lparr>sub_ConsumerID = ''forgeflow-run-'' @ suffix, sub_Topic = ''run-'' @ suffix\<rparr>)"

definition taskTopic :: "dispatch_codec \<Rightarrow> RunID \<Rightarrow> Topic" where
  "taskTopic codec runID = sub_Topic (taskSubscription codec runID)"

definition brokerOperationError :: "string \<Rightarrow> RunID \<Rightarrow> MessageID \<Rightarrow> go_error option \<Rightarrow> go_error" where
  "brokerOperationError operation runID messageID cause =
     BrokerOperationError operation runID messageID (case cause of None \<Rightarrow> errors_New ''unknown task broker failure'' | Some cause \<Rightarrow> cause)"

definition decodeTaskDispatch :: "dispatch_codec \<Rightarrow> TaskMessage \<Rightarrow> go_error + taskDispatch" where
  "decodeTaskDispatch codec message =
     bindE (message_Validate message) (\<lambda>_.
     bindE (wrapE (Wrapf ''decode task dispatch: %w'' []) (dc_unmarshal codec (tm_Body message))) (\<lambda>dispatch.
       if \<not> validIdentifier (dp_RunID dispatch) \<or> \<not> validIdentifier (dp_TaskID dispatch) \<or>
          \<not> validIdentifier (dp_TaskRunID dispatch) \<or> \<not> validIdentifier (dp_AttemptID dispatch)
       then Inl (errors_New ''decode task dispatch: identity is invalid'')
       else Inr dispatch))"

definition not_settled :: "go_error option \<Rightarrow> go_error option" where
  "not_settled err = (case err of None \<Rightarrow> None | Some e \<Rightarrow> if errors_Is e ErrDeliverySettled then None else Some e)"

definition acknowledgeDelivery ::
  "('st, 'br, 'd, 'h) Engine \<Rightarrow> 'd option \<Rightarrow> ('st, 'br, 'd, 'h) sched \<Rightarrow> go_error option \<times> ('st, 'br, 'd, 'h) sched" where
  "acknowledgeDelivery engine delivery s =
     (case delivery of None \<Rightarrow> (None, s)
      | Some delivery \<Rightarrow>
          (case bk_Ack (en_broker engine) (sc_broker s) durability delivery of
             (None, br) \<Rightarrow> (None, s\<lparr>sc_broker := br\<rparr>)
           | (Some err, br) \<Rightarrow>
               (case bk_Nack (en_broker engine) br (Context None) delivery of (nackErr, br) \<Rightarrow>
                  (Some (brokerOperationError ''acknowledge task'' (run_id (sc_run s)) (tm_ID (bk_Message (en_broker engine) delivery))
                           (errors_Join [Some err, not_settled nackErr])),
                   s\<lparr>sc_broker := br\<rparr>))))"

definition respond :: "nat \<Rightarrow> 'h taskJob option \<Rightarrow> ('st, 'br, 'd, 'h) sched \<Rightarrow> ('st, 'br, 'd, 'h) sched" where
  "respond channel job s = s\<lparr>sc_responses := sc_responses s @ [(channel, job)]\<rparr>"

fun acknowledgePendingClaims ::
  "('st, 'br, 'd, 'h) Engine \<Rightarrow> 'd workerClaimEvent list \<Rightarrow> ('st, 'br, 'd, 'h) sched \<Rightarrow> go_error option \<times> ('st, 'br, 'd, 'h) sched" where
  "acknowledgePendingClaims engine [] s = (None, s)"
| "acknowledgePendingClaims engine (claim # claims) s =
     (case acknowledgeDelivery engine (Some (wc_delivery claim)) s of
        (Some err, s) \<Rightarrow> (Some err, s)
      | (None, s) \<Rightarrow> acknowledgePendingClaims engine claims (respond (wc_response claim) None s))"

section \<open>engine_broker.go: workers\<close>

definition spawnWorker :: "('st, 'br, 'd, 'h) Engine \<Rightarrow> int \<Rightarrow> ('st, 'br, 'd, 'h) sched \<Rightarrow> ('st, 'br, 'd, 'h) sched" where
  "spawnWorker engine slot s =
     (let generation = mget_or 0 (sc_generations s) slot + 1;
          workerID = cf_workerNamespace (en_config engine) @ ''/'' @ run_id (sc_run s) @ ''/slot-'' @ dec_int slot @
                     ''/generation-'' @ dec_int generation
      in s\<lparr>sc_generations := mput slot generation (sc_generations s),
           sc_workers := mput workerID slot (sc_workers s),
           sc_currentBySlot := mput slot workerID (sc_currentBySlot s),
           sc_spawned := sc_spawned s @ [(workerID, slot)]\<rparr>)"

definition current_worker :: "('st, 'br, 'd, 'h) sched \<Rightarrow> int \<Rightarrow> WorkerID" where
  "current_worker s slot = mget_or '''' (sc_currentBySlot s) slot"

definition replaceWorker :: "('st, 'br, 'd, 'h) Engine \<Rightarrow> WorkerID \<Rightarrow> ('st, 'br, 'd, 'h) sched \<Rightarrow> ('st, 'br, 'd, 'h) sched" where
  "replaceWorker engine workerID s =
     (case mget (sc_workers s) workerID of None \<Rightarrow> s
      | Some slot \<Rightarrow>
          if current_worker s slot \<noteq> workerID then s
          else spawnWorker engine slot
                 (s\<lparr>sc_activeDeliveries := mdel workerID (sc_activeDeliveries s),
                    sc_workers := mdel workerID (sc_workers s),
                    sc_currentBySlot := mdel slot (sc_currentBySlot s)\<rparr>))"

section \<open>engine_broker.go: the head of the loop\<close>

text \<open>The effect of one recovered lease; the second component is \<open>leaseFailure\<close>.\<close>

definition apply_recovery ::
  "('st, 'br, 'd, 'h) Engine \<Rightarrow> LeaseRecovery \<Rightarrow> ('st, 'br, 'd, 'h) sched \<times> go_error option \<Rightarrow> ('st, 'br, 'd, 'h) sched \<times> go_error option" where
  "apply_recovery engine recovery st =
     (case st of (s, leaseFailure) \<Rightarrow>
        let s = s\<lparr>sc_inFlight := mdel (lr_AttemptID recovery) (sc_inFlight s)\<rparr>;
            s = (if lr_WorkerID recovery \<noteq> '''' then replaceWorker engine (lr_WorkerID recovery) s else s);
            run = sc_run s
        in if lr_Outcome recovery = CompletionRetryScheduled then
             let task = requireDefinition (taskDefinitionsByID (run_definition run)) (lr_TaskID recovery)
             in (case run_Task run (lr_TaskID recovery) of
                   None \<Rightarrow> (s, leaseFailure)
                 | Some current \<Rightarrow>
                     if tr_Status current = TaskRunReady then (s\<lparr>sc_ready := mput (td_ID task) task (sc_ready s)\<rparr>, leaseFailure)
                     else (s, leaseFailure))
           else (s, Some (TaskExecutionError (run_id run) (lr_TaskID recovery)
                            (LeaseExpiredError (run_id run) (lr_TaskID recovery) (lr_AttemptID recovery)))))"

definition apply_promotion :: "TaskID \<Rightarrow> ('st, 'br, 'd, 'h) sched \<Rightarrow> ('st, 'br, 'd, 'h) sched" where
  "apply_promotion taskID s =
     s\<lparr>sc_ready := mput taskID (requireDefinition (taskDefinitionsByID (run_definition (sc_run s))) taskID) (sc_ready s)\<rparr>"

fun release_recovered ::
  "('st, 'br, 'd, 'h) Engine \<Rightarrow> LeaseRecovery list \<Rightarrow> ('st, 'br, 'd, 'h) sched \<Rightarrow> ('st, 'br, 'd, 'h) sched flow" where
  "release_recovered engine [] s = Continue s"
| "release_recovered engine (recovery # rest) s =
     (case acknowledgePendingClaims engine (mget_or [] (sc_pendingClaims s) (lr_AttemptID recovery)) s of
        (Some err, s) \<Rightarrow> Return (Some err) s
      | (None, s) \<Rightarrow> release_recovered engine rest (s\<lparr>sc_pendingClaims := mdel (lr_AttemptID recovery) (sc_pendingClaims s)\<rparr>))"

text \<open>Expired leases and due retries; \<open>now\<close> supplies the two readings and then those of \<open>failRun\<close>.\<close>

definition loop_recover :: "('st, 'br, 'd, 'h) Engine \<Rightarrow> (nat \<Rightarrow> Time) \<Rightarrow> ('st, 'br, 'd, 'h) sched \<Rightarrow> ('st, 'br, 'd, 'h) sched flow" where
  "loop_recover engine now s =
     (case recoverExpiredLeases (sc_run s) (now 0) of (recoveries, run) \<Rightarrow>
      case promoteDueRetries run (now 1) of (promoted, run) \<Rightarrow>
      case fold (apply_recovery engine) recoveries (s\<lparr>sc_run := run\<rparr>, None) of (s, leaseFailure) \<Rightarrow>
      let s = fold apply_promotion promoted s;
          failNow = (\<lambda>i. now (i + 2))
      in then_flow
           (if recoveries \<noteq> [] \<or> promoted \<noteq> [] then
              (case sched_save engine ''recover expired leases and due retries'' s of
                 (Some err, s) \<Rightarrow> sched_fail engine failNow err s
               | (None, s) \<Rightarrow> release_recovered engine recoveries s)
            else Continue s)
           (\<lambda>s. case leaseFailure of None \<Rightarrow> Continue s | Some cause \<Rightarrow> sched_fail engine failNow cause s))"

definition loop_complete :: "('st, 'br, 'd, 'h) Engine \<Rightarrow> (nat \<Rightarrow> Time) \<Rightarrow> ('st, 'br, 'd, 'h) sched \<Rightarrow> ('st, 'br, 'd, 'h) sched flow" where
  "loop_complete engine now s =
     (if length (mkeys (sc_completed s)) = length (wd_Tasks (run_definition (sc_run s))) then
        (case transitionWorkflow (sc_run s) (now 0) WorkflowRunSucceeded of
           Inl err \<Rightarrow> sched_fail engine (\<lambda>i. now (i + 1)) (Wrapf ''complete workflow run: %w'' [] err) s
         | Inr run \<Rightarrow>
             (case sched_save engine ''complete workflow run'' (s\<lparr>sc_run := run\<rparr>) of
                (Some err, s) \<Rightarrow> Return (Some err) s
              | (None, s) \<Rightarrow> Return None s))
      else Continue s)"

text \<open>\<open>ctx\<close> is the scheduler's own context, which may have been cancelled.\<close>

fun publish_loop ::
  "('st, 'br, 'd, 'h) Engine \<Rightarrow> go_context \<Rightarrow> TaskID list \<Rightarrow> ('st, 'br, 'd, 'h) sched \<Rightarrow> ('st, 'br, 'd, 'h) sched flow" where
  "publish_loop engine ctx [] s = Continue s"
| "publish_loop engine ctx (taskID # rest) s =
     (let run = sc_run s
      in case run_Task run taskID of
           None \<Rightarrow> Return (Some (Errorf ''publish ready task %q: task run is missing'' [FStr taskID])) s
         | Some task \<Rightarrow>
             let attemptID = AttemptIDFor (tr_TaskRunID task) (tr_AttemptCount task + 1)
             in if mhas (sc_published s) attemptID then publish_loop engine ctx rest s
                else (case dc_marshal (en_codec engine)
                             \<lparr>dp_RunID = run_id run, dp_TaskID = taskID, dp_TaskRunID = tr_TaskRunID task, dp_AttemptID = attemptID\<rparr> of
                        Inl err \<Rightarrow> Return (Some (brokerOperationError ''encode task'' (run_id run) attemptID (Some err))) s
                      | Inr body \<Rightarrow>
                          (case bk_Publish (en_broker engine) (sc_broker s) ctx
                                  \<lparr>tm_ID = attemptID, tm_Topic = taskTopic (en_codec engine) (run_id run), tm_Body = body,
                                   tm_Headers = Some (dc_inject (en_codec engine) attemptID)\<rparr> of
                             (Some err, br) \<Rightarrow> Return (Some (brokerOperationError ''publish task'' (run_id run) attemptID (Some err))) (s\<lparr>sc_broker := br\<rparr>)
                           | (None, br) \<Rightarrow>
                               publish_loop engine ctx rest
                                 (s\<lparr>sc_broker := br, sc_published := mput attemptID () (sc_published s)\<rparr>))))"

definition publishReadyTasks ::
  "('st, 'br, 'd, 'h) Engine \<Rightarrow> go_context \<Rightarrow> ('st, 'br, 'd, 'h) sched \<Rightarrow> ('st, 'br, 'd, 'h) sched flow" where
  "publishReadyTasks engine ctx s = publish_loop engine ctx (sort (mkeys (sc_ready s))) s"

definition stalled :: "('st, 'br, 'd, 'h) sched \<Rightarrow> bool" where
  "stalled s \<longleftrightarrow> sc_ready s = [] \<and> sc_inFlight s = [] \<and> \<not> snd (nextReliabilityDeadline (sc_run s))"

definition loop_stalled :: "('st, 'br, 'd, 'h) Engine \<Rightarrow> (nat \<Rightarrow> Time) \<Rightarrow> ('st, 'br, 'd, 'h) sched \<Rightarrow> ('st, 'br, 'd, 'h) sched flow" where
  "loop_stalled engine now s =
     (if stalled s then sched_fail engine now (Errorf ''workflow run %q stalled with unfinished tasks'' [FStr (run_id (sc_run s))]) s
      else Continue s)"

text \<open>\<open>ctxErr\<close> is what \<open>ctx.Err()\<close> answers at the head.\<close>

definition loop_head ::
  "('st, 'br, 'd, 'h) Engine \<Rightarrow> go_error option \<Rightarrow> go_context \<Rightarrow> (nat \<Rightarrow> Time) \<Rightarrow> ('st, 'br, 'd, 'h) sched \<Rightarrow> ('st, 'br, 'd, 'h) sched flow" where
  "loop_head engine ctxErr ctx now s =
     (case ctxErr of
        Some cause \<Rightarrow> sched_cancel engine now cause s
      | None \<Rightarrow>
          then_flow (loop_recover engine now s) (\<lambda>s.
          then_flow (loop_complete engine (\<lambda>i. now (i + 4)) s) (\<lambda>s.
          then_flow (publishReadyTasks engine ctx s) (loop_stalled engine (\<lambda>i. now (i + 7))))))"

section \<open>engine_broker.go: the branches of the select\<close>

definition stale_claim ::
  "('st, 'br, 'd, 'h) Engine \<Rightarrow> 'd workerClaimEvent \<Rightarrow> ('st, 'br, 'd, 'h) sched \<Rightarrow> ('st, 'br, 'd, 'h) sched flow" where
  "stale_claim engine claim s =
     (case bk_Nack (en_broker engine) (sc_broker s) durability (wc_delivery claim) of (err, br) \<Rightarrow>
        let s = s\<lparr>sc_broker := br\<rparr>
        in (case not_settled err of
              Some err \<Rightarrow> Return (Some (brokerOperationError ''nack stale worker delivery'' (run_id (sc_run s))
                                   (tm_ID (bk_Message (en_broker engine) (wc_delivery claim))) (Some err))) s
            | None \<Rightarrow> Continue (respond (wc_response claim) None s)))"

text \<open>A delivery that is not for this run: acknowledge it and stop.\<close>

definition reject_claim ::
  "('st, 'br, 'd, 'h) Engine \<Rightarrow> 'd workerClaimEvent \<Rightarrow> string \<Rightarrow> go_error option \<Rightarrow> ('st, 'br, 'd, 'h) sched \<Rightarrow> ('st, 'br, 'd, 'h) sched flow" where
  "reject_claim engine claim operation err s =
     (case acknowledgeDelivery engine (Some (wc_delivery claim)) s of (ackErr, s) \<Rightarrow>
        Return (Some (brokerOperationError operation (run_id (sc_run s)) (tm_ID (bk_Message (en_broker engine) (wc_delivery claim)))
                        (errors_Join [err, ackErr])))
          (respond (wc_response claim) None s))"

text \<open>Lease the task to the worker that brought its delivery, persist the lease, and hand out the job.\<close>

definition lease_claim ::
  "('st, 'br, 'd, 'h) Engine \<Rightarrow> (nat \<Rightarrow> Time) \<Rightarrow> 'd workerClaimEvent \<Rightarrow> TaskID \<Rightarrow> TaskRun \<Rightarrow> ('st, 'br, 'd, 'h) sched \<Rightarrow> ('st, 'br, 'd, 'h) sched flow" where
  "lease_claim engine now claim taskID task s =
     (case startTaskAttempt (sc_run s) (now 0) taskID (wc_workerID claim) (cf_leaseDuration (en_config engine)) of
        Inl err \<Rightarrow> sched_fail engine (\<lambda>i. now (i + 1)) (Wrapf ''lease delivered task: %w'' [] err) s
      | Inr (attemptID, run) \<Rightarrow>
          then_flow (save_or_return engine ''lease delivered task'' (s\<lparr>sc_run := run\<rparr>)) (\<lambda>s.
            let job = \<lparr>tj_request = \<lparr>rq_RunID = run_id (sc_run s), rq_TaskRunID = tr_TaskRunID task, rq_AttemptID = attemptID,
                         rq_Task = cloneTaskDefinition (requireDefinition (taskDefinitionsByID (run_definition (sc_run s))) taskID)\<rparr>,
                       tj_handler = mget (sc_handlers s) taskID\<rparr>
            in Continue (respond (wc_response claim) (Some job)
                 (s\<lparr>sc_ready := mdel taskID (sc_ready s), sc_inFlight := mput attemptID () (sc_inFlight s),
                    sc_activeDeliveries := mput (wc_workerID claim) (wc_delivery claim) (sc_activeDeliveries s)\<rparr>))))"

definition settle_claim ::
  "('st, 'br, 'd, 'h) Engine \<Rightarrow> 'd workerClaimEvent \<Rightarrow> ('st, 'br, 'd, 'h) sched \<Rightarrow> ('st, 'br, 'd, 'h) sched flow" where
  "settle_claim engine claim s =
     (case acknowledgeDelivery engine (Some (wc_delivery claim)) s of
        (Some err, s) \<Rightarrow> Return (Some err) s
      | (None, s) \<Rightarrow> Continue (respond (wc_response claim) None s))"

definition handle_claim ::
  "('st, 'br, 'd, 'h) Engine \<Rightarrow> (nat \<Rightarrow> Time) \<Rightarrow> 'd workerClaimEvent \<Rightarrow> ('st, 'br, 'd, 'h) sched \<Rightarrow> ('st, 'br, 'd, 'h) sched flow" where
  "handle_claim engine now claim s =
     (if current_worker s (wc_slot claim) \<noteq> wc_workerID claim then stale_claim engine claim s
      else
        let run = sc_run s; message = bk_Message (en_broker engine) (wc_delivery claim)
        in (case decodeTaskDispatch (en_codec engine) message of
              Inl err \<Rightarrow> reject_claim engine claim ''decode task delivery'' (Some err) s
            | Inr dispatch \<Rightarrow>
                if dp_RunID dispatch \<noteq> run_id run \<or> tm_Topic message \<noteq> sub_Topic (taskSubscription (en_codec engine) (run_id run)) \<or>
                   tm_ID message \<noteq> dp_AttemptID dispatch
                then reject_claim engine claim ''decode task delivery'' None s
                else
                  (case run_Task run (dp_TaskID dispatch) of
                     None \<Rightarrow> reject_claim engine claim ''validate task delivery'' (Some (errors_New ''delivery references unknown task identity'')) s
                   | Some task \<Rightarrow>
                       if dp_TaskRunID dispatch \<noteq> TaskRunIDFor (run_id run) (dp_TaskID dispatch)
                       then reject_claim engine claim ''validate task delivery'' (Some (errors_New ''delivery references unknown task identity'')) s
                       else if tr_Status task = TaskRunReady \<and> dp_AttemptID dispatch = AttemptIDFor (tr_TaskRunID task) (tr_AttemptCount task + 1)
                       then lease_claim engine now claim (dp_TaskID dispatch) task s
                       else if tr_Status task = TaskRunRunning \<and> dp_AttemptID dispatch = tr_CurrentAttemptID task
                       then Continue (s\<lparr>sc_pendingClaims := mput (dp_AttemptID dispatch)
                              (mget_or [] (sc_pendingClaims s) (dp_AttemptID dispatch) @ [claim]) (sc_pendingClaims s)\<rparr>)
                       else settle_claim engine claim s)))"

definition handle_heartbeat ::
  "('st, 'br, 'd, 'h) Engine \<Rightarrow> (nat \<Rightarrow> Time) \<Rightarrow> WorkerID \<Rightarrow> ('st, 'br, 'd, 'h) sched \<Rightarrow> ('st, 'br, 'd, 'h) sched flow" where
  "handle_heartbeat engine now workerID s =
     (case mget (sc_workers s) workerID of
        None \<Rightarrow> Continue s
      | Some slot \<Rightarrow>
          if current_worker s slot \<noteq> workerID then Continue s
          else (case recordWorkerHeartbeat (sc_run s) (now 0) workerID (cf_leaseDuration (en_config engine)) of
                  Inl err \<Rightarrow> sched_fail engine (\<lambda>i. now (i + 1)) (Wrapf ''record worker heartbeat: %w'' [] err) s
                | Inr run \<Rightarrow>
                    then_flow (save_or_return engine ''record worker heartbeat'' (s\<lparr>sc_run := run\<rparr>)) (\<lambda>s.
                      case mget (sc_activeDeliveries s) workerID of
                        None \<Rightarrow> Continue s
                      | Some delivery \<Rightarrow>
                          (case bk_Progress (en_broker engine) (sc_broker s) durability delivery of
                             (Some err, br) \<Rightarrow> Return (Some (brokerOperationError ''extend task delivery'' (run_id (sc_run s))
                                                  (tm_ID (bk_Message (en_broker engine) delivery)) (Some err))) (s\<lparr>sc_broker := br\<rparr>)
                           | (None, br) \<Rightarrow> Continue (s\<lparr>sc_broker := br\<rparr>)))))"

definition handle_lost ::
  "('st, 'br, 'd, 'h) Engine \<Rightarrow> WorkerID \<Rightarrow> int \<Rightarrow> ('st, 'br, 'd, 'h) sched \<Rightarrow> ('st, 'br, 'd, 'h) sched flow" where
  "handle_lost engine workerID slot s =
     Continue (if current_worker s slot = workerID
               then replaceWorker engine workerID (s\<lparr>sc_activeDeliveries := mdel workerID (sc_activeDeliveries s)\<rparr>) else s)"

definition handle_broker_error ::
  "WorkerID \<Rightarrow> int \<Rightarrow> go_error \<Rightarrow> ('st, 'br, 'd, 'h) sched \<Rightarrow> ('st, 'br, 'd, 'h) sched flow" where
  "handle_broker_error workerID slot err s =
     (if current_worker s slot \<noteq> workerID then Continue s
      else Return (Some (brokerOperationError ''receive task'' (run_id (sc_run s)) '''' (Some err))) s)"

text \<open>What a completion changes before it is acknowledged; the second component is \<open>terminalFailure\<close>.\<close>

definition add_ready :: "TaskDefinition list \<Rightarrow> ('st, 'br, 'd, 'h) sched \<Rightarrow> ('st, 'br, 'd, 'h) sched" where
  "add_ready newReady s = s\<lparr>sc_ready := fold (\<lambda>task. mput (td_ID task) task) newReady (sc_ready s)\<rparr>"

definition record_outcome ::
  "('st, 'br, 'd, 'h) Engine \<Rightarrow> (nat \<Rightarrow> Time) \<Rightarrow> 'd brokerTaskResult \<Rightarrow> CompletionOutcome \<Rightarrow> ('st, 'br, 'd, 'h) sched \<Rightarrow> ('st, 'br, 'd, 'h) sched flow" where
  "record_outcome engine now result outcome s =
     (case outcome of
        CompletionIgnored \<Rightarrow> Continue s
      | CompletionSucceeded \<Rightarrow>
          let s = s\<lparr>sc_completed := mput (rs_taskID result) () (sc_completed s)\<rparr>
          in (case markNewReady (\<lambda>i. now (i + 2)) (sc_run s) (run_definition (sc_run s)) (sc_completed s) of
                (Inl err, run) \<Rightarrow> sched_fail engine now (Wrapf ''unlock dependent tasks: %w'' [] err) (s\<lparr>sc_run := run\<rparr>)
              | (Inr newReady, run) \<Rightarrow>
                  save_or_return engine ''record completion and unlock dependencies'' (add_ready newReady (s\<lparr>sc_run := run\<rparr>)))
      | CompletionRetryScheduled \<Rightarrow>
          save_or_return engine ''schedule task retry''
            (case run_Task (sc_run s) (rs_taskID result) of
               None \<Rightarrow> s
             | Some task \<Rightarrow> if tr_Status task = TaskRunReady
                 then s\<lparr>sc_ready := mput (rs_taskID result)
                          (requireDefinition (taskDefinitionsByID (run_definition (sc_run s))) (rs_taskID result)) (sc_ready s)\<rparr>
                 else s)
      | CompletionFailed \<Rightarrow> save_or_return engine ''record terminal task failure'' s)"

text \<open>A completion fails for good only with an error, so \<open>terminalFailure\<close> always has a cause.\<close>

definition terminal_failure :: "RunID \<Rightarrow> 'd brokerTaskResult \<Rightarrow> CompletionOutcome \<Rightarrow> go_error option" where
  "terminal_failure runID result outcome =
     (if outcome = CompletionFailed then map_option (TaskExecutionError runID (rs_taskID result)) (rs_err result) else None)"

definition settle_result ::
  "('st, 'br, 'd, 'h) Engine \<Rightarrow> (nat \<Rightarrow> Time) \<Rightarrow> 'd brokerTaskResult \<Rightarrow> go_error option \<Rightarrow> ('st, 'br, 'd, 'h) sched \<Rightarrow> ('st, 'br, 'd, 'h) sched flow" where
  "settle_result engine now result terminalFailure s =
     (case acknowledgeDelivery engine (Some (rs_delivery result)) s of
        (Some err, s) \<Rightarrow> Return (Some err) s
      | (None, s) \<Rightarrow>
          (case acknowledgePendingClaims engine (mget_or [] (sc_pendingClaims s) (rs_attemptID result)) s of
             (Some err, s) \<Rightarrow> Return (Some err) s
           | (None, s) \<Rightarrow>
               let s = s\<lparr>sc_pendingClaims := mdel (rs_attemptID result) (sc_pendingClaims s)\<rparr>
               in (case terminalFailure of None \<Rightarrow> Continue s | Some cause \<Rightarrow> sched_fail engine now cause s)))"

definition handle_result ::
  "('st, 'br, 'd, 'h) Engine \<Rightarrow> go_error option \<Rightarrow> (nat \<Rightarrow> Time) \<Rightarrow> 'd brokerTaskResult \<Rightarrow> ('st, 'br, 'd, 'h) sched \<Rightarrow> ('st, 'br, 'd, 'h) sched flow" where
  "handle_result engine ctxErr now result s =
     (case ctxErr of
        Some cause \<Rightarrow> sched_cancel engine now cause s
      | None \<Rightarrow>
          let s = s\<lparr>sc_activeDeliveries := mdel (rs_workerID result) (sc_activeDeliveries s),
                    sc_inFlight := mdel (rs_attemptID result) (sc_inFlight s)\<rparr>
          in (case completeTaskAttempt (sc_run s) (now 0) (rs_taskID result) (rs_taskRunID result) (rs_workerID result)
                     (rs_attemptID result) (rs_output result) (rs_err result) of
                Inl err \<Rightarrow> sched_fail engine (\<lambda>i. now (i + 1)) (Wrapf ''record identified task completion: %w'' [] err) s
              | Inr (outcome, run) \<Rightarrow>
                  then_flow (record_outcome engine (\<lambda>i. now (i + 3)) result outcome (s\<lparr>sc_run := run\<rparr>))
                    (settle_result engine (\<lambda>i. now (i + 1)) result (terminal_failure (run_id run) result outcome))))"

datatype 'd sched_event =
    ClaimEvent "'d workerClaimEvent"
  | HeartbeatEvent WorkerID
  | LostEvent WorkerID int
  | BrokerErrorEvent WorkerID int go_error
  | ResultEvent "'d brokerTaskResult"
  | TimerEvent
  | DoneEvent go_error

fun handle_event ::
  "('st, 'br, 'd, 'h) Engine \<Rightarrow> go_error option \<Rightarrow> (nat \<Rightarrow> Time) \<Rightarrow> 'd sched_event \<Rightarrow> ('st, 'br, 'd, 'h) sched \<Rightarrow> ('st, 'br, 'd, 'h) sched flow" where
  "handle_event engine ctxErr now (ClaimEvent claim) s = handle_claim engine now claim s"
| "handle_event engine ctxErr now (HeartbeatEvent workerID) s = handle_heartbeat engine now workerID s"
| "handle_event engine ctxErr now (LostEvent workerID slot) s = handle_lost engine workerID slot s"
| "handle_event engine ctxErr now (BrokerErrorEvent workerID slot err) s = handle_broker_error workerID slot err s"
| "handle_event engine ctxErr now (ResultEvent result) s = handle_result engine ctxErr now result s"
| "handle_event engine ctxErr now TimerEvent s = Continue s"
| "handle_event engine ctxErr now (DoneEvent cause) s = sched_cancel engine now cause s"

section \<open>engine_broker.go: executeBrokerRun\<close>

text \<open>What one iteration of the loop observes: the context at its head, while publishing and when a result arrives,
  the readings of the clock before and after the \<open>select\<close>, what the workers have done to the broker when the \<open>select\<close>
  returns (\<open>Receive\<close>, and \<open>Nack\<close> when they stop), and the event.\<close>

record ('br, 'd) iteration =
  it_ctxErr :: "go_error option"
  it_publishContext :: go_context
  it_resultErr :: "go_error option"
  it_headNow :: "nat \<Rightarrow> Time"
  it_workers :: "'br \<Rightarrow> 'br"
  it_eventNow :: "nat \<Rightarrow> Time"
  it_event :: "'d sched_event"

definition loop_iteration :: "('st, 'br, 'd, 'h) Engine \<Rightarrow> ('br, 'd) iteration \<Rightarrow> ('st, 'br, 'd, 'h) sched \<Rightarrow> ('st, 'br, 'd, 'h) sched flow" where
  "loop_iteration engine it s =
     then_flow (loop_head engine (it_ctxErr it) (it_publishContext it) (it_headNow it) s)
       (\<lambda>s. handle_event engine (it_resultErr it) (it_eventNow it) (it_event it) (s\<lparr>sc_broker := it_workers it (sc_broker s)\<rparr>))"

fun schedule_loop :: "('st, 'br, 'd, 'h) Engine \<Rightarrow> ('br, 'd) iteration list \<Rightarrow> ('st, 'br, 'd, 'h) sched \<Rightarrow> ('st, 'br, 'd, 'h) sched flow" where
  "schedule_loop engine [] s = Continue s"
| "schedule_loop engine (it # its) s = then_flow (loop_iteration engine it s) (schedule_loop engine its)"

definition initial_inFlight :: "WorkflowRun \<Rightarrow> (AttemptID, unit) gomap" where
  "initial_inFlight run = fold (\<lambda>task inFlight. if tr_Status task = TaskRunRunning \<and> tr_CurrentAttemptID task \<noteq> ''''
     then mput (tr_CurrentAttemptID task) () inFlight else inFlight) (sortedTasksLocked run) []"

text \<open>The scheduler before its loop: the caches of a restored run, the tasks that are ready now, and one worker per
  slot.\<close>

definition prepare_sched ::
  "('st, 'br, 'd, 'h) Engine \<Rightarrow> (nat \<Rightarrow> Time) \<Rightarrow> (TaskID, 'h) gomap \<Rightarrow> WorkflowRun \<Rightarrow> 'st \<Rightarrow> 'br \<Rightarrow> ('st, 'br, 'd, 'h) sched flow" where
  "prepare_sched engine now handlers run st br =
     (let definition = run_definition run;
          s = \<lparr>sc_run = run, sc_store = st, sc_broker = br, sc_handlers = handlers, sc_completed = completedTaskIDs run, sc_ready = [],
               sc_workers = [], sc_currentBySlot = [], sc_generations = [], sc_spawned = [], sc_inFlight = [],
               sc_activeDeliveries = [], sc_pendingClaims = [], sc_published = [], sc_responses = []\<rparr>;
          s = add_ready (existingReadyTasks run definition) s
      in case markNewReady (\<lambda>i. now (i + 2)) run definition (sc_completed s) of
           (Inl err, run) \<Rightarrow> sched_fail engine now (Wrapf ''prepare workflow run: %w'' [] err) (s\<lparr>sc_run := run\<rparr>)
         | (Inr newReady, run) \<Rightarrow>
             let s = add_ready newReady (s\<lparr>sc_run := run\<rparr>)
             in then_flow
                  (if newReady \<noteq> [] then
                     (case sched_save engine ''make dependency-ready tasks schedulable'' s of
                        (Some err, s) \<Rightarrow> sched_fail engine now err s
                      | (None, s) \<Rightarrow> Continue s)
                   else Continue s)
                  (\<lambda>s. let s = fold (\<lambda>slot. spawnWorker engine slot) (map int [1 ..< nat (en_workerCount engine) + 1]) s
                       in Continue (s\<lparr>sc_inFlight := initial_inFlight (sc_run s)\<rparr>)))"

definition executeBrokerRun ::
  "('st, 'br, 'd, 'h) Engine \<Rightarrow> (nat \<Rightarrow> Time) \<Rightarrow> ('br, 'd) iteration list \<Rightarrow> (TaskID, 'h) gomap \<Rightarrow> WorkflowRun \<Rightarrow> 'st \<Rightarrow> 'br \<Rightarrow> ('st, 'br, 'd, 'h) sched flow" where
  "executeBrokerRun engine now its handlers run st br =
     then_flow (prepare_sched engine now handlers run st br) (schedule_loop engine its)"

section \<open>engine.go: Execute and Recover\<close>

text \<open>\<open>Finished\<close> is a return (\<open>None\<close> for a nil run); \<open>Scheduling\<close> is the scheduler at work or returned.\<close>

datatype ('st, 'br, 'd, 'h) engine_result =
    Finished "WorkflowRun option" "go_error option" 'st
  | Scheduling "('st, 'br, 'd, 'h) sched flow"

definition finished_run :: "go_error option \<times> WorkflowRun \<times> 'st \<Rightarrow> ('st, 'br, 'd, 'h) engine_result" where
  "finished_run r = (case r of (err, run, st) \<Rightarrow> Finished (Some run) err st)"

text \<open>\<open>ctxErr\<close> is what \<open>ctx.Err()\<close> answers once the run is created.\<close>

definition Execute ::
  "('st, 'br, 'd, 'h) Engine \<Rightarrow> go_context \<Rightarrow> go_error option \<Rightarrow> (nat \<Rightarrow> Time) \<Rightarrow> ('br, 'd) iteration list \<Rightarrow> RunID \<Rightarrow> WorkflowDefinition
   \<Rightarrow> 'st \<Rightarrow> 'br \<Rightarrow> ('st, 'br, 'd, 'h) engine_result" where
  "Execute engine ctx ctxErr now its runID definition st br =
     (if ctx = NilContext then Finished None (Some (errors_New ''execute workflow: context is nil'')) st
      else
        (case newWorkflowRun runID definition (now 0) of
           Inl err \<Rightarrow> Finished None (Some err) st
         | Inr run \<Rightarrow>
             let definition = run_definition run
             in (case resolveHandlers (en_registry engine) definition of
                   Inl err \<Rightarrow> Finished None (Some err) st
                 | Inr handlers \<Rightarrow>
                     (case st_SaveWorkflow (en_store engine) st durability definition of
                        (Some err, st) \<Rightarrow> Finished None (Some (persistenceError ''save workflow definition'' runID err)) st
                      | (None, st) \<Rightarrow>
                          (case st_CreateRun (en_store engine) st durability (Snapshot run) of
                             (Inl err, st) \<Rightarrow> Finished None (Some (persistenceError ''create workflow run'' runID err)) st
                           | (Inr created, st) \<Rightarrow>
                               (case applyPersistedVersion run (Snapshot run) created of
                                  Inl err \<Rightarrow> Finished None (Some (persistenceError ''create workflow run'' runID err)) st
                                | Inr run \<Rightarrow>
                                    (case ctxErr of
                                       Some cause \<Rightarrow> finished_run (cancelRun (en_store engine) durability (\<lambda>i. now (i + 1)) st run cause)
                                     | None \<Rightarrow>
                                         (case transitionWorkflow run (now 1) WorkflowRunRunning of
                                            Inl err \<Rightarrow> Finished (Some run) (Some (Wrapf ''start workflow run: %w'' [] err)) st
                                          | Inr run \<Rightarrow>
                                              (case saveRun (en_store engine) durability st run ''start workflow run'' of
                                                 (Some err, run, st) \<Rightarrow> Finished (Some run) (Some err) st
                                               | (None, run, st) \<Rightarrow>
                                                   Scheduling (executeBrokerRun engine (\<lambda>i. now (i + 2)) its handlers run st br))))))))))"

definition run_finished :: "WorkflowRunStatus \<Rightarrow> bool" where
  "run_finished status \<longleftrightarrow> status = WorkflowRunSucceeded \<or> status = WorkflowRunFailed \<or> status = WorkflowRunCanceled"

text \<open>The end of \<open>Recover\<close>: a run that was pending is started, then scheduled.\<close>

definition resume_run ::
  "('st, 'br, 'd, 'h) Engine \<Rightarrow> go_error option \<Rightarrow> (nat \<Rightarrow> Time) \<Rightarrow> ('br, 'd) iteration list \<Rightarrow> WorkflowDefinition \<Rightarrow> WorkflowRun \<Rightarrow> 'st \<Rightarrow> 'br
   \<Rightarrow> ('st, 'br, 'd, 'h) engine_result" where
  "resume_run engine ctxErr now its definition run st br =
     (case ctxErr of
        Some cause \<Rightarrow> finished_run (cancelRun (en_store engine) durability now st run cause)
      | None \<Rightarrow>
          (case resolveHandlers (en_registry engine) definition of
             Inl err \<Rightarrow> Finished (Some run) (Some err) st
           | Inr handlers \<Rightarrow> Scheduling (executeBrokerRun engine now its handlers run st br)))"

definition recover_run ::
  "('st, 'br, 'd, 'h) Engine \<Rightarrow> go_error option \<Rightarrow> (nat \<Rightarrow> Time) \<Rightarrow> ('br, 'd) iteration list \<Rightarrow> WorkflowDefinition \<Rightarrow> WorkflowRun \<Rightarrow> 'st \<Rightarrow> 'br
   \<Rightarrow> ('st, 'br, 'd, 'h) engine_result" where
  "recover_run engine ctxErr now its definition run st br =
     (if run_finished (run_status run) then Finished (Some run) None st
      else case recoveredTerminalTaskState run of
        Some (status, cause) \<Rightarrow>
          let run = cancelUnfinished run (now 0) (Some cause)
          in (case transitionWorkflow run (now 1) status of
                Inl err \<Rightarrow> Finished (Some run) (Some (Wrapf ''finish recovered workflow run: %w'' [] err)) st
              | Inr run \<Rightarrow> finished_run (saveRun (en_store engine) durability st run ''finish recovered workflow run''))
      | None \<Rightarrow>
          if run_status run = WorkflowRunPending then
            (case transitionWorkflow run (now 0) WorkflowRunRunning of
               Inl err \<Rightarrow> Finished (Some run) (Some (Wrapf ''start recovered workflow run: %w'' [] err)) st
             | Inr run \<Rightarrow>
                 (case saveRun (en_store engine) durability st run ''start recovered workflow run'' of
                    (Some err, run, st) \<Rightarrow> Finished (Some run) (Some err) st
                  | (None, run, st) \<Rightarrow> resume_run engine ctxErr (\<lambda>i. now (i + 1)) its definition run st br))
          else resume_run engine ctxErr now its definition run st br)"

definition Recover ::
  "('st, 'br, 'd, 'h) Engine \<Rightarrow> go_context \<Rightarrow> go_error option \<Rightarrow> (nat \<Rightarrow> Time) \<Rightarrow> ('br, 'd) iteration list \<Rightarrow> RunID
   \<Rightarrow> 'st \<Rightarrow> 'br \<Rightarrow> ('st, 'br, 'd, 'h) engine_result" where
  "Recover engine ctx ctxErr now its runID st br =
     (if ctx = NilContext then Finished None (Some (errors_New ''recover workflow: context is nil'')) st
      else if \<not> validRunID runID then Finished None (Some (InvalidRunIDError runID)) st
      else
        (case st_LoadRun (en_store engine) st ctx runID of
           Inl err \<Rightarrow> Finished None (Some (persistenceError ''load workflow run'' runID err)) st
         | Inr None \<Rightarrow> Finished None (Some (RunNotFoundError runID)) st
         | Inr (Some snapshot) \<Rightarrow>
             (case st_LoadWorkflow (en_store engine) st ctx (ws_WorkflowID snapshot) of
                Inl err \<Rightarrow> Finished None (Some (persistenceError ''load workflow definition'' runID err)) st
              | Inr None \<Rightarrow> Finished None (Some (WorkflowNotFoundError (ws_WorkflowID snapshot))) st
              | Inr (Some definition) \<Rightarrow>
                  (case restoreWorkflowRun snapshot definition of
                     Inl err \<Rightarrow> Finished None (Some (Wrapf ''restore workflow run %q: %w'' [FStr runID] err)) st
                   | Inr run \<Rightarrow> recover_run engine ctxErr now its definition run st br))))"

section \<open>engine_broker.go: a worker\<close>

text \<open>Where \<open>executeBrokerWorker\<close> waits, what it may be woken by, and what it does then. A select that could also
  take \<open>ctx.Done()\<close> is woken by \<open>WorkerDone\<close>.\<close>

datatype ('d, 'h) worker_phase =
    WorkerStarting
  | WorkerReceiving
  | WorkerClaiming 'd
  | WorkerAwaiting 'd
  | WorkerExecuting 'd "'h taskJob"
  | WorkerReporting 'd "'h taskJob" string "go_error option"
  | WorkerReportingLost
  | WorkerReportingError go_error
  | WorkerStopped

datatype ('d, 'h) worker_input =
    WorkerDone
  | WorkerSent
  | WorkerReceived 'd
  | WorkerReceiveFailed go_error bool
  | WorkerAnswer "'h taskJob option"
  | WorkerHandled handler_result

datatype ('d, 'h) worker_action =
    SendHeartbeat
  | SendClaim 'd
  | SendResult "'d brokerTaskResult"
  | SendLost
  | SendBrokerError go_error
  | NackDelivery 'd
  | StopHeartbeats

definition job_result :: "WorkerID \<Rightarrow> 'd \<Rightarrow> 'h taskJob \<Rightarrow> string \<Rightarrow> go_error option \<Rightarrow> 'd brokerTaskResult" where
  "job_result workerID delivery job output err =
     \<lparr>rs_taskID = td_ID (rq_Task (tj_request job)), rs_taskRunID = rq_TaskRunID (tj_request job), rs_workerID = workerID,
      rs_attemptID = rq_AttemptID (tj_request job), rs_output = output, rs_err = err, rs_delivery = delivery\<rparr>"

text \<open>\<open>WorkerReceiveFailed err canceled\<close>: \<open>Receive\<close> returned \<open>err\<close>, and \<open>canceled\<close> says whether the worker's context
  was done then.\<close>

fun worker_step :: "WorkerID \<Rightarrow> ('d, 'h) worker_phase \<Rightarrow> ('d, 'h) worker_input \<Rightarrow> (('d, 'h) worker_phase \<times> ('d, 'h) worker_action list) option" where
  "worker_step w WorkerStarting WorkerDone = Some (WorkerStopped, [StopHeartbeats])"
| "worker_step w WorkerStarting WorkerSent = Some (WorkerReceiving, [SendHeartbeat])"
| "worker_step w WorkerReceiving (WorkerReceiveFailed err canceled) =
     (if canceled \<or> errors_Is err ContextCanceled then Some (WorkerStopped, [StopHeartbeats]) else Some (WorkerReportingError err, []))"
| "worker_step w WorkerReceiving (WorkerReceived delivery) = Some (WorkerClaiming delivery, [])"
| "worker_step w (WorkerReportingError err) WorkerDone = Some (WorkerStopped, [StopHeartbeats])"
| "worker_step w (WorkerReportingError err) WorkerSent = Some (WorkerStopped, [SendBrokerError err, StopHeartbeats])"
| "worker_step w (WorkerClaiming delivery) WorkerDone = Some (WorkerStopped, [NackDelivery delivery, StopHeartbeats])"
| "worker_step w (WorkerClaiming delivery) WorkerSent = Some (WorkerAwaiting delivery, [SendClaim delivery])"
| "worker_step w (WorkerAwaiting delivery) WorkerDone = Some (WorkerStopped, [NackDelivery delivery, StopHeartbeats])"
| "worker_step w (WorkerAwaiting delivery) (WorkerAnswer None) = Some (WorkerReceiving, [])"
| "worker_step w (WorkerAwaiting delivery) (WorkerAnswer (Some job)) = Some (WorkerExecuting delivery job, [])"
| "worker_step w (WorkerExecuting delivery job) (WorkerHandled result) =
     (case invokeHandler result of (output, err) \<Rightarrow>
        if (case err of None \<Rightarrow> False | Some err \<Rightarrow> errors_Is err ErrWorkerDisappeared)
        then Some (WorkerReportingLost, [NackDelivery delivery, StopHeartbeats])
        else Some (WorkerReporting delivery job output err, []))"
| "worker_step w WorkerReportingLost WorkerDone = Some (WorkerStopped, [])"
| "worker_step w WorkerReportingLost WorkerSent = Some (WorkerStopped, [SendLost])"
| "worker_step w (WorkerReporting delivery job output err) WorkerDone = Some (WorkerStopped, [NackDelivery delivery, StopHeartbeats])"
| "worker_step w (WorkerReporting delivery job output err) WorkerSent =
     Some (WorkerReceiving, [SendResult (job_result w delivery job output err)])"
| "worker_step w _ _ = None"

end
