(* ===== verification/FF_Journal.thy ===== *)
theory FF_Journal
  imports FF_FileStore
begin

text \<open>
  What the embedded store guarantees: opening the journal that a store wrote gives back that store, a
  crash in the middle of an append loses at most the operation that was under way, and concurrent
  writers of a run cannot overwrite each other.
\<close>

section \<open>Clones and frames\<close>

lemma fs_cloneDefinition_eq: "fs_cloneDefinition = cloneDefinition"
  by (auto simp: fs_cloneDefinition_def cloneDefinition_def fun_eq_iff)

lemma fs_cloneDefinition_idem [simp]: "fs_cloneDefinition (fs_cloneDefinition d) = fs_cloneDefinition d"
  by (simp add: fs_cloneDefinition_def)

lemma fs_cloneDefinition_ID [simp]: "wd_ID (fs_cloneDefinition d) = wd_ID d"
  by (simp add: fs_cloneDefinition_def)

lemma cloneSnapshot_id [simp]: "cloneSnapshot s = s"
proof -
  have "(case tr_Lease t of None \<Rightarrow> t | Some lease \<Rightarrow> t\<lparr>tr_Lease := Some lease\<rparr>) = t" for t :: TaskRun
    by (cases "tr_Lease t") auto
  then show ?thesis by (simp add: cloneSnapshot_def)
qed

text \<open>Applying a record neither reads nor writes the file.\<close>

definition at_file :: "string \<Rightarrow> FileStore \<Rightarrow> FileStore" where
  "at_file file store = store\<lparr>fs_file := file\<rparr>"

lemma at_file_simps [simp]:
  "fs_file (at_file f s) = f" "fs_workflows (at_file f s) = fs_workflows s" "fs_runs (at_file f s) = fs_runs s"
  "fs_users (at_file f s) = fs_users s" "fs_projects (at_file f s) = fs_projects s"
  "fs_memberships (at_file f s) = fs_memberships s" "fs_ownerships (at_file f s) = fs_ownerships s"
  "fs_auditEvents (at_file f s) = fs_auditEvents s" "fs_auditIDs (at_file f s) = fs_auditIDs s"
  "at_file f (at_file g s) = at_file f s" "at_file (fs_file s) s = s"
  by (simp_all add: at_file_def)

lemma at_file_frame [simp]:
  "membership_of (at_file f s) = membership_of s"
  "validateRunDefinition (at_file f s) = validateRunDefinition s"
  "security_record_error (at_file f s) = security_record_error s"
  unfolding membership_of_def validateRunDefinition_def security_record_error_def at_file_simps by (rule refl)+

lemma bindE_map_sum: "bindE m (\<lambda>x. map_sum id g (f x)) = map_sum id g (bindE m f)"
  by (cases m) simp_all

lemma put_at_file [simp]:
  "put_user (at_file f s) u = at_file f (put_user s u)"
  "put_project (at_file f s) p = at_file f (put_project s p)"
  "put_membership (at_file f s) m = at_file f (put_membership s m)"
  "put_workflow (at_file f s) d = at_file f (put_workflow s d)"
  "put_ownership (at_file f s) ow = at_file f (put_ownership s ow)"
  "put_audit (at_file f s) e = at_file f (put_audit s e)"
  by (simp_all add: put_user_def put_project_def put_membership_def put_workflow_def put_ownership_def put_audit_def
      at_file_def Let_def split: option.split)

lemma applySecurityRecord_at_file: "applySecurityRecord (at_file f s) r = map_sum id (at_file f) (applySecurityRecord s r)"
  by (cases "security_record_error s r") (simp_all add: applySecurityRecord_def Let_def)

lemma at_file_runs: "(at_file f s)\<lparr>fs_runs := r\<rparr> = at_file f (s\<lparr>fs_runs := r\<rparr>)"
  by (simp add: at_file_def)

lemma applyRunRecord_at_file: "applyRunRecord (at_file f s) op x = map_sum id (at_file f) (applyRunRecord s op x)"
  unfolding applyRunRecord_def Let_def at_file_simps at_file_frame bindE_map_sum [symmetric] cloneSnapshot_id
    if_distrib [of "map_sum id (at_file f)"] map_sum.simps id_apply at_file_runs
  by (rule refl)

lemma apply_at_file:
  "applyWorkflowRecord (at_file f s) d = map_sum id (at_file f) (applyWorkflowRecord s d)"
  "applyCreateProject (at_file f s) r u p m e = map_sum id (at_file f) (applyCreateProject s r u p m e)"
  "applySaveProject (at_file f s) r p e = map_sum id (at_file f) (applySaveProject s r p e)"
  "applyPutMembership (at_file f s) r u m e = map_sum id (at_file f) (applyPutMembership s r u m e)"
  "applyOwnedWorkflow (at_file f s) r d ow = map_sum id (at_file f) (applyOwnedWorkflow s r d ow)"
  unfolding applyWorkflowRecord_def applyCreateProject_def applySaveProject_def applyPutMembership_def applyOwnedWorkflow_def
    bindE_map_sum [symmetric]
  by (intro arg_cong [where f = "bindE _"] ext; simp add: applySecurityRecord_at_file split: option.split; simp add: at_file_def)+

lemma applyRecord_at_file: "applyRecord (at_file f s) r = map_sum id (at_file f) (applyRecord s r)"
  unfolding applyRecord_def prod.case apply_at_file applyRunRecord_at_file if_distrib [of "map_sum id (at_file f)"]
    option.case_distrib [of "map_sum id (at_file f)"] map_sum.simps id_apply
  by (rule refl)

lemma applyRecord_file: "applyRecord s r = Inr s2 \<Longrightarrow> fs_file s2 = fs_file s"
  using applyRecord_at_file [of "fs_file s" s r] by (metis Inr_inject at_file_simps(1,11) map_sum.simps(2))

section \<open>Lines\<close>

text \<open>What the store relies on of the JSON encoding: decoding inverts encoding for the records in \<open>R\<close>
  and for their envelopes, and an encoded envelope has no line break.\<close>

definition codec_laws :: "journal_codec \<Rightarrow> journalRecord set \<Rightarrow> bool" where
  "codec_laws codec R \<longleftrightarrow>
     (\<forall>r \<in> R. \<forall>p. cd_marshal codec r = Inr p \<longrightarrow> cd_unmarshal codec p = Inr r \<and>
        (\<forall>e. cd_wrap codec (cd_digest codec p, p) = Inr e \<longrightarrow>
           cd_unwrap codec (e @ [newline]) = Inr (cd_digest codec p, p) \<and> newline \<notin> set e))"

text \<open>The line of a record, and the lines of a journal.\<close>

definition record_line :: "journal_codec \<Rightarrow> journalRecord \<Rightarrow> string option" where
  "record_line codec r = (case cd_marshal codec r of Inl _ \<Rightarrow> None
     | Inr p \<Rightarrow> (case cd_wrap codec (cd_digest codec p, p) of Inl _ \<Rightarrow> None | Inr e \<Rightarrow> Some (e @ [newline])))"

fun journal_lines :: "journal_codec \<Rightarrow> journalRecord list \<Rightarrow> string option" where
  "journal_lines codec [] = Some []"
| "journal_lines codec (r # rs) = (case (record_line codec r, journal_lines codec rs) of
     (Some l, Some ls) \<Rightarrow> Some (l @ ls) | _ \<Rightarrow> None)"

fun apply_all :: "FileStore \<Rightarrow> journalRecord list \<Rightarrow> go_error + FileStore" where
  "apply_all s [] = Inr s"
| "apply_all s (r # rs) = bindE (applyRecord s r) (\<lambda>s. apply_all s rs)"

lemma journal_lines_append:
  "journal_lines codec (rs @ rs') = Some l \<longleftrightarrow> (\<exists>a b. journal_lines codec rs = Some a \<and> journal_lines codec rs' = Some b \<and> l = a @ b)"
proof -
  have "journal_lines codec (rs @ rs') =
      (case (journal_lines codec rs, journal_lines codec rs') of (Some a, Some b) \<Rightarrow> Some (a @ b) | _ \<Rightarrow> None)"
    by (induction rs) (auto split: option.split)
  then show ?thesis by (auto split: option.splits)
qed

lemma apply_all_append: "apply_all s (rs @ rs') = bindE (apply_all s rs) (\<lambda>s. apply_all s rs')"
proof (induction rs arbitrary: s)
  case (Cons r rs)
  then show ?case by (cases "applyRecord s r") simp_all
qed simp

lemma apply_all_at_file: "apply_all (at_file f s) rs = map_sum id (at_file f) (apply_all s rs)"
proof (induction rs arbitrary: s)
  case (Cons r rs)
  then show ?case by (cases "applyRecord s r") (simp_all add: applyRecord_at_file)
qed simp

lemma ReadBytes_line: "newline \<notin> set e \<Longrightarrow> ReadBytes ((e @ [newline]) @ rest) = Some (e @ [newline], rest)"
  by (auto simp: ReadBytes_def dropWhile_append takeWhile_append split: if_splits list.splits)

lemma ReadBytes_None: "newline \<notin> set e \<Longrightarrow> ReadBytes e = None"
proof -
  assume "newline \<notin> set e"
  then have "dropWhile (\<lambda>c. c \<noteq> newline) e = []" by (auto simp: dropWhile_eq_Nil_conv)
  then show ?thesis by (simp only: ReadBytes_def list.case)
qed

lemma record_lineE:
  assumes "record_line codec r = Some l" "codec_laws codec R" "r \<in> R"
  obtains e where "l = e @ [newline]" "newline \<notin> set e"
    "\<And>s. jr_Version r = journalVersion \<Longrightarrow> replayLine codec s l = applyRecord s r"
proof -
  obtain p e where pe: "cd_marshal codec r = Inr p" "cd_wrap codec (cd_digest codec p, p) = Inr e" "l = e @ [newline]"
    using assms(1) by (auto simp: record_line_def split: sum.splits)
  then have "cd_unmarshal codec p = Inr r" "cd_unwrap codec l = Inr (cd_digest codec p, p)" "newline \<notin> set e"
    using assms(2,3) unfolding codec_laws_def by auto
  with pe(3) that show thesis by (simp add: replayLine_def)
qed

text \<open>A replay with no failing system call applies the complete records and drops an incomplete last one.\<close>

definition clean_io :: replay_io where
  "clean_io = \<lparr>ri_open = None, ri_read = None, ri_truncate = None, ri_sync = None, ri_close = None\<rparr>"

lemma replay_loop_lines:
  assumes "codec_laws codec R" "set rs \<subseteq> R" "\<forall>r \<in> set rs. jr_Version r = journalVersion"
    "journal_lines codec rs = Some ls" "newline \<notin> set tail" "apply_all s rs = Inr s'" "fs_file s = file"
    "length file = n + length ls + length tail"
  shows "replay_loop codec clean_io (ls @ tail) n s = (None, at_file (take (n + length ls) file) s')"
  using assms(2-8)
proof (induction rs arbitrary: ls n s)
  case Nil
  then have "replay_loop codec clean_io (ls @ tail) n s = replay_end clean_io tail n s"
    by (simp add: replay_loop.simps ReadBytes_None read_fault_def clean_io_def)
  then show ?case using Nil by (auto simp: replay_end_def clean_io_def at_file_def Let_def)
next
  case (Cons r rs)
  obtain l ls' where ls: "record_line codec r = Some l" "journal_lines codec rs = Some ls'" "ls = l @ ls'"
    using Cons.prems(3) by (auto split: option.splits)
  obtain e where e: "l = e @ [newline]" "newline \<notin> set e" "replayLine codec s l = applyRecord s r"
    using record_lineE [OF ls(1) assms(1)] Cons.prems(1,2) by (metis insert_iff list.simps(15) subset_iff)
  obtain s1 where s1: "applyRecord s r = Inr s1" "apply_all s1 rs = Inr s'" using Cons.prems(5) by (auto simp: bindE_Inr_iff)
  have same_file: "fs_file s1 = file" using Cons.prems(6) applyRecord_file [OF s1(1)] by simp
  have "replay_loop codec clean_io (ls @ tail) n s = replay_loop codec clean_io (ls' @ tail) (n + length l) s1"
    using e s1(1) ReadBytes_line [OF e(2), of "ls' @ tail"]
    by (subst replay_loop.simps) (simp add: ls(3) read_fault_def clean_io_def)
  also have "\<dots> = (None, at_file (take (n + length l + length ls') file) s')"
    by (rule Cons.IH) (use Cons.prems ls s1 same_file in auto)
  finally show ?case by (simp add: ls(3) add.assoc)
qed

section \<open>Appending\<close>

lemma writeAll_prefix: "writeAll ws data = (w, err) \<Longrightarrow> \<exists>rest. data = w @ rest \<and> (err = None \<longrightarrow> rest = [])"
proof (induction ws data arbitrary: w rule: writeAll.induct)
  case (3 n err ws v va)
  then show ?case by (auto intro: exI [of _ "drop n (v # va)"])
next
  case (4 n ws v va)
  show ?case
  proof (cases "n = 0")
    case False
    obtain w' where w': "writeAll ws (drop n (v # va)) = (w', err)" "w = take n (v # va) @ w'"
      using 4(2) False by (auto split: prod.splits)
    from 4(1) [OF False w'(1)] obtain rest where "drop n (v # va) = w' @ rest" "err = None \<longrightarrow> rest = []" by blast
    then show ?thesis by (intro exI [of _ rest]) (metis append_assoc append_take_drop_id w'(2))
  qed (use 4 in auto)
qed auto

lemma appendRecord_cases:
  assumes "appendRecord codec io s r = (e, s')"
  obtains (unwritten) err where "e = Some err" "s' = s"
  | (torn) err l w rest where "e = Some err" "record_line codec r = Some l" "l = w @ rest" "s' = at_file (fs_file s @ w) s"
  | (committed) l where "e = None" "record_line codec r = Some l" "s' = at_file (fs_file s @ l) s"
proof (cases "cd_marshal codec r")
  case (Inl err)
  then show thesis using assms unwritten by (auto simp: appendRecord_def)
next
  case p: (Inr p)
  show thesis
  proof (cases "cd_wrap codec (cd_digest codec p, p)")
    case (Inl err)
    then show thesis using assms p unwritten by (auto simp: appendRecord_def)
  next
    case env: (Inr env)
    have line: "record_line codec r = Some (env @ [newline])" by (simp add: record_line_def p env)
    show thesis
    proof (cases "ai_open io")
      case (Some err)
      then show thesis using assms p env unwritten by (auto simp: appendRecord_def)
    next
      case None
      obtain w werr where w: "writeAll (ai_writes io) (env @ [newline]) = (w, werr)" by (cases "writeAll (ai_writes io) (env @ [newline])")
      let ?join = "errors_Join [werr, case werr of None \<Rightarrow> ai_sync io | Some _ \<Rightarrow> None, ai_close io]"
      have res: "appendRecord codec io s r =
          (case ?join of Some err \<Rightarrow> (Some (Wrapf ''commit ForgeFlow journal record: %w'' [] err), at_file (fs_file s @ w) s)
           | None \<Rightarrow> (None, at_file (fs_file s @ w) s))"
        by (simp add: appendRecord_def p env None w Let_def flip: at_file_def)
      obtain rest where rest: "env @ [newline] = w @ rest" "werr = None \<longrightarrow> rest = []" using writeAll_prefix [OF w] by blast
      show thesis
      proof (cases ?join)
        case join: None
        then have "werr = None" by (auto simp: errors_Join_def map_filter_simps split: option.splits list.splits)
        with rest have "w = env @ [newline]" by simp
        moreover have "e = None" "s' = at_file (fs_file s @ w) s" using assms unfolding res join by simp_all
        ultimately show thesis using committed [OF _ line] by simp
      next
        case (Some err)
        have "e = Some (Wrapf ''commit ForgeFlow journal record: %w'' [] err)" "s' = at_file (fs_file s @ w) s"
          using assms unfolding res Some by simp_all
        then show thesis using torn [OF _ line rest(1)] by simp
      qed
    qed
  qed
qed

section \<open>Operations and the records they write\<close>

datatype store_op =
    OpSaveWorkflow WorkflowDefinition
  | OpCreateRun WorkflowRunSnapshot
  | OpSaveRun WorkflowRunSnapshot
  | OpCreateProject User Project Membership AuditEvent
  | OpSaveProject Project AuditEvent
  | OpPutMembership User Membership AuditEvent
  | OpSaveOwned WorkflowDefinition WorkflowOwnership

fun op_run :: "journal_codec \<Rightarrow> append_io \<Rightarrow> go_context \<Rightarrow> go_context \<Rightarrow> FileStore \<Rightarrow> store_op \<Rightarrow> go_error option \<times> FileStore" where
  "op_run codec io ctx ctx' s (OpSaveWorkflow d) = SaveWorkflow codec io ctx ctx' s d"
| "op_run codec io ctx ctx' s (OpCreateRun x) = (case CreateRun codec io ctx ctx' s x of (Inl e, s') \<Rightarrow> (Some e, s') | (Inr _, s') \<Rightarrow> (None, s'))"
| "op_run codec io ctx ctx' s (OpSaveRun x) = (case SaveRun codec io ctx ctx' s x of (Inl e, s') \<Rightarrow> (Some e, s') | (Inr _, s') \<Rightarrow> (None, s'))"
| "op_run codec io ctx ctx' s (OpCreateProject u p m e) = CreateProject codec io ctx s u p m e"
| "op_run codec io ctx ctx' s (OpSaveProject p e) = SaveProject codec io ctx s p e"
| "op_run codec io ctx ctx' s (OpPutMembership u m e) = PutMembership codec io ctx s u m e"
| "op_run codec io ctx ctx' s (OpSaveOwned d ow) = SaveWorkflowForProject codec io ctx s d ow"

text \<open>The record an operation appends, if it gets that far.\<close>

fun op_record :: "FileStore \<Rightarrow> store_op \<Rightarrow> journalRecord" where
  "op_record s (OpSaveWorkflow d) = (zero_record operationSaveWorkflow)\<lparr>jr_Workflow := Some (fs_cloneDefinition d)\<rparr>"
| "op_record s (OpCreateRun x) = (zero_record operationCreateRun)\<lparr>jr_Run := Some (x\<lparr>ws_Version := 1\<rparr>)\<rparr>"
| "op_record s (OpSaveRun x) = (zero_record operationSaveRun)\<lparr>jr_Run := Some (x\<lparr>ws_Version := ws_Version x + 1\<rparr>)\<rparr>"
| "op_record s (OpCreateProject u p m e) = (zero_record operationCreateProject)
     \<lparr>jr_User := Some (projr (known_user s u)), jr_Project := Some p, jr_Membership := Some m, jr_AuditEvent := Some e\<rparr>"
| "op_record s (OpSaveProject p e) = (zero_record operationSaveProject)\<lparr>jr_Project := Some p, jr_AuditEvent := Some e\<rparr>"
| "op_record s (OpPutMembership u m e) = (zero_record operationPutMembership)
     \<lparr>jr_User := Some (projr (known_user s u)), jr_Membership := Some (projr (merge_membership s m)), jr_AuditEvent := Some e\<rparr>"
| "op_record s (OpSaveOwned d ow) = (zero_record operationSaveOwnedWorkflow)
     \<lparr>jr_Workflow := Some (fs_cloneDefinition d), jr_Ownership := Some ow\<rparr>"

lemma op_record_version [simp]: "jr_Version (op_record s op) = journalVersion"
  by (cases op) (simp_all add: zero_record_def)

lemmas operation_names = operationSaveWorkflow_def operationCreateRun_def operationSaveRun_def operationCreateProject_def
  operationSaveProject_def operationPutMembership_def operationSaveOwnedWorkflow_def

section \<open>The invariant of the store\<close>

definition fs_inv :: "FileStore \<Rightarrow> bool" where
  "fs_inv s \<longleftrightarrow>
     (\<forall>k u. mget (fs_users s) k = Some u \<longrightarrow> us_ID u = k \<and> user_Validate u = Inr ()) \<and>
     (\<forall>p k m. membership_of s p k = Some m \<longrightarrow> mem_ProjectID m = p \<and> mem_UserID m = k \<and> membership_Validate m = Inr ()) \<and>
     (\<forall>k d. mget (fs_workflows s) k = Some d \<longrightarrow> fs_cloneDefinition d = d)"

lemma fs_invD:
  assumes "fs_inv s"
  shows "mget (fs_users s) k = Some u \<Longrightarrow> us_ID u = k \<and> user_Validate u = Inr ()"
    "membership_of s p k = Some m \<Longrightarrow> mem_ProjectID m = p \<and> mem_UserID m = k \<and> membership_Validate m = Inr ()"
    "mget (fs_workflows s) k = Some d \<Longrightarrow> fs_cloneDefinition d = d"
  using assms unfolding fs_inv_def by blast+

lemma membership_of_put:
  "membership_of (put_membership s m) p k =
     (case m of Some x \<Rightarrow> if p = mem_ProjectID x \<and> k = mem_UserID x then Some x else membership_of s p k | None \<Rightarrow> membership_of s p k)"
  by (auto simp: membership_of_def put_membership_def mget_or_def go_map split: option.split)

lemma membership_of_frame [simp]:
  "membership_of (put_user s u) = membership_of s" "membership_of (put_project s p) = membership_of s"
  "membership_of (put_workflow s d) = membership_of s" "membership_of (put_ownership s ow) = membership_of s"
  "membership_of (put_audit s e) = membership_of s"
  unfolding membership_of_def
  by (simp_all add: put_user_def put_project_def put_workflow_def put_ownership_def put_audit_def Let_def split: option.split)

lemma put_frame [simp]:
  "fs_users (put_project s p) = fs_users s" "fs_users (put_membership s m) = fs_users s" "fs_users (put_workflow s d) = fs_users s"
  "fs_users (put_ownership s ow) = fs_users s" "fs_users (put_audit s e) = fs_users s"
  "fs_workflows (put_user s u) = fs_workflows s" "fs_workflows (put_project s p) = fs_workflows s"
  "fs_workflows (put_membership s m) = fs_workflows s" "fs_workflows (put_ownership s ow) = fs_workflows s"
  "fs_workflows (put_audit s e) = fs_workflows s"
  by (simp_all add: put_user_def put_project_def put_membership_def put_workflow_def put_ownership_def put_audit_def Let_def
      split: option.split)

lemma fs_inv_put:
  "\<lbrakk>fs_inv s; \<And>x. u = Some x \<Longrightarrow> user_Validate x = Inr ()\<rbrakk> \<Longrightarrow> fs_inv (put_user s u)"
  "\<lbrakk>fs_inv s; \<And>x. m = Some x \<Longrightarrow> membership_Validate x = Inr ()\<rbrakk> \<Longrightarrow> fs_inv (put_membership s m)"
  "fs_inv s \<Longrightarrow> fs_inv (put_project s p)" "fs_inv s \<Longrightarrow> fs_inv (put_workflow s d)"
  "fs_inv s \<Longrightarrow> fs_inv (put_ownership s ow)" "fs_inv s \<Longrightarrow> fs_inv (put_audit s e)"
  unfolding fs_inv_def
  by (simp_all add: membership_of_put)
    (auto simp: put_user_def put_workflow_def go_map split: option.splits if_splits)

lemma applySecurityRecord_inv:
  assumes "fs_inv s" "applySecurityRecord s r = Inr s'" "\<And>u. jr_User r = Some u \<Longrightarrow> user_Validate u = Inr ()"
    "\<And>m. jr_Membership r = Some m \<Longrightarrow> membership_Validate m = Inr ()"
  shows "fs_inv s'"
  using assms by (auto simp: applySecurityRecord_def Let_def bindE_Inr_iff intro!: fs_inv_put)

lemma at_file_inv [simp]: "fs_inv (at_file f s) = fs_inv s"
  by (simp add: fs_inv_def)

section \<open>An operation does what replaying its record does\<close>

lemma commit_security_record:
  assumes "applySecurityRecord s r = Inr s2"
  shows "(\<lambda>x. case applySecurityRecord x r of Inl _ \<Rightarrow> x | Inr x' \<Rightarrow> x') (at_file f s) = at_file f s2"
  using assms by (simp add: applySecurityRecord_at_file)

text \<open>The outcome of an operation: nothing, or an attempt to commit its record.\<close>

definition does_commit :: "journal_codec \<Rightarrow> append_io \<Rightarrow> FileStore \<Rightarrow> journalRecord \<Rightarrow> go_error option \<Rightarrow> FileStore \<Rightarrow> bool" where
  "does_commit codec io s r e s' \<longleftrightarrow>
     (\<exists>change s2. applyRecord s r = Inr s2 \<and> fs_inv s2 \<and> (\<forall>f. change (at_file f s) = at_file f s2) \<and>
        commit codec io s r change = (e, s'))"

lemma does_commitI:
  "\<lbrakk>commit codec io s r change = (e, s'); applyRecord s r = Inr (change s); fs_inv (change s);
    \<And>f. change (at_file f s) = at_file f (change s)\<rbrakk> \<Longrightarrow> does_commit codec io s r e s'"
  unfolding does_commit_def by (intro exI [of _ change] exI [of _ "change s"]) simp

lemma does_commit_security:
  assumes "applyRecord s r = applySecurityRecord s r" "security_record_error s r = Inr ()"
    "commit_security codec io s r = (e, s')" "fs_inv s"
    "\<And>u. jr_User r = Some u \<Longrightarrow> user_Validate u = Inr ()" "\<And>m. jr_Membership r = Some m \<Longrightarrow> membership_Validate m = Inr ()"
  shows "does_commit codec io s r e s'"
proof -
  obtain s2 where s2: "applySecurityRecord s r = Inr s2" using assms(2) by (simp add: applySecurityRecord_def Let_def)
  moreover have "fs_inv s2" using assms(5,6) by (rule applySecurityRecord_inv [OF assms(4) s2])
  ultimately show ?thesis unfolding does_commit_def
    using assms(1,3) commit_security_record [OF s2] unfolding commit_security_def
    by (intro exI [of _ "\<lambda>x. case applySecurityRecord x r of Inl _ \<Rightarrow> x | Inr x' \<Rightarrow> x'"] exI [of _ s2]) simp
qed

lemma workflow_Validate_fs_clone [simp]: "workflow_Validate (fs_cloneDefinition d) = Inr () \<longleftrightarrow> workflow_Validate d = Inr ()"
  by (simp add: fs_cloneDefinition_eq workflow_Validate_clone)

lemma SaveWorkflow_commit:
  assumes "SaveWorkflow codec io ctx ctx' s d = (e, s')" "fs_inv s"
  shows "s' = s \<or> does_commit codec io s (op_record s (OpSaveWorkflow d)) e s'"
proof -
  let ?r = "op_record s (OpSaveWorkflow d)"
  let ?change = "\<lambda>x. x\<lparr>fs_workflows := mput (wd_ID d) (fs_cloneDefinition d) (fs_workflows x)\<rparr>"
  consider "s' = s" | "workflow_Validate d = Inr ()" "mget (fs_workflows s) (wd_ID d) = None" "commit codec io s ?r ?change = (e, s')"
    using assms(1) by (auto simp: SaveWorkflow_def bindE_Inr_iff Let_def split: sum.splits option.splits if_splits)
  then show ?thesis
  proof cases
    case 2
    have "applyRecord s ?r = Inr (?change s)"
      using 2(1,2) by (simp add: applyRecord_def zero_record_def applyWorkflowRecord_def bindE_Inr_iff)
    moreover have "fs_inv (?change s)" using fs_inv_put(4) [OF assms(2), of "Some d"] by (simp add: put_workflow_def)
    moreover have "?change (at_file f s) = at_file f (?change s)" for f by (simp add: at_file_def)
    ultimately show ?thesis by (intro disjI2 does_commitI [OF 2(3)])
  qed simp
qed

lemma snapshot_Validate_version: "snapshot_Validate (x\<lparr>ws_Version := v\<rparr>) = Inr () \<longleftrightarrow> snapshot_Validate x = Inr ()"
  by (simp add: snapshot_Validate_iff snapshot_ok_def snapshot_task_ok_def Let_def)

lemma mhas_fold_mput: "mhas (fold (\<lambda>x. mput (f x) (g x)) xs m) k \<longleftrightarrow> k \<in> f ` set xs \<or> mhas m k"
  by (induction xs arbitrary: m) auto

lemma restore_succeeds_iff:
  "\<not> isl (restoreWorkflowRun x d) \<longleftrightarrow>
     snapshot_Validate x = Inr () \<and> workflow_Validate d = Inr () \<and> ws_WorkflowID x = wd_ID d \<and>
     length (ws_Tasks x) = length (wd_Tasks d) \<and> (\<forall>t \<in> set (wd_Tasks d). td_ID t \<in> tr_TaskID ` set (ws_Tasks x))"
proof -
  have none: "filter (\<lambda>t. \<not> mhas (fold (\<lambda>t. mput (tr_TaskID t) (restore_task x t)) (ws_Tasks x) []) (td_ID t)) (wd_Tasks d) = [] \<longleftrightarrow>
      (\<forall>t \<in> set (wd_Tasks d). td_ID t \<in> tr_TaskID ` set (ws_Tasks x))"
    unfolding filter_empty_conv mhas_fold_mput by (auto simp: mhas_def)
  show ?thesis
    by (cases "snapshot_Validate x"; cases "workflow_Validate d")
      (auto simp: restoreWorkflowRun_def Let_def none [symmetric] split: list.split)
qed

lemma validateRunDefinition_Inr_iff:
  "validateRunDefinition s x = Inr () \<longleftrightarrow> (\<exists>d. mget (fs_workflows s) (ws_WorkflowID x) = Some d \<and> \<not> isl (restoreWorkflowRun x d))"
  by (auto simp: validateRunDefinition_def isl_def split: option.splits sum.splits)

lemma validateRunDefinition_version:
  "validateRunDefinition s (x\<lparr>ws_Version := v\<rparr>) = Inr () \<longleftrightarrow> validateRunDefinition s x = Inr ()"
  by (simp add: validateRunDefinition_Inr_iff restore_succeeds_iff snapshot_Validate_version)

lemma store_run_commit:
  assumes "store_run codec io ctx' s operation v x = (r, s')" "operation \<in> {operationCreateRun, operationSaveRun}"
    "snapshot_Validate x = Inr ()" "fs_inv s"
    "operation = operationCreateRun \<Longrightarrow> mget (fs_runs s) (ws_ID x) = None \<and> v = 1"
    "operation = operationSaveRun \<Longrightarrow> \<exists>c. mget (fs_runs s) (ws_ID x) = Some c \<and> v = ws_Version c + 1"
  shows "s' = s \<or> does_commit codec io s ((zero_record operation)\<lparr>jr_Run := Some (x\<lparr>ws_Version := v\<rparr>)\<rparr>)
    (case r of Inl e \<Rightarrow> Some e | Inr _ \<Rightarrow> None) s'"
proof -
  let ?r = "(zero_record operation)\<lparr>jr_Run := Some (x\<lparr>ws_Version := v\<rparr>)\<rparr>"
  let ?change = "\<lambda>y. y\<lparr>fs_runs := mput (ws_ID x) (x\<lparr>ws_Version := v\<rparr>) (fs_runs y)\<rparr>"
  consider "s' = s" | "validateRunDefinition s x = Inr ()" "commit codec io s ?r ?change = (case r of Inl e \<Rightarrow> Some e | Inr _ \<Rightarrow> None, s')"
    using assms(1) by (auto simp: store_run_def bindE_Inr_iff Let_def split: sum.splits option.splits if_splits prod.splits)
  then show ?thesis
  proof cases
    case 2
    let ?x = "x\<lparr>ws_Version := v\<rparr>"
    have ok: "snapshot_Validate ?x = Inr ()" "validateRunDefinition s ?x = Inr ()"
      using assms(3) 2(1) by (simp_all add: validateRunDefinition_version snapshot_Validate_version)
    have ne: "operationCreateRun \<noteq> operationSaveRun" by (simp add: operation_names)
    have "applyRunRecord s operation ?x = Inr (?change s)"
    proof (cases "operation = operationCreateRun")
      case True
      then show ?thesis using assms(5) ok ne by (simp add: applyRunRecord_def Let_def)
    next
      case False
      then obtain c where c: "operation = operationSaveRun" "mget (fs_runs s) (ws_ID x) = Some c" "v = ws_Version c + 1"
        using assms(2,6) by auto
      show ?thesis using ok ne c(2) c(3) [symmetric] unfolding c(1)
        by (cases "v = 0") (simp_all add: applyRunRecord_def Let_def)
    qed
    then have "applyRecord s ?r = Inr (?change s)"
      using assms(2) by (elim insertE) (simp_all add: applyRecord_def zero_record_def operation_names)
    moreover have "fs_inv (?change s)" using assms(4) by (simp add: fs_inv_def membership_of_def)
    moreover have "?change (at_file f s) = at_file f (?change s)" for f by (simp add: at_file_def)
    ultimately show ?thesis by (intro disjI2 does_commitI [OF 2(2)])
  qed simp
qed

lemma CreateRun_commit:
  assumes "CreateRun codec io ctx ctx' s x = (r, s')" "fs_inv s"
  shows "s' = s \<or> does_commit codec io s (op_record s (OpCreateRun x)) (case r of Inl e \<Rightarrow> Some e | Inr _ \<Rightarrow> None) s'"
proof -
  consider "s' = s" | "snapshot_Validate x = Inr ()" "mget (fs_runs s) (ws_ID x) = None"
      "store_run codec io ctx' s operationCreateRun 1 x = (r, s')"
    using assms(1) by (auto simp: CreateRun_def bindE_Inr_iff mhas_def split: sum.splits if_splits)
  then show ?thesis
  proof cases
    case 2
    have "operationCreateRun \<noteq> operationSaveRun" by (simp add: operation_names)
    then show ?thesis using store_run_commit [OF 2(3) _ 2(1) assms(2)] 2(2) by simp
  qed simp
qed

lemma SaveRun_commit:
  assumes "SaveRun codec io ctx ctx' s x = (r, s')" "fs_inv s"
  shows "s' = s \<or> does_commit codec io s (op_record s (OpSaveRun x)) (case r of Inl e \<Rightarrow> Some e | Inr _ \<Rightarrow> None) s'"
proof -
  consider "s' = s" | c where "snapshot_Validate x = Inr ()" "mget (fs_runs s) (ws_ID x) = Some c" "ws_Version x = ws_Version c"
      "store_run codec io ctx' s operationSaveRun (ws_Version x + 1) x = (r, s')"
    using assms(1) by (auto simp: SaveRun_def bindE_Inr_iff split: sum.splits if_splits option.splits)
  then show ?thesis
  proof cases
    case (2 c)
    have "operationCreateRun \<noteq> operationSaveRun" by (simp add: operation_names)
    then show ?thesis using store_run_commit [OF 2(4) _ 2(1) assms(2)] 2(2,3) by simp
  qed simp
qed

lemma known_user_valid:
  assumes "known_user s u = Inr u'" "user_Validate u = Inr ()" "fs_inv s"
  shows "us_ID u' = us_ID u" "user_Validate u' = Inr ()"
    "(case mget (fs_users s) (us_ID u) of None \<Rightarrow> Inr () | Some existing \<Rightarrow> guardE (us_Disabled existing \<noteq> us_Disabled u') err) = Inr ()"
  using assms by (auto simp: known_user_def dest: fs_invD(1) split: option.splits if_splits)

lemma merge_membership_valid:
  assumes "merge_membership s m = Inr m'" "membership_Validate m = Inr ()" "fs_inv s"
  shows "mem_ProjectID m' = mem_ProjectID m \<and> mem_UserID m' = mem_UserID m \<and> membership_Validate m' = Inr ()"
proof (cases "membership_of s (mem_ProjectID m) (mem_UserID m)")
  case (Some x)
  note v = fs_invD(2) [OF assms(3) Some]
  then have "m' = m\<lparr>mem_CreatedAt := mem_CreatedAt x\<rparr>" "mem_UpdatedAt x \<le> mem_UpdatedAt m"
    using assms(1) Some by (auto simp: merge_membership_def Let_def split: if_splits)
  then show ?thesis using assms(2) v by (auto simp: membership_Validate_def bindE_Inr_iff IsZero_def split: if_splits)
qed (use assms in \<open>simp add: merge_membership_def\<close>)

lemma validateProjectCreation_Inr_iff:
  "validateProjectCreation ctx u p m e = Inr () \<longleftrightarrow>
     store_contextError ctx = None \<and> user_Validate u = Inr () \<and> project_Validate p = Inr () \<and> membership_Validate m = Inr () \<and>
     audit_Validate e = Inr () \<and> pj_CreatedBy p = us_ID u \<and> mem_ProjectID m = pj_ID p \<and> mem_UserID m = us_ID u \<and>
     mem_Role m = RoleAdmin \<and> ae_ProjectID e = pj_ID p \<and> ae_ActorUserID e = us_ID u"
  by (auto simp: validateProjectCreation_def bindE_Inr_iff checkE_def split: option.splits)

lemma CreateProject_commit:
  assumes "CreateProject codec io ctx s u p m ev = (e, s')" "fs_inv s"
  shows "s' = s \<or> does_commit codec io s (op_record s (OpCreateProject u p m ev)) e s'"
proof -
  let ?r = "op_record s (OpCreateProject u p m ev)"
  consider "s' = s" | u' where "validateProjectCreation ctx u p m ev = Inr ()" "\<not> mhas (fs_projects s) (pj_ID p)"
      "known_user s u = Inr u'" "\<not> mhas (fs_auditIDs s) (ae_ID ev)" "commit_security codec io s ?r = (e, s')"
    using assms(1) by (auto simp: CreateProject_def fresh_audit_def bindE_Inr_iff split: sum.splits)
  then show ?thesis
  proof cases
    case (2 u')
    note v = 2(1) [unfolded validateProjectCreation_Inr_iff]
    have uv: "user_Validate u = Inr ()" using v by simp
    note u = known_user_valid [OF 2(3) uv assms(2)]
    have "validateProjectCreation (Context None) u' p m ev = Inr ()"
      using v u by (simp add: validateProjectCreation_Inr_iff store_contextError_def)
    then have "applyRecord s ?r = applySecurityRecord s ?r"
      using 2(2,3) by (simp add: applyRecord_def zero_record_def operation_names applyCreateProject_def)
    moreover have "security_record_error s ?r = Inr ()"
      using v u 2(3,4) by (simp add: security_record_error_def zero_record_def)
    ultimately show ?thesis using v u 2(3)
      by (intro disjI2 does_commit_security [OF _ _ 2(5) assms(2)]) (auto simp: zero_record_def)
  qed simp
qed

lemma SaveProject_commit:
  assumes "SaveProject codec io ctx s p ev = (e, s')" "fs_inv s"
  shows "s' = s \<or> does_commit codec io s (op_record s (OpSaveProject p ev)) e s'"
proof -
  let ?r = "op_record s (OpSaveProject p ev)"
  consider "s' = s" | "project_Validate p = Inr ()" "audit_Validate ev = Inr ()" "ae_ProjectID ev = pj_ID p" "mhas (fs_projects s) (pj_ID p)"
      "\<not> mhas (fs_auditIDs s) (ae_ID ev)" "commit_security codec io s ?r = (e, s')"
    using assms(1) by (auto simp: SaveProject_def fresh_audit_def bindE_Inr_iff mhas_def [of "fs_projects s"] split: sum.splits option.splits)
  then show ?thesis
  proof cases
    case 2
    have "applyRecord s ?r = applySecurityRecord s ?r"
      using 2(1,3,4) by (simp add: applyRecord_def zero_record_def operation_names applySaveProject_def)
    moreover have "security_record_error s ?r = Inr ()" using 2(2,5) by (simp add: security_record_error_def zero_record_def)
    ultimately show ?thesis
      by (intro disjI2 does_commit_security [OF _ _ 2(6) assms(2)]) (auto simp: zero_record_def)
  qed simp
qed

lemma PutMembership_commit:
  assumes "PutMembership codec io ctx s u m ev = (e, s')" "fs_inv s"
  shows "s' = s \<or> does_commit codec io s (op_record s (OpPutMembership u m ev)) e s'"
proof -
  let ?r = "op_record s (OpPutMembership u m ev)"
  consider "s' = s" | u' m' where "user_Validate u = Inr ()" "membership_Validate m = Inr ()" "audit_Validate ev = Inr ()"
      "mem_UserID m = us_ID u" "ae_ProjectID ev = mem_ProjectID m" "mhas (fs_projects s) (mem_ProjectID m)"
      "known_user s u = Inr u'" "merge_membership s m = Inr m'" "\<not> mhas (fs_auditIDs s) (ae_ID ev)" "commit_security codec io s ?r = (e, s')"
    using assms(1) by (auto simp: PutMembership_def fresh_audit_def bindE_Inr_iff split: sum.splits prod.splits)
  then show ?thesis
  proof cases
    case (2 u' m')
    note u = known_user_valid [OF 2(7) 2(1) assms(2)] and m = merge_membership_valid [OF 2(8) 2(2) assms(2)]
    have "applyRecord s ?r = applySecurityRecord s ?r"
      using 2(4-8) u m by (simp add: applyRecord_def zero_record_def operation_names applyPutMembership_def)
    moreover have "security_record_error s ?r = Inr ()"
      using 2(3,7,9) u by (simp add: security_record_error_def zero_record_def)
    ultimately show ?thesis using u m 2(7,8)
      by (intro disjI2 does_commit_security [OF _ _ 2(10) assms(2)]) (auto simp: zero_record_def)
  qed simp
qed

lemma SaveWorkflowForProject_commit:
  assumes "SaveWorkflowForProject codec io ctx s d ow = (e, s')" "fs_inv s"
  shows "s' = s \<or> does_commit codec io s (op_record s (OpSaveOwned d ow)) e s'"
proof -
  let ?r = "op_record s (OpSaveOwned d ow)"
  consider "s' = s" | "workflow_Validate d = Inr ()" "ownership_Validate ow = Inr ()" "ow_WorkflowID ow = wd_ID d"
      "mhas (fs_projects s) (ow_ProjectID ow)" "membership_of s (ow_ProjectID ow) (ow_OwnerUserID ow) \<noteq> None"
      "case mget (fs_workflows s) (wd_ID d) of None \<Rightarrow> True | Some existing \<Rightarrow> existing = d"
      "mget (fs_ownerships s) (wd_ID d) = None" "commit_security codec io s ?r = (e, s')"
    using assms(1) by (auto simp: SaveWorkflowForProject_def bindE_Inr_iff split: sum.splits option.splits if_splits)
  then show ?thesis
  proof cases
    case 2
    have same: "(case mget (fs_workflows s) (wd_ID d) of None \<Rightarrow> False | Some existing \<Rightarrow> existing \<noteq> fs_cloneDefinition d) = False"
      using 2(6) fs_invD(3) [OF assms(2), of "wd_ID d"] by (auto split: option.splits)
    have valid: "workflow_Validate (fs_cloneDefinition d) = Inr ()" using 2(1) by simp
    have "applyOwnedWorkflow s ?r (fs_cloneDefinition d) ow = applySecurityRecord s ?r"
      unfolding applyOwnedWorkflow_def valid using 2(2-5,7) same by auto
    then have "applyRecord s ?r = applySecurityRecord s ?r"
      by (simp add: applyRecord_def zero_record_def operation_names)
    moreover have "security_record_error s ?r = Inr ()" by (simp add: security_record_error_def zero_record_def)
    ultimately show ?thesis
      by (intro disjI2 does_commit_security [OF _ _ 2(8) assms(2)]) (auto simp: zero_record_def)
  qed simp
qed

lemma op_run_commit:
  assumes "op_run codec io ctx ctx' s op = (e, s')" "fs_inv s"
  shows "s' = s \<or> does_commit codec io s (op_record s op) e s'"
proof (cases op)
  case (OpSaveWorkflow d)
  then show ?thesis using SaveWorkflow_commit [OF _ assms(2)] assms(1) by simp
next
  case (OpCreateRun x)
  obtain r where r: "CreateRun codec io ctx ctx' s x = (r, s')" "e = (case r of Inl e \<Rightarrow> Some e | Inr _ \<Rightarrow> None)"
    using assms(1) OpCreateRun by (auto split: prod.splits sum.splits)
  from CreateRun_commit [OF r(1) assms(2)] show ?thesis unfolding OpCreateRun r(2) .
next
  case (OpSaveRun x)
  obtain r where r: "SaveRun codec io ctx ctx' s x = (r, s')" "e = (case r of Inl e \<Rightarrow> Some e | Inr _ \<Rightarrow> None)"
    using assms(1) OpSaveRun by (auto split: prod.splits sum.splits)
  from SaveRun_commit [OF r(1) assms(2)] show ?thesis unfolding OpSaveRun r(2) .
next
  case (OpCreateProject u p m ev)
  then show ?thesis using CreateProject_commit [OF _ assms(2)] assms(1) by simp
next
  case (OpSaveProject p ev)
  then show ?thesis using SaveProject_commit [OF _ assms(2)] assms(1) by simp
next
  case (OpPutMembership u m ev)
  then show ?thesis using PutMembership_commit [OF _ assms(2)] assms(1) by simp
next
  case (OpSaveOwned d ow)
  then show ?thesis using SaveWorkflowForProject_commit [OF _ assms(2)] assms(1) by simp
qed

section \<open>The journal describes the store\<close>

definition journal_inv :: "journal_codec \<Rightarrow> journalRecord set \<Rightarrow> FileStore \<Rightarrow> bool" where
  "journal_inv codec R s \<longleftrightarrow> fs_inv s \<and>
     (\<exists>rs. set rs \<subseteq> R \<and> (\<forall>r \<in> set rs. jr_Version r = journalVersion) \<and> journal_lines codec rs = Some (fs_file s) \<and>
        apply_all (empty_store []) rs = Inr (at_file [] s))"

lemma journal_inv_empty: "journal_inv codec R (empty_store [])"
  unfolding journal_inv_def
  by (intro conjI exI [of _ "[]"]) (simp_all add: fs_inv_def empty_store_def membership_of_def mget_or_def at_file_def)

lemma journal_inv_extend:
  assumes "journal_inv codec R s" "r \<in> R" "jr_Version r = journalVersion" "record_line codec r = Some l"
    "applyRecord s r = Inr s2" "fs_inv s2"
  shows "journal_inv codec R (at_file (fs_file s @ l) s2)"
proof -
  obtain rs where rs: "set rs \<subseteq> R" "\<forall>r \<in> set rs. jr_Version r = journalVersion" "journal_lines codec rs = Some (fs_file s)"
      "apply_all (empty_store []) rs = Inr (at_file [] s)"
    using assms(1) unfolding journal_inv_def by blast
  have "apply_all (empty_store []) (rs @ [r]) = Inr (at_file [] s2)"
    using rs(4) assms(5) by (simp add: apply_all_append applyRecord_at_file)
  moreover have "journal_lines codec (rs @ [r]) = Some (fs_file s @ l)"
    using rs(3) assms(4) by (simp add: journal_lines_append)
  ultimately show ?thesis unfolding journal_inv_def
    using rs(1,2) assms(2,3,6) by (intro conjI exI [of _ "rs @ [r]"]) (simp_all add: at_file_inv)
qed

text \<open>What an operation does to the file and to the store.\<close>

lemma op_run_cases:
  assumes "op_run codec io ctx ctx' s op = (e, s')" "fs_inv s"
  obtains (same) "s' = s"
  | (torn) l w rest s2 where "e \<noteq> None" "record_line codec (op_record s op) = Some l" "l = w @ rest" "s' = at_file (fs_file s @ w) s"
      "applyRecord s (op_record s op) = Inr s2" "fs_inv s2"
  | (committed) l s2 where "e = None" "record_line codec (op_record s op) = Some l" "s' = at_file (fs_file s @ l) s2"
      "applyRecord s (op_record s op) = Inr s2" "fs_inv s2"
proof (cases "s' = s")
  case False
  then obtain change s2 where c: "applyRecord s (op_record s op) = Inr s2" "fs_inv s2" "\<forall>f. change (at_file f s) = at_file f s2"
      "commit codec io s (op_record s op) change = (e, s')"
    using op_run_commit [OF assms] unfolding does_commit_def by blast
  obtain e1 s1 where a: "appendRecord codec io s (op_record s op) = (e1, s1)" by (cases "appendRecord codec io s (op_record s op)")
  then have run: "e = e1 \<and> s' = (if e1 = None then change s1 else s1)" using c(4) by (auto simp: commit_def split: option.splits)
  from a show thesis
  proof (cases rule: appendRecord_cases)
    case (unwritten err)
    with run same show thesis by simp
  next
    case (torn err l w rest)
    with run c that(2) show thesis by simp
  next
    case (committed l)
    with run c that(3) show thesis by simp
  qed
qed (rule same)

text \<open>The stores that operations reach when no append leaves a partial record behind.\<close>

inductive store_reach :: "journal_codec \<Rightarrow> journalRecord set \<Rightarrow> FileStore \<Rightarrow> bool" for codec R where
  reach_empty: "store_reach codec R (empty_store [])"
| reach_op: "\<lbrakk>store_reach codec R s; op_run codec io ctx ctx' s op = (e, s'); op_record s op \<in> R; e = None \<or> fs_file s' = fs_file s\<rbrakk> \<Longrightarrow>
     store_reach codec R s'"

lemma store_reach_inv: "store_reach codec R s \<Longrightarrow> journal_inv codec R s"
proof (induction rule: store_reach.induct)
  case (reach_op s io ctx ctx' op e s')
  then have "fs_inv s" by (simp add: journal_inv_def)
  from reach_op(2) this show ?case
  proof (cases rule: op_run_cases)
    case (torn l w rest s2)
    then have "s' = s" using reach_op(4) by (auto simp: at_file_def)
    then show ?thesis using reach_op(5) by simp
  next
    case (committed l s2)
    then show ?thesis using journal_inv_extend [OF reach_op(5,3)] by simp
  qed (use reach_op in simp)
qed (rule journal_inv_empty)

lemma open_lines:
  assumes "codec_laws codec R" "set rs \<subseteq> R" "\<forall>r \<in> set rs. jr_Version r = journalVersion" "journal_lines codec rs = Some ls"
    "newline \<notin> set tail" "apply_all (empty_store []) rs = Inr s" "path \<noteq> ''''"
  shows "OpenFileStore codec None None clean_io path (ls @ tail) = (Inr (at_file ls s), ls)"
proof -
  have "empty_store (ls @ tail) = at_file (ls @ tail) (empty_store [])" by (simp add: empty_store_def at_file_def)
  then have all: "apply_all (empty_store (ls @ tail)) rs = Inr (at_file (ls @ tail) s)"
    using assms(6) by (simp add: apply_all_at_file)
  have "replay_loop codec clean_io (ls @ tail) 0 (empty_store (ls @ tail)) = (None, at_file ls s)"
    using replay_loop_lines [OF assms(1-5) all, of "ls @ tail" 0] by (simp add: empty_store_def)
  then show ?thesis using assms(7) by (simp add: OpenFileStore_def replay_def clean_io_def empty_store_def)
qed

lemma open_journal:
  assumes "codec_laws codec R" "journal_inv codec R s" "newline \<notin> set tail" "path \<noteq> ''''"
  shows "OpenFileStore codec None None clean_io path (fs_file s @ tail) = (Inr s, fs_file s)"
proof -
  obtain rs where "set rs \<subseteq> R" "\<forall>r \<in> set rs. jr_Version r = journalVersion" "journal_lines codec rs = Some (fs_file s)"
      "apply_all (empty_store []) rs = Inr (at_file [] s)"
    using assms(2) unfolding journal_inv_def by blast
  from open_lines [OF assms(1) this(1,2,3) assms(3) this(4) assms(4)] show ?thesis by (simp add: at_file_def)
qed

section \<open>Properties of the journal\<close>

text \<open>C13: durability. Take a store reached from the empty one by operations that succeeded or left the file as it
  was, with records that the codec decodes. Reopening its journal gives back exactly that store: every workflow,
  run, user, project, membership, ownership and audit event, and the file is left as it is. An operation that fails
  after it has written part of its record is not among these operations; what it leads to is stated separately.\<close>

theorem reopen_restores:
  assumes "codec_laws codec R" "store_reach codec R s" "path \<noteq> ''''"
  shows "OpenFileStore codec None None clean_io path (fs_file s) = (Inr s, fs_file s)"
  using open_journal [OF assms(1) store_reach_inv [OF assms(2)], of "[]"] assms(3) by simp

lemma proper_prefix_line:
  assumes "l = e @ [newline]" "l = w @ rest" "newline \<notin> set e" "rest \<noteq> []"
  shows "newline \<notin> set w"
proof -
  have "w @ butlast rest = e" using assms(1,2,4) by (metis butlast_append butlast_snoc)
  then show ?thesis using assms(3) by auto
qed

lemma open_after_line:
  assumes "codec_laws codec R" "journal_inv codec R s" "record_line codec r = Some (w @ rest)" "r \<in> R" "jr_Version r = journalVersion"
    "applyRecord s r = Inr s2" "fs_inv s2" "path \<noteq> ''''"
  shows "OpenFileStore codec None None clean_io path (fs_file s @ w) =
     (if rest = [] then (Inr (at_file (fs_file s @ w) s2), fs_file s @ w) else (Inr s, fs_file s))"
proof (cases "rest = []")
  case True
  then have "journal_inv codec R (at_file (fs_file s @ w) s2)" using journal_inv_extend [OF assms(2,4,5)] assms(3,6,7) by simp
  from open_journal [OF assms(1) this, of "[]"] assms(8) True show ?thesis by simp
next
  case False
  obtain e where "w @ rest = e @ [newline]" "newline \<notin> set e" using record_lineE [OF assms(3,1,4)] by metis
  then have "newline \<notin> set w" using proper_prefix_line [of "w @ rest" e w rest] False by simp
  from open_journal [OF assms(1,2) this assms(8)] False show ?thesis by simp
qed

text \<open>C38: atomicity. Whatever part \<open>w\<close> of what an operation appended reaches the file before a crash, reopening
  succeeds and gives the store before the operation or the store the operation's record describes; an operation
  that reported success is never undone once all it wrote is in the file.\<close>

theorem crash_atomic:
  assumes "codec_laws codec R" "store_reach codec R s" "op_run codec io ctx ctx' s op = (e, s')" "op_record s op \<in> R"
    "fs_file s' = fs_file s @ w @ rest" "path \<noteq> ''''"
  shows "\<exists>s''. OpenFileStore codec None None clean_io path (fs_file s @ w) = (Inr s'', fs_file s'') \<and>
     (s'' = s \<or> applyRecord s (op_record s op) = Inr (at_file (fs_file s) s'')) \<and>
     (e = None \<and> rest = [] \<longrightarrow> s'' = s')"
proof -
  note inv = store_reach_inv [OF assms(2)]
  then have fs: "fs_inv s" by (simp add: journal_inv_def)
  from assms(3) fs show ?thesis
  proof (cases rule: op_run_cases)
    case same
    then show ?thesis using open_journal [OF assms(1) inv, of "[]"] assms(5,6) by simp
  next
    case (torn l w' rest' s2)
    then have "record_line codec (op_record s op) = Some (w @ rest @ rest')" using assms(5) by simp
    from open_after_line [OF assms(1) inv this assms(4) op_record_version torn(5,6) assms(6)] torn(1,5)
    show ?thesis using applyRecord_file [OF torn(5)] by (auto simp: at_file_def)
  next
    case (committed l s2)
    then have "record_line codec (op_record s op) = Some (w @ rest)" using assms(5) by simp
    from open_after_line [OF assms(1) inv this assms(4) op_record_version committed(4,5) assms(6)] committed(2,3,4)
    show ?thesis using applyRecord_file [OF committed(4)] assms(5) by (auto simp: at_file_def)
  qed
qed

lemma errors_Join_Some: "errors_Join (Some e # es) \<noteq> None"
  by (simp add: errors_Join_def map_filter_simps)

lemma replay_loop_bad_line:
  assumes "codec_laws codec R" "set rs \<subseteq> R" "\<forall>r \<in> set rs. jr_Version r = journalVersion"
    "journal_lines codec rs = Some ls" "apply_all s rs = Inr s'" "newline \<notin> set bad" "isl (cd_unwrap codec (bad @ [newline]))"
  shows "fst (replay_loop codec io (ls @ bad @ newline # rest) n s) \<noteq> None"
  using assms(2-5)
proof (induction rs arbitrary: ls n s)
  case Nil
  then have "ReadBytes (ls @ bad @ newline # rest) = Some (bad @ [newline], rest)" using ReadBytes_line [OF assms(6), of rest] by simp
  then show ?case using assms(7) errors_Join_Some
    by (subst replay_loop.simps) (auto simp: replayLine_def isl_def split: option.split)
next
  case (Cons r rs)
  obtain l ls' where ls: "record_line codec r = Some l" "journal_lines codec rs = Some ls'" "ls = l @ ls'"
    using Cons.prems(3) by (auto split: option.splits)
  obtain e where e: "l = e @ [newline]" "newline \<notin> set e" "replayLine codec s l = applyRecord s r"
    using record_lineE [OF ls(1) assms(1)] Cons.prems(1,2) by (metis insert_iff list.simps(15) subset_iff)
  obtain s1 where s1: "applyRecord s r = Inr s1" "apply_all s1 rs = Inr s'" using Cons.prems(4) by (auto simp: bindE_Inr_iff)
  have "fst (replay_loop codec io (ls' @ bad @ newline # rest) (n + length l) s1) \<noteq> None"
    using Cons.IH Cons.prems(1,2) ls(2) s1(2) by simp
  moreover have "ReadBytes (ls @ bad @ newline # rest) = Some (l, ls' @ bad @ newline # rest)"
    using ReadBytes_line [OF e(2), of "ls' @ bad @ newline # rest"] by (simp add: ls(3) e(1))
  ultimately show ?case using e(3) s1(1) errors_Join_Some by (subst replay_loop.simps) (auto split: option.split)
qed

text \<open>C39: an append that fails halfway is not undone. If the next operation then succeeds, its record follows the
  fragment on the same line, and when the decoder rejects that line (a fragment of a JSON object followed by an
  object is not JSON) the journal can never be opened again, although the operation was acknowledged.\<close>

theorem torn_append_unopenable:
  assumes "codec_laws codec R" "store_reach codec R s"
    "op_run codec io ctx ctx' s op = (Some err, s1)" "op_record s op \<in> R"
    "fs_file s1 = fs_file s @ w" "w \<noteq> ''''" "record_line codec (op_record s op) \<noteq> Some w"
    "op_run codec io' ctx'' ctx''' s1 op' = (None, s2)" "op_record s1 op' \<in> R" "fs_file s2 \<noteq> fs_file s1"
    "\<And>l. record_line codec (op_record s1 op') = Some l \<Longrightarrow> isl (cd_unwrap codec (w @ l))"
  shows "isl (fst (OpenFileStore codec absErr mkdirErr rio path (fs_file s2)))"
proof -
  note inv = store_reach_inv [OF assms(2)]
  then have fs: "fs_inv s" by (simp add: journal_inv_def)
  have s1: "s1 = at_file (fs_file s @ w) s" and w: "newline \<notin> set w"
  proof -
    from assms(3) fs show "s1 = at_file (fs_file s @ w) s" by (cases rule: op_run_cases) (use assms(5,6) in auto)
    from assms(3) fs obtain rest where rest: "record_line codec (op_record s op) = Some (w @ rest)" "rest \<noteq> []"
      by (cases rule: op_run_cases) (use assms(5,6,7) in auto)
    obtain e where "w @ rest = e @ [newline]" "newline \<notin> set e" using record_lineE [OF rest(1) assms(1,4)] by metis
    then show "newline \<notin> set w" using proper_prefix_line [of "w @ rest" e w rest] rest(2) by simp
  qed
  have "fs_inv s1" using fs by (simp add: s1 at_file_inv)
  with assms(8) obtain l where l: "record_line codec (op_record s1 op') = Some l" "fs_file s2 = fs_file s @ w @ l"
    by (cases rule: op_run_cases) (use assms(10) s1 in auto)
  obtain e where e: "l = e @ [newline]" "newline \<notin> set e" using record_lineE [OF l(1) assms(1,9)] by metis
  obtain rs where rs: "set rs \<subseteq> R" "\<forall>r \<in> set rs. jr_Version r = journalVersion" "journal_lines codec rs = Some (fs_file s)"
      "apply_all (empty_store []) rs = Inr (at_file [] s)"
    using inv unfolding journal_inv_def by blast
  have "empty_store (fs_file s2) = at_file (fs_file s2) (empty_store [])" by (simp add: empty_store_def at_file_def)
  then have "apply_all (empty_store (fs_file s2)) rs = Inr (at_file (fs_file s2) s)" using rs(4) by (simp add: apply_all_at_file)
  from replay_loop_bad_line [OF assms(1) rs(1-3) this, of "w @ e" rio "[]" 0] w e assms(11) [OF l(1)]
  have "fst (replay_loop codec rio (fs_file s2) 0 (empty_store (fs_file s2))) \<noteq> None" by (simp add: l(2))
  then show ?thesis by (auto simp: OpenFileStore_def replay_def empty_store_def split: option.split prod.split)
qed

section \<open>A journal of one record\<close>

definition tiny_record :: journalRecord where
  "tiny_record = op_record (empty_store []) (OpSaveWorkflow example_workflow)"

definition tiny_codec :: journal_codec where
  "tiny_codec = \<lparr>cd_marshal = \<lambda>_. Inr ''r'', cd_unmarshal = \<lambda>_. Inr tiny_record, cd_wrap = \<lambda>_. Inr ''{}'',
     cd_unwrap = \<lambda>l. if l = ''{}'' @ [newline] then Inr (''d'', ''r'') else Inl (errors_New ''json''), cd_digest = \<lambda>_. ''d''\<rparr>"

definition good_io :: append_io where
  "good_io = \<lparr>ai_open = None, ai_writes = [], ai_sync = None, ai_close = None\<rparr>"

definition torn_io :: append_io where
  "torn_io = good_io\<lparr>ai_writes := [(1, Some (errors_New ''disk full''))]\<rparr>"

definition tiny_saved :: "string \<Rightarrow> FileStore" where
  "tiny_saved file = (empty_store file)\<lparr>fs_workflows := [(''w'', fs_cloneDefinition example_workflow)]\<rparr>"

lemma tiny_laws: "codec_laws tiny_codec {tiny_record}"
  by (simp add: codec_laws_def tiny_codec_def newline_def)

lemma tiny_line: "record_line tiny_codec r = Some (''{}'' @ [newline])"
  by (simp add: record_line_def tiny_codec_def)

lemma tiny_op: "op_record s (OpSaveWorkflow example_workflow) = tiny_record"
  by (simp add: tiny_record_def)

lemma tiny_empty: "store_contextError (Context None) = None" "wd_ID example_workflow = ''w''"
  by (simp_all add: store_contextError_def example_workflow_def)

lemma tiny_save:
  "op_run tiny_codec good_io (Context None) (Context None) (empty_store f) (OpSaveWorkflow example_workflow) =
     (None, tiny_saved (f @ ''{}'' @ [newline]))"
  by (simp add: SaveWorkflow_def checkE_def Let_def tiny_empty example_workflow_valid commit_def appendRecord_def tiny_codec_def
      good_io_def errors_Join_def map_filter_simps tiny_saved_def empty_store_def)

lemma tiny_torn:
  "\<exists>err. op_run tiny_codec torn_io (Context None) (Context None) (empty_store []) (OpSaveWorkflow example_workflow) =
     (Some err, empty_store ''{'')"
  by (simp add: SaveWorkflow_def checkE_def Let_def tiny_empty example_workflow_valid commit_def appendRecord_def tiny_codec_def
      good_io_def torn_io_def errors_Join_def map_filter_simps empty_store_def)

theorem crash_atomic_witness:
  "\<exists>s''. OpenFileStore tiny_codec None None clean_io ''journal'' ''{'' = (Inr s'', fs_file s'') \<and>
     (s'' = empty_store [] \<or> applyRecord (empty_store []) tiny_record = Inr (at_file [] s''))"
  using crash_atomic [OF tiny_laws reach_empty tiny_save, of "''{''" "''}'' @ [newline]" "''journal''"]
  unfolding tiny_op by (auto simp: tiny_saved_def empty_store_def)

theorem torn_append_unopenable_witness:
  "isl (fst (OpenFileStore tiny_codec None None clean_io ''journal'' (''{{}'' @ [newline])))"
proof -
  obtain err where torn: "op_run tiny_codec torn_io (Context None) (Context None) (empty_store []) (OpSaveWorkflow example_workflow) =
      (Some err, empty_store ''{'')"
    using tiny_torn by blast
  have glued: "isl (cd_unwrap tiny_codec (''{'' @ l))" if "record_line tiny_codec tiny_record = Some l" for l
    using that unfolding tiny_line by (auto simp: tiny_codec_def newline_def)
  have "fs_file (empty_store ''{'') = fs_file (empty_store []) @ ''{''" "record_line tiny_codec tiny_record \<noteq> Some ''{''"
    "fs_file (tiny_saved (''{'' @ ''{}'' @ [newline])) \<noteq> fs_file (empty_store ''{'')"
    unfolding tiny_line by (simp_all add: empty_store_def tiny_saved_def)
  from torn_append_unopenable [OF tiny_laws reach_empty torn, unfolded tiny_op, OF _ this(1) _ this(2) tiny_save, unfolded tiny_op, OF _ _ _ this(3) glued]
  show ?thesis by (simp add: tiny_saved_def empty_store_def)
qed

end
