(* ===== verification/FF_Codec.thy ===== *)
theory FF_Codec
  imports FF_Journal "HOL-Library.Countable"
begin

text \<open>
  A codec that encodes every journal record and decodes what it encodes. The store's guarantees hold for every codec
  with this law; that there is one shows that the law can be satisfied for all records at once. The types of a
  record are countable, so a record is written as its number.
\<close>

section \<open>The types of a journal record are countable\<close>

instance slice :: (countable) countable
  by countable_datatype

instance RetryPolicy_ext :: (countable) countable
  by (rule countable_classI [of "\<lambda>r. to_nat (MaxAttempts r, InitialBackoff r, MaxBackoff r, RetryPolicy.more r)"]) simp

instance TaskDefinition_ext :: (countable) countable
  by (rule countable_classI [of "\<lambda>r. to_nat (td_ID r, td_Name r, td_Dependencies r, td_Handler r, td_Input r, td_Retry r, TaskDefinition.more r)"]) simp

instance WorkflowDefinition_ext :: (countable) countable
  by (rule countable_classI [of "\<lambda>r. to_nat (wd_ID r, wd_Tasks r, WorkflowDefinition.more r)"]) simp

instance ValidationCode :: countable
  by countable_datatype

instance ValidationError_ext :: (countable) countable
  by (rule countable_classI [of "\<lambda>r. to_nat (ve_Code r, ve_WorkflowID r, ve_TaskID r, ve_DependencyID r, ve_Reason r, ValidationError.more r)"]) simp

instance WorkflowRunStatus :: countable
  by countable_datatype

instance TaskRunStatus :: countable
  by countable_datatype

instance fmt_arg :: countable
  by countable_datatype

instance go_error :: countable
  by countable_datatype

instance TaskLease_ext :: (countable) countable
  by (rule countable_classI [of "\<lambda>r. to_nat (tl_WorkerID r, tl_TaskRunID r, tl_AttemptID r, tl_ExpiresAt r, TaskLease.more r)"]) simp

instance WorkerHeartbeat_ext :: (countable) countable
  by (rule countable_classI [of "\<lambda>r. to_nat (wh_WorkerID r, wh_LastHeartbeatAt r, WorkerHeartbeat.more r)"]) simp

instance TaskRun_ext :: (countable) countable
  by (rule countable_classI [of "\<lambda>r. to_nat (tr_TaskID r, tr_TaskRunID r, tr_Status r, tr_Output r, tr_Error r, tr_AttemptCount r, tr_CurrentAttemptID r, tr_NextAttemptAt r, tr_Lease r, tr_UpdatedAt r, tr_StartedAt r, tr_FinishedAt r, TaskRun.more r)"]) simp

instance WorkflowRunSnapshot_ext :: (countable) countable
  by (rule countable_classI [of "\<lambda>r. to_nat (ws_ID r, ws_WorkflowID r, ws_Version r, ws_Status r, ws_CreatedAt r, ws_UpdatedAt r, ws_Tasks r, ws_Workers r, WorkflowRunSnapshot.more r)"]) simp

instance User_ext :: (countable) countable
  by (rule countable_classI [of "\<lambda>r. to_nat (us_ID r, us_DisplayName r, us_Disabled r, us_CreatedAt r, User.more r)"]) simp

instance Project_ext :: (countable) countable
  by (rule countable_classI [of "\<lambda>r. to_nat (pj_ID r, pj_Name r, pj_CreatedBy r, pj_CreatedAt r, pj_UpdatedAt r, Project.more r)"]) simp

instance Role :: countable
  by countable_datatype

instance Membership_ext :: (countable) countable
  by (rule countable_classI [of "\<lambda>r. to_nat (mem_ProjectID r, mem_UserID r, mem_Role r, mem_CreatedAt r, mem_UpdatedAt r, Membership.more r)"]) simp

instance WorkflowOwnership_ext :: (countable) countable
  by (rule countable_classI [of "\<lambda>r. to_nat (ow_WorkflowID r, ow_ProjectID r, ow_OwnerUserID r, ow_CreatedAt r, WorkflowOwnership.more r)"]) simp

instance AuditEvent_ext :: (countable) countable
  by (rule countable_classI [of "\<lambda>r. to_nat (ae_ID r, ae_ProjectID r, ae_ActorUserID r, ae_Action r, ae_ResourceType r, ae_ResourceID r, ae_OccurredAt r, ae_Metadata r, AuditEvent.more r)"]) simp

instance journalRecord_ext :: (countable) countable
  by (rule countable_classI [of "\<lambda>r. to_nat (jr_Version r, jr_Operation r, jr_Workflow r, jr_Run r, jr_User r, jr_Project r, jr_Membership r, jr_Ownership r, jr_AuditEvent r, journalRecord.more r)"]) simp

section \<open>The codec\<close>

definition record_text :: "journalRecord \<Rightarrow> string" where
  "record_text r = replicate (to_nat r) (CHR ''1'')"

definition number_codec :: journal_codec where
  "number_codec =
     \<lparr>cd_marshal = (\<lambda>r. Inr (record_text r)),
      cd_unmarshal = (\<lambda>p. Inr (from_nat (length p))),
      cd_wrap = (\<lambda>(digest, p). Inr (CHR ''{'' # p)),
      cd_unwrap = (\<lambda>l. case l of [] \<Rightarrow> Inl (errors_New ''json'') | c # rest \<Rightarrow> Inr ('''', butlast rest)),
      cd_digest = (\<lambda>_. '''')\<rparr>"

declare record_text_def [code del]

text \<open>The law of a codec that decodes every record it encodes.\<close>

lemma number_codec_laws: "codec_laws number_codec UNIV"
  by (auto simp: codec_laws_def number_codec_def record_text_def newline_def)

end
