(* ===== verification/FF_Restore.thy ===== *)
theory FF_Restore
  imports FF_Snapshot
begin

text \<open>
  From runs to snapshots and back: the snapshot of a run that satisfies the invariant passes
  validation (unless one worker holds two leases), and restoring it gives the run again.
\<close>

section \<open>Identities are valid identifiers\<close>

lemma validIdentifier_iff: "validIdentifier s \<longleftrightarrow> s \<noteq> '''' \<and> (\<forall>r \<in> set (runes s). identifier_rune r)"
  by (simp add: validIdentifier_def identifier_rune_def list_all_iff)

lemma validIdentifier_workflow: "validIdentifier = workflow_validIdentifier"
  by (rule ext) (simp add: validIdentifier_def workflow_validIdentifier_def)

lemma identifier_colon: "identifier_rune 58" "of_char CHR '':'' = (58 :: nat)"
  by (simp_all add: identifier_rune_def IsSpace_def IsControl_def)

lemma runes_dec_int: "runes (dec_int i) = map of_char (dec_int i)"
  by (rule runes_ascii_string) (rule dec_int_ascii)

lemma validIdentifier_TaskRunIDFor:
  assumes "validIdentifier r" "validIdentifier t"
  shows "validIdentifier (TaskRunIDFor r t)"
proof -
  have "runes (TaskRunIDFor r t) = runes (dec_int (int (length r))) @ 58 # runes r @ 58 # runes t"
    using runes_append_ascii [of "CHR '':''" "dec_int (int (length r))" "r @ CHR '':'' # t"]
      runes_append_ascii [of "CHR '':''" r t]
    by (simp add: TaskRunIDFor_def identifier_colon)
  then show ?thesis
    using assms dec_int_identifier
    by (auto simp: validIdentifier_iff identifier_colon runes_dec_int TaskRunIDFor_def)
qed

lemma validIdentifier_AttemptIDFor:
  assumes "validIdentifier x"
  shows "validIdentifier (AttemptIDFor x n)"
proof -
  have "runes (''attempt:'' @ dec_int n) = map of_char (''attempt:'' @ dec_int n)"
    by (rule runes_ascii_string) (auto dest: dec_int_ascii)
  then have "runes (AttemptIDFor x n) = runes x @ 58 # map of_char (''attempt:'' @ dec_int n)"
    using runes_append_ascii [of "CHR '':''" x "''attempt:'' @ dec_int n"] by (simp add: AttemptIDFor_def identifier_colon)
  then show ?thesis
    using assms dec_int_identifier
    by (auto simp: validIdentifier_iff identifier_colon) (simp_all add: identifier_rune_def IsSpace_def IsControl_def)
qed

section \<open>The tasks of a snapshot\<close>

lemma cloneTaskRun_id [simp]: "cloneTaskRun t = t"
  by (cases t) (simp add: cloneTaskRun_def split: option.split)

lemma map_cloneTaskRun [simp]: "map cloneTaskRun ts = ts"
  by (simp add: map_idI)

lemma set_mvals: "wf_map m \<Longrightarrow> v \<in> set (mvals m) \<longleftrightarrow> (\<exists>k. mget m k = Some v)"
  by (force simp: mvals_def mget_Some_iff)

lemma ws_Tasks_Snapshot [simp]: "ws_Tasks (Snapshot run) = sort_key tr_TaskID (mvals (run_tasks run))"
  by (simp add: Snapshot_def sortedTasksLocked_def comp_def map_idI)

lemma Snapshot_fields [simp]:
  "ws_ID (Snapshot run) = run_id run" "ws_WorkflowID (Snapshot run) = wd_ID (run_definition run)"
  "ws_Version (Snapshot run) = run_version run" "ws_Status (Snapshot run) = run_status run"
  "ws_CreatedAt (Snapshot run) = run_createdAt run" "ws_UpdatedAt (Snapshot run) = run_updatedAt run"
  "ws_Workers (Snapshot run) = sort_key wh_WorkerID (mvals (run_workers run))"
  by (simp_all add: Snapshot_def sortedWorkersLocked_def)

lemma map_key_mvals:
  assumes "\<And>k v. (k, v) \<in> set m \<Longrightarrow> f v = k"
  shows "map f (mvals m) = mkeys m"
  using assms by (auto simp: mvals_def mkeys_def)

lemma mvals_TaskID: "run_inv run \<Longrightarrow> map tr_TaskID (mvals (run_tasks run)) = mkeys (run_tasks run)"
  by (rule map_key_mvals) (use run_invD(6,9) in \<open>force simp: task_inv_def Let_def mget_Some_iff\<close>)

lemma mvals_WorkerID: "run_inv run \<Longrightarrow> map wh_WorkerID (mvals (run_workers run)) = mkeys (run_workers run)"
  by (rule map_key_mvals) (use run_invD(8,10) in \<open>force simp: mget_Some_iff\<close>)

lemma distinct_map_sort_key: "distinct (map f (sort_key g xs)) \<longleftrightarrow> distinct (map f xs)"
proof -
  have "mset (map f (sort_key g xs)) = mset (map f xs)" by simp
  then show ?thesis by (metis mset_eq_imp_distinct_iff)
qed

lemma task_inv_snapshot_ok:
  assumes "task_inv run k t" "run_inv run" "validIdentifier k"
  shows "snapshot_task_ok (Snapshot run) t"
proof -
  have "validIdentifier (AttemptIDFor (TaskRunIDFor (run_id run) k) n)" for n
    using run_invD(1) [OF assms(2)] assms(3) by (intro validIdentifier_AttemptIDFor validIdentifier_TaskRunIDFor)
  then show ?thesis
    using assms(1,3) run_invD(2) [OF assms(2)] unfolding task_inv_def snapshot_task_ok_def Let_def
    by (cases "tr_Status t"; cases "tr_AttemptCount t = 0") (simp_all add: terminal_def, fastforce)
qed

lemma run_keys_valid: "\<lbrakk>run_inv run; mget (run_tasks run) k = Some t\<rbrakk> \<Longrightarrow> validIdentifier k"
proof -
  assume inv: "run_inv run" and t: "mget (run_tasks run) k = Some t"
  have "k \<in> set (task_ids (run_definition run))"
    using run_invD(7) [OF inv] t by (metis mhas_def mhas_mkeys option.distinct(1))
  then show ?thesis
    using run_invD(4) [OF inv]
    by (auto simp: validIdentifier_workflow workflow_Validate_iff structurally_valid_def task_ok_def task_ids_def)
qed

text \<open>At most one lease per worker.\<close>

definition leases_distinct :: "WorkflowRun \<Rightarrow> bool" where
  "leases_distinct run \<longleftrightarrow> (\<forall>k k' l l'. run_leases run k l \<longrightarrow> run_leases run k' l' \<longrightarrow>
     tl_WorkerID l = tl_WorkerID l' \<longrightarrow> k = k')"

definition lease_clash :: "TaskRun \<Rightarrow> TaskRun \<Rightarrow> bool" where
  "lease_clash t t' \<longleftrightarrow> (\<exists>l l'. tr_Lease t = Some l \<and> tr_Lease t' = Some l' \<and> tl_WorkerID l = tl_WorkerID l')"

lemma lease_clash_sym: "lease_clash t t' \<Longrightarrow> lease_clash t' t"
  by (auto simp: lease_clash_def)

lemma distinct_lease_workers:
  assumes "distinct (map tr_TaskID ts)"
  shows "distinct (lease_workers ts) \<longleftrightarrow> (\<forall>t \<in> set ts. \<forall>t' \<in> set ts. lease_clash t t' \<longrightarrow> tr_TaskID t = tr_TaskID t')"
  using assms
proof (induction ts)
  case (Cons t ts)
  have ne: "tr_TaskID t \<noteq> tr_TaskID t'" if "t' \<in> set ts" for t' using Cons.prems that by auto
  have IH: "distinct (lease_workers ts) \<longleftrightarrow> (\<forall>t \<in> set ts. \<forall>t' \<in> set ts. lease_clash t t' \<longrightarrow> tr_TaskID t = tr_TaskID t')"
    using Cons by simp
  have "distinct (lease_workers (t # ts)) \<longleftrightarrow> (\<forall>t' \<in> set ts. \<not> lease_clash t t') \<and> distinct (lease_workers ts)"
  proof (cases "tr_Lease t")
    case None
    then show ?thesis by (simp add: lease_clash_def)
  next
    case (Some l)
    have "tl_WorkerID l \<in> set (lease_workers ts) \<longleftrightarrow> (\<exists>t' \<in> set ts. lease_clash t t')"
      using Some by (force simp: lease_workers_def List.map_filter_def lease_clash_def)
    then show ?thesis using Some by auto
  qed
  moreover have "(\<forall>a \<in> set (t # ts). \<forall>b \<in> set (t # ts). lease_clash a b \<longrightarrow> tr_TaskID a = tr_TaskID b) \<longleftrightarrow>
      (\<forall>t' \<in> set ts. \<not> lease_clash t t') \<and> (\<forall>a \<in> set ts. \<forall>b \<in> set ts. lease_clash a b \<longrightarrow> tr_TaskID a = tr_TaskID b)"
    using ne lease_clash_sym by (metis list.set_intros(1,2) set_ConsD)
  ultimately show ?case unfolding IH by blast
qed simp

lemma run_leases_mvals:
  assumes "run_inv run"
  shows "(\<forall>t \<in> set (mvals (run_tasks run)). \<forall>t' \<in> set (mvals (run_tasks run)). lease_clash t t' \<longrightarrow> tr_TaskID t = tr_TaskID t')
    \<longleftrightarrow> leases_distinct run" (is "?L \<longleftrightarrow> _")
proof
  have id: "mget (run_tasks run) k = Some t \<Longrightarrow> tr_TaskID t = k" for k t
    using run_invD(9) [OF assms] by (simp add: task_inv_def Let_def)
  note mem = set_mvals [OF run_invD(6) [OF assms]]
  {
    assume L: ?L
    show "leases_distinct run"
      unfolding leases_distinct_def
    proof (intro allI impI)
      fix k k' l l' assume "run_leases run k l" "run_leases run k' l'" "tl_WorkerID l = tl_WorkerID l'"
      then obtain t t' where t: "mget (run_tasks run) k = Some t" "mget (run_tasks run) k' = Some t'" "lease_clash t t'"
        by (auto simp: run_leases_def lease_clash_def)
      then have "tr_TaskID t = tr_TaskID t'" using L mem by blast
      then show "k = k'" using id [OF t(1)] id [OF t(2)] by simp
    qed
  next
    assume R: "leases_distinct run"
    show ?L
    proof (intro ballI impI)
      fix t t' assume t: "t \<in> set (mvals (run_tasks run))" "t' \<in> set (mvals (run_tasks run))" "lease_clash t t'"
      then obtain k k' where k: "mget (run_tasks run) k = Some t" "mget (run_tasks run) k' = Some t'" using mem by blast
      obtain l l' where l: "tr_Lease t = Some l" "tr_Lease t' = Some l'" "tl_WorkerID l = tl_WorkerID l'"
        using t(3) by (auto simp: lease_clash_def)
      have "run_leases run k l" "run_leases run k' l'" using k l by (auto simp: run_leases_def)
      then have "k = k'" using R l(3) unfolding leases_distinct_def by blast
      then show "tr_TaskID t = tr_TaskID t'" using k by simp
    qed
  }
qed

text \<open>Validation of the snapshot of a run that satisfies the invariant comes down to two conditions.\<close>

lemma snapshot_Validate_run:
  assumes inv: "run_inv run"
  shows "snapshot_Validate (Snapshot run) = Inr () \<longleftrightarrow>
    leases_distinct run \<and> aggregate_ok (run_status run) (mvals (run_tasks run))"
proof -
  note i = run_invD [OF inv]
  have ts: "set (ws_Tasks (Snapshot run)) = set (mvals (run_tasks run))" by simp
  have dist: "distinct (map tr_TaskID (mvals (run_tasks run)))"
    using mvals_TaskID [OF inv] i(6) by (simp add: wf_map_def mkeys_def)
  have ne: "mvals (run_tasks run) \<noteq> []"
    using i(4,7) by (auto simp: workflow_Validate_iff structurally_valid_def mvals_def mkeys_def task_ids_def)
  then have nes: "sort_key tr_TaskID (mvals (run_tasks run)) \<noteq> []" by (metis length_sort length_0_conv)
  have tasks: "snapshot_task_ok (Snapshot run) t" if "t \<in> set (mvals (run_tasks run))" for t
    using that i(6) by (auto simp: set_mvals intro: task_inv_snapshot_ok [OF i(9) inv run_keys_valid [OF inv]])
  have wdist: "distinct (map wh_WorkerID (mvals (run_workers run)))"
    using mvals_WorkerID [OF inv] i(8) by (simp add: wf_map_def mkeys_def)
  have workers: "worker_ok (run_createdAt run) w" if "w \<in> set (mvals (run_workers run))" for w
    using that i(2,8,10) by (fastforce simp: set_mvals worker_ok_def)
  have leased: "set (lease_workers (ws_Tasks (Snapshot run))) \<subseteq> wh_WorkerID ` set (mvals (run_workers run))"
  proof
    fix w assume "w \<in> set (lease_workers (ws_Tasks (Snapshot run)))"
    then obtain t l where tl: "t \<in> set (mvals (run_tasks run))" "tr_Lease t = Some l" "tl_WorkerID l = w"
      by (auto simp: lease_workers_def List.map_filter_def)
    then obtain k where "mget (run_tasks run) k = Some t" using i(6) by (auto simp: set_mvals)
    then have "mhas (run_workers run) w" using i(11) tl by (auto simp: run_leases_def)
    then have "w \<in> set (mkeys (run_workers run))" by (simp add: mhas_mkeys)
    then show "w \<in> wh_WorkerID ` set (mvals (run_workers run))" by (metis mvals_WorkerID [OF inv] set_map)
  qed
  have ld: "distinct (lease_workers (ws_Tasks (Snapshot run))) \<longleftrightarrow> leases_distinct run"
    using distinct_lease_workers [of "ws_Tasks (Snapshot run)"] dist run_leases_mvals [OF inv]
    by (simp add: distinct_map_sort_key)
  have ag: "aggregate_ok st (ws_Tasks (Snapshot run)) = aggregate_ok st (mvals (run_tasks run))" for st
    by (cases st) auto
  have wf: "validIdentifier (wd_ID (run_definition run))"
    using i(4) by (simp add: validIdentifier_workflow workflow_Validate_iff structurally_valid_def)
  show ?thesis
    unfolding snapshot_Validate_iff snapshot_ok_def ld ag
    using i(1-3) wf dist nes tasks wdist workers leased by (auto simp: distinct_map_sort_key)
qed

lemma run_trace_leases_step:
  assumes "run_step run e run'" "leases_distinct run"
    "\<And>k a w. e = EvStart k a w \<Longrightarrow> \<forall>k' l. run_leases run k' l \<longrightarrow> tl_WorkerID l \<noteq> w"
  shows "leases_distinct run'"
  unfolding leases_distinct_def
proof (intro allI impI)
  fix k k' l l' assume l: "run_leases run' k l" "run_leases run' k' l'" "tl_WorkerID l = tl_WorkerID l'"
  note a = run_step_lease [OF assms(1) l(1)] and b = run_step_lease [OF assms(1) l(2)]
  show "k = k'"
  proof (cases "\<exists>j a w. e = EvStart j a w")
    case True
    then obtain j a w where e: "e = EvStart j a w" by blast
    have idle: "run_leases run i m \<Longrightarrow> tl_WorkerID m \<noteq> w" for i m using assms(3) [OF e] by blast
    from a show ?thesis
    proof
      assume "\<exists>m. run_leases run k m \<and> tl_WorkerID l = tl_WorkerID m"
      then obtain m where m: "run_leases run k m" "tl_WorkerID l = tl_WorkerID m" by blast
      from b show ?thesis
      proof
        assume "\<exists>m. run_leases run k' m \<and> tl_WorkerID l' = tl_WorkerID m"
        then obtain m' where m': "run_leases run k' m'" "tl_WorkerID l' = tl_WorkerID m'" by blast
        show ?thesis using assms(2) [unfolded leases_distinct_def, rule_format, OF m(1) m'(1)] m(2) m'(2) l(3) by simp
      qed (use idle [OF m(1)] m(2) l(3) e in simp)
    next
      assume "\<exists>a. e = EvStart k a (tl_WorkerID l)"
      then have k: "k = j" "tl_WorkerID l = w" using e by auto
      from b show ?thesis
      proof
        assume "\<exists>m. run_leases run k' m \<and> tl_WorkerID l' = tl_WorkerID m"
        then obtain m' where "run_leases run k' m'" "tl_WorkerID l' = tl_WorkerID m'" by blast
        then show ?thesis using idle k(2) l(3) by simp
      qed (use k e in simp)
    qed
  next
    case False
    then obtain m m' where m: "run_leases run k m" "tl_WorkerID l = tl_WorkerID m" and m': "run_leases run k' m'" "tl_WorkerID l' = tl_WorkerID m'"
      using a b by blast
    show ?thesis using assms(2) [unfolded leases_distinct_def, rule_format, OF m(1) m'(1)] m(2) m'(2) l(3) by simp
  qed
qed

text \<open>C25: a run that is under way can always be persisted. Starting from a new run, after any sequence
  of operations in which no worker holds two leases at the end, the snapshot of a running workflow
  passes the store's validation.\<close>

theorem reachable_snapshot_valid:
  assumes "newWorkflowRun runID definition now = Inr run" "0 < now" "run_trace run es run'"
    "leases_distinct run'" "run_status run' = WorkflowRunRunning"
  shows "snapshot_Validate (Snapshot run') = Inr ()"
  using snapshot_Validate_run [OF run_trace_inv [OF assms(3) newWorkflowRun_inv [OF assms(1,2)]]] assms(4,5) by simp

text \<open>C26: the operations do not enforce one lease per worker themselves. In every reachable run, starting
  a ready task for a worker that still holds the lease of another task succeeds, whenever the lease
  duration is positive, and the resulting run can no longer be persisted: its snapshot is not valid.\<close>

theorem second_lease_unpersistable:
  assumes "newWorkflowRun runID definition now = Inr run" "0 < now" "run_trace run es run'"
    "run_leases run' k l" "mget (run_tasks run') t = Some task" "tr_Status task = TaskRunReady" "0 < sint d"
  shows "\<exists>a run''. startTaskAttempt run' now' t (tl_WorkerID l) d = Inr (a, run'') \<and>
    snapshot_Validate (Snapshot run'') \<noteq> Inr ()"
proof -
  have inv': "run_inv run'" by (rule run_trace_inv [OF assms(3) newWorkflowRun_inv [OF assms(1,2)]])
  have "validIdentifier (tl_WorkerID l)"
    using run_invD(10) [OF inv'] run_invD(11) [OF inv' assms(4)] by (auto simp: mhas_def)
  then obtain a run'' where started: "startTaskAttempt run' now' t (tl_WorkerID l) d = Inr (a, run'')"
    using assms(5-7) by (simp add: startTaskAttempt_def Let_def)
  have inv'': "run_inv run''" by (rule run_step_inv [OF run_step.start [OF started] inv'])
  from started have "\<not> leases_distinct run''"
  proof (rule startTaskAttempt_InrE)
    fix task assume task: "mget (run_tasks run') t = Some task" "tr_Status task = TaskRunReady"
      and run'': "run'' = run'\<lparr>run_tasks := mput t (start_task_run run' (nextTimestampLocked run' now') t (tl_WorkerID l) d task) (run_tasks run'),
         run_workers := mput (tl_WorkerID l) \<lparr>wh_WorkerID = tl_WorkerID l, wh_LastHeartbeatAt = nextTimestampLocked run' now'\<rparr> (run_workers run'),
         run_updatedAt := nextTimestampLocked run' now'\<rparr>"
    obtain u where u: "mget (run_tasks run') k = Some u" "tr_Lease u = Some l" using assms(4) by (auto simp: run_leases_def)
    have "tr_Status u = TaskRunRunning" using run_invD(9) [OF inv' u(1)] u(2) by (simp add: task_inv_def Let_def)
    then have ne: "k \<noteq> t" using task u(1) by auto
    obtain l' where l': "run_leases run'' t l'" "tl_WorkerID l' = tl_WorkerID l" by (simp add: run'' run_leases_def go_map)
    have "run_leases run'' k l" using u ne by (simp add: run'' run_leases_def go_map)
    from leases_distinct_def [of run'', THEN iffD1, rule_format, OF _ this l'(1)] l'(2) ne show ?thesis by auto
  qed
  then have "snapshot_Validate (Snapshot run'') \<noteq> Inr ()" using snapshot_Validate_run [OF inv''] by blast
  with started show ?thesis by blast
qed

section \<open>Restoring\<close>

lemma fold_mput_distinct:
  "\<lbrakk>distinct (map f xs); set (map fst m) \<inter> f ` set xs = {}\<rbrakk> \<Longrightarrow>
   fold (\<lambda>x. mput (f x) (g x)) xs m = m @ map (\<lambda>x. (f x, g x)) xs"
  by (induction xs arbitrary: m) (auto simp: mput_fresh mhas_iff)

lemma map_of_sorted:
  assumes "wf_map m" "\<And>k v. (k, v) \<in> set m \<Longrightarrow> f v = k"
  shows "mget (map (\<lambda>v. (f v, v)) (sort_key f (mvals m))) = mget m"
proof (rule map_of_perm [symmetric])
  have "map (\<lambda>v. (f v, v)) (mvals m) = m" using assms(2) by (auto simp: mvals_def intro!: map_idI)
  then have "mset (map (\<lambda>v. (f v, v)) (sort_key f (mvals m))) = mset m" by (metis mset_map mset_sort)
  then show "mset m = mset (map (\<lambda>v. (f v, v)) (sort_key f (mvals m)))" by simp
qed (use assms(1) in \<open>simp add: wf_map_def\<close>)

lemma sort_key_idem [simp]: "sort_key f (sort_key f xs) = sort_key f xs"
  by (rule properties_for_sort_key) simp_all

lemma restore_task_id: "task_inv run k t \<Longrightarrow> restore_task (Snapshot run) t = t"
proof -
  assume i: "task_inv run k t"
  have "tr_TaskRunID t \<noteq> ''''" using i by (simp add: task_inv_def Let_def TaskRunIDFor_def)
  moreover have "\<not> (tr_CurrentAttemptID t = '''' \<and> 0 < tr_AttemptCount t)" using i by (auto simp: task_inv_def Let_def)
  ultimately show ?thesis by (simp add: restore_task_def Let_def)
qed

lemma restore_Snapshot:
  assumes inv: "run_inv run" and valid: "snapshot_Validate (Snapshot run) = Inr ()"
  shows "restoreWorkflowRun (Snapshot run) (run_definition run) =
    Inr (run\<lparr>run_tasks := map (\<lambda>t. (tr_TaskID t, t)) (sort_key tr_TaskID (mvals (run_tasks run))),
             run_workers := map (\<lambda>w. (wh_WorkerID w, w)) (sort_key wh_WorkerID (mvals (run_workers run)))\<rparr>)"
proof -
  note i = run_invD [OF inv]
  let ?ts = "sort_key tr_TaskID (mvals (run_tasks run))"
  have dist: "distinct (map tr_TaskID ?ts)" "distinct (map wh_WorkerID (sort_key wh_WorkerID (mvals (run_workers run))))"
    using mvals_TaskID [OF inv] mvals_WorkerID [OF inv] i(6,8) by (simp_all add: distinct_map_sort_key wf_map_def mkeys_def)
  have "restore_task (Snapshot run) t = t" if "t \<in> set ?ts" for t
    using that i(6) by (auto simp: set_mvals intro: restore_task_id [OF i(9)])
  then have "fold (\<lambda>t. mput (tr_TaskID t) (restore_task (Snapshot run) t)) ?ts [] = fold (\<lambda>t. mput (tr_TaskID t) t) ?ts []"
    by (intro fold_cong) auto
  also have "\<dots> = map (\<lambda>t. (tr_TaskID t, t)) ?ts" using fold_mput_distinct [of tr_TaskID ?ts "[]" id] dist(1) by simp
  finally have tasks: "fold (\<lambda>t. mput (tr_TaskID t) (restore_task (Snapshot run) t)) ?ts [] = map (\<lambda>t. (tr_TaskID t, t)) ?ts" .
  have workers: "fold (\<lambda>w. mput (wh_WorkerID w) w) (sort_key wh_WorkerID (mvals (run_workers run))) [] =
      map (\<lambda>w. (wh_WorkerID w, w)) (sort_key wh_WorkerID (mvals (run_workers run)))"
    using fold_mput_distinct [of wh_WorkerID _ "[]" id] dist(2) by simp
  have keys: "tr_TaskID ` set (mvals (run_tasks run)) = set (task_ids (run_definition run))"
    by (metis i(7) mvals_TaskID [OF inv] set_map)
  have "length (mvals (run_tasks run)) = card (set (mkeys (run_tasks run)))"
    using i(6) by (metis distinct_card length_map mkeys_def mvals_def wf_map_def)
  also have "\<dots> = length (wd_Tasks (run_definition run))"
  proof -
    have "distinct (task_ids (run_definition run))" using i(4) by (simp add: workflow_Validate_iff structurally_valid_def)
    from distinct_card [OF this] show ?thesis unfolding i(7) by (simp only: task_ids_def length_map)
  qed
  finally have len: "length (mvals (run_tasks run)) = length (wd_Tasks (run_definition run))" .
  have "mhas (map (\<lambda>t. (tr_TaskID t, t)) ?ts) (td_ID task)" if "task \<in> set (wd_Tasks (run_definition run))" for task
    using that keys by (simp add: mhas_iff image_image task_ids_def)
  then have none: "filter (\<lambda>task. \<not> mhas (map (\<lambda>t. (tr_TaskID t, t)) ?ts) (td_ID task)) (wd_Tasks (run_definition run)) = []"
    by (simp add: filter_empty_conv)
  show ?thesis
    using valid i(4,5) len
    by (simp add: restoreWorkflowRun_def Let_def tasks workers none)
qed

lemma restored_run:
  assumes inv: "run_inv run" and "snapshot_Validate (Snapshot run) = Inr ()"
  shows "\<exists>run'. restoreWorkflowRun (Snapshot run) (run_definition run) = Inr run' \<and>
    mget (run_tasks run') = mget (run_tasks run) \<and> mget (run_workers run') = mget (run_workers run) \<and>
    run_id run' = run_id run \<and> run_definition run' = run_definition run \<and> run_version run' = run_version run \<and>
    run_status run' = run_status run \<and> run_createdAt run' = run_createdAt run \<and>
    run_updatedAt run' = run_updatedAt run \<and> Snapshot run' = Snapshot run"
proof -
  note i = run_invD [OF inv]
  let ?r = "run\<lparr>run_tasks := map (\<lambda>t. (tr_TaskID t, t)) (sort_key tr_TaskID (mvals (run_tasks run))),
             run_workers := map (\<lambda>w. (wh_WorkerID w, w)) (sort_key wh_WorkerID (mvals (run_workers run)))\<rparr>"
  have "mget (run_tasks ?r) = mget (run_tasks run)"
    using map_of_sorted [OF i(6), of tr_TaskID] i(6,9) by (auto simp: task_inv_def Let_def mget_Some_iff)
  moreover have "mget (run_workers ?r) = mget (run_workers run)"
    using map_of_sorted [OF i(8), of wh_WorkerID] i(8,10) by (auto simp: mget_Some_iff)
  moreover have "Snapshot ?r = Snapshot run"
    by (simp add: Snapshot_def sortedTasksLocked_def sortedWorkersLocked_def mvals_def comp_def)
  ultimately show ?thesis using restore_Snapshot [OF inv assms(2)] by (intro exI [of _ ?r] conjI) simp_all
qed

text \<open>C27: persisting and restoring is lossless. If the snapshot of a reachable run is accepted, then
  restoring it with the run's definition yields a run with the same identity, version, status,
  timestamps, tasks and workers, and the same snapshot.\<close>

theorem restore_roundtrip:
  assumes "newWorkflowRun runID definition now = Inr run" "0 < now" "run_trace run es run'"
    "snapshot_Validate (Snapshot run') = Inr ()"
  shows "\<exists>run''. restoreWorkflowRun (Snapshot run') (run_definition run') = Inr run'' \<and>
    mget (run_tasks run'') = mget (run_tasks run') \<and> mget (run_workers run'') = mget (run_workers run') \<and>
    run_id run'' = run_id run' \<and> run_definition run'' = run_definition run' \<and> run_version run'' = run_version run' \<and>
    run_status run'' = run_status run' \<and> run_createdAt run'' = run_createdAt run' \<and>
    run_updatedAt run'' = run_updatedAt run' \<and> Snapshot run'' = Snapshot run'"
  by (rule restored_run [OF run_trace_inv [OF assms(3) newWorkflowRun_inv [OF assms(1,2)]] assms(4)])

end
