(* ===== verification/FF_Recovery.thy ===== *)
theory FF_Recovery
  imports FF_Restore
begin

text \<open>
  Leases and timers of \<open>internal/execution/reliability.go\<close>: which tasks lease recovery takes back,
  which leases heartbeats keep, and that the scheduler's next deadline is exactly the instant at
  which recovery or retry promotion has something to do.
\<close>

section \<open>Lease recovery\<close>

definition lease_lost :: "Time \<Rightarrow> TaskRun \<Rightarrow> bool" where
  "lease_lost ts t \<longleftrightarrow> tr_Status t = TaskRunRunning \<and>
     (case tr_Lease t of None \<Rightarrow> True | Some lease \<Rightarrow> tl_ExpiresAt lease \<le> ts)"

lemma recover_task_run_None_iff: "recover_task_run run ts k t = None \<longleftrightarrow> \<not> lease_lost ts t"
  by (auto simp: recover_task_run_def lease_lost_def lease_live_def Let_def split: option.splits)

lemma recover_task_run_TaskID: "recover_task_run run ts k t = Some (r, t') \<Longrightarrow> lr_TaskID r = k"
  by (auto simp: recover_task_run_def Let_def split: if_splits)

lemma lease_lost_cleared: "recover_task_run run ts k t = Some (r, t') \<Longrightarrow> \<not> lease_lost ts t'"
  using recover_task_run_fields(9) [of run ts k t r t'] by (auto simp: lease_lost_def rescheduled_def)

lemma recoveries_TaskIDs:
  "map lr_TaskID (List.map_filter (\<lambda>(k, t). map_option fst (recover_task_run run ts k t)) m) =
   map fst (filter (\<lambda>(k, t). lease_lost ts t) m)"
proof (induction m)
  case (Cons p m)
  obtain k t where p: "p = (k, t)" by (cases p)
  show ?case
    using Cons recover_task_run_None_iff [of run ts k t] recover_task_run_TaskID [of run ts k t]
    by (cases "recover_task_run run ts k t") (auto simp: p List.map_filter_def)
qed (simp add: List.map_filter_def)

lemma wf_map_filter: "wf_map m \<Longrightarrow> distinct (map fst (filter P m))"
  by (simp add: wf_map_def distinct_map_filter)

lemma recovered_iff:
  assumes "run_inv run" "recoverExpiredLeases run now = (rs, run')"
  shows "k \<in> lr_TaskID ` set rs \<longleftrightarrow> (\<exists>t. mget (run_tasks run) k = Some t \<and> lease_lost (nextTimestampLocked run now) t)"
proof -
  let ?ts = "nextTimestampLocked run now"
  let ?rs = "List.map_filter (\<lambda>(k, t). map_option fst (recover_task_run run ?ts k t)) (run_tasks run)"
  have "lr_TaskID ` set rs = set (map lr_TaskID ?rs)" using assms(2) by (auto simp: recoverExpiredLeases_def Let_def)
  moreover have "k \<in> set (map fst (filter (\<lambda>(k, t). lease_lost ?ts t) (run_tasks run))) \<longleftrightarrow>
      (\<exists>t. (k, t) \<in> set (run_tasks run) \<and> lease_lost ?ts t)" by force
  ultimately show ?thesis unfolding recoveries_TaskIDs mget_Some_iff [OF run_invD(6) [OF assms(1)]] by simp
qed

text \<open>C28: lease recovery takes back exactly the running tasks whose lease is missing or has expired.
  It reports each of them once, in order of task ID, leaves no such task behind, and does not touch
  any other task.\<close>

theorem recoverExpiredLeases_exact:
  assumes "run_inv run" "recoverExpiredLeases run now = (rs, run')" "ts = nextTimestampLocked run now"
  shows "(k \<in> lr_TaskID ` set rs \<longleftrightarrow> (\<exists>t. mget (run_tasks run) k = Some t \<and> lease_lost ts t)) \<and>
    sorted (map lr_TaskID rs) \<and> distinct (map lr_TaskID rs) \<and>
    (mget (run_tasks run') k = Some t' \<longrightarrow> \<not> lease_lost ts t') \<and>
    (k \<notin> lr_TaskID ` set rs \<longrightarrow> mget (run_tasks run') k = mget (run_tasks run) k)"
proof -
  note wf = run_invD(6) [OF assms(1)]
  let ?rs = "List.map_filter (\<lambda>(k, t). map_option fst (recover_task_run run ts k t)) (run_tasks run)"
  have rs: "rs = sort_key lr_TaskID ?rs" and tasks: "run_tasks run' = mmap (recovered_task_run run ts) (run_tasks run)"
    using assms(2,3) by (auto simp: recoverExpiredLeases_def Let_def)
  note ids = recoveries_TaskIDs [of run ts "run_tasks run"]
  have mem: "k \<in> lr_TaskID ` set rs \<longleftrightarrow> (\<exists>t. mget (run_tasks run) k = Some t \<and> lease_lost ts t)"
    using recovered_iff [OF assms(1,2)] by (simp add: assms(3))
  have dist: "distinct (map lr_TaskID rs)" using ids wf by (simp add: rs distinct_map_sort_key wf_map_filter)
  have sorted: "sorted (map lr_TaskID rs)" by (simp add: rs)
  have clear: "\<not> lease_lost ts t'" if t': "mget (run_tasks run') k = Some t'"
  proof -
    obtain t where t: "mget (run_tasks run) k = Some t" "t' = recovered_task_run run ts k t"
      using t' by (auto simp: tasks go_map)
    show ?thesis
      using t lease_lost_cleared [of run ts k t] recover_task_run_None_iff [of run ts k t]
      by (cases "recover_task_run run ts k t") (auto simp: recovered_task_run_def)
  qed
  have other: "mget (run_tasks run') k = mget (run_tasks run) k" if "k \<notin> lr_TaskID ` set rs"
  proof (cases "mget (run_tasks run) k")
    case (Some t)
    then have "recover_task_run run ts k t = None" using that mem recover_task_run_None_iff by blast
    then show ?thesis using Some by (simp add: tasks go_map recovered_task_run_def)
  qed (simp add: tasks go_map)
  show ?thesis by (intro conjI impI mem sorted dist) (erule clear, erule other)
qed

section \<open>Heartbeats\<close>

text \<open>A sequence of heartbeats of any workers, and an abstract clock for one lease: when it expires after
  the heartbeats, given its holder and the instant of the run's last update.\<close>

fun heartbeats :: "WorkflowRun \<Rightarrow> (Time \<times> WorkerID \<times> Duration) list \<Rightarrow> go_error + WorkflowRun" where
  "heartbeats run [] = Inr run"
| "heartbeats run ((now, w, d) # beats) =
     (case recordWorkerHeartbeat run now w d of Inl err \<Rightarrow> Inl err | Inr run \<Rightarrow> heartbeats run beats)"

fun lease_clock :: "WorkerID \<Rightarrow> Time \<Rightarrow> (Time \<times> WorkerID \<times> Duration) list \<Rightarrow> Time \<Rightarrow> Time" where
  "lease_clock holder u [] expires = expires"
| "lease_clock holder u ((now, w, d) # beats) expires =
     lease_clock holder (max u now) beats
       (if w = holder \<and> max u now < expires then max u now + sint d else expires)"

lemma heartbeat_task:
  assumes "recordWorkerHeartbeat run now w d = Inr run'"
  shows "run_updatedAt run' = max (run_updatedAt run) now"
    "mget (run_tasks run') k = map_option (renew_task_run (max (run_updatedAt run) now) w d) (mget (run_tasks run) k)"
  using assms by (rule recordWorkerHeartbeat_InrE, auto simp: nextTimestampLocked_def go_map max_def)+

lemma heartbeats_task:
  "\<lbrakk>heartbeats run beats = Inr run'; mget (run_tasks run) k = Some t; tr_Status t = TaskRunRunning\<rbrakk> \<Longrightarrow>
   \<exists>t'. mget (run_tasks run') k = Some t' \<and> tr_Status t' = TaskRunRunning \<and>
     tr_Lease t' = map_option (\<lambda>l. l\<lparr>tl_ExpiresAt := lease_clock (tl_WorkerID l) (run_updatedAt run) beats (tl_ExpiresAt l)\<rparr>) (tr_Lease t)"
proof (induction beats arbitrary: run t)
  case (Cons beat beats)
  obtain now w d where beat: "beat = (now, w, d)" by (cases beat)
  obtain run1 where run1: "recordWorkerHeartbeat run now w d = Inr run1" "heartbeats run1 beats = Inr run'"
    using Cons.prems(1) by (auto simp: beat split: sum.splits)
  let ?ts = "max (run_updatedAt run) now"
  have t: "mget (run_tasks run1) k = Some (renew_task_run ?ts w d t)" "run_updatedAt run1 = ?ts"
    using heartbeat_task [OF run1(1)] Cons.prems(2) by simp_all
  show ?case
  proof (cases "tr_Lease t")
    case None
    then show ?thesis using Cons.IH [OF run1(2) t(1)] Cons.prems(3) by (simp add: renew_task_run_def)
  next
    case (Some l)
    have "tr_Lease (renew_task_run ?ts w d t) =
        Some (l\<lparr>tl_ExpiresAt := if w = tl_WorkerID l \<and> ?ts < tl_ExpiresAt l then ?ts + sint d else tl_ExpiresAt l\<rparr>)"
      using Some Cons.prems(3) by (simp add: renew_task_run_def time_add_def)
    then show ?thesis using Cons.IH [OF run1(2) t(1)] Cons.prems(3) Some by (simp add: beat t(2))
  qed
qed (simp add: option.map_ident)

lemma heartbeats_other:
  "\<lbrakk>heartbeats run beats = Inr run'; mget (run_tasks run) k = None \<or> (\<exists>t. mget (run_tasks run) k = Some t \<and> tr_Status t \<noteq> TaskRunRunning)\<rbrakk>
    \<Longrightarrow> mget (run_tasks run') k = mget (run_tasks run) k"
proof (induction beats arbitrary: run)
  case (Cons beat beats)
  obtain now w d where beat: "beat = (now, w, d)" by (cases beat)
  obtain run1 where run1: "recordWorkerHeartbeat run now w d = Inr run1" "heartbeats run1 beats = Inr run'"
    using Cons.prems(1) by (auto simp: beat split: sum.splits)
  have "mget (run_tasks run1) k = mget (run_tasks run) k"
    using heartbeat_task(2) [OF run1(1), of k] Cons.prems(2) by (auto simp: renew_task_run_def split: option.split)
  then show ?case using Cons.IH [OF run1(2)] Cons.prems(2) by simp
qed simp

lemma heartbeats_inv: "\<lbrakk>heartbeats run beats = Inr run'; run_inv run\<rbrakk> \<Longrightarrow> run_inv run'"
  by (induction run beats rule: heartbeats.induct) (auto split: sum.splits dest: run_step.heartbeat run_step_inv)

text \<open>C29: heartbeats keep the live leases of their own worker, and only those. Take any run that satisfies
  the invariant, any sequence of heartbeats of any workers, and lease recovery at a later instant. A
  running task is taken back precisely when it has no lease or when the lease's clock has run out, where
  a heartbeat winds the clock to one lease duration from its own instant if it comes from the holder and
  the lease has not expired by then, and does nothing otherwise. So a worker whose heartbeats come
  in time keeps its task, a heartbeat after the expiry does not revive the lease, and the heartbeats of
  other workers protect nothing.\<close>

theorem heartbeats_keep_live_leases:
  assumes "run_inv run" "heartbeats run beats = Inr run'" "recoverExpiredLeases run' now = (rs, run'')"
  shows "k \<in> lr_TaskID ` set rs \<longleftrightarrow>
    (\<exists>t. mget (run_tasks run) k = Some t \<and> tr_Status t = TaskRunRunning \<and>
       (\<forall>l. tr_Lease t = Some l \<longrightarrow>
          lease_clock (tl_WorkerID l) (run_updatedAt run) beats (tl_ExpiresAt l) \<le> nextTimestampLocked run' now))"
proof -
  note rec = recovered_iff [OF heartbeats_inv [OF assms(2,1)] assms(3), of k]
  show ?thesis
  proof (cases "\<exists>t. mget (run_tasks run) k = Some t \<and> tr_Status t = TaskRunRunning")
    case True
    then obtain t where t: "mget (run_tasks run) k = Some t" "tr_Status t = TaskRunRunning" by blast
    from heartbeats_task [OF assms(2) t] show ?thesis
      using t unfolding rec by (cases "tr_Lease t") (auto simp: lease_lost_def)
  next
    case False
    then have "mget (run_tasks run') k = mget (run_tasks run) k"
      by (intro heartbeats_other [OF assms(2)]) (cases "mget (run_tasks run) k"; auto)
    then show ?thesis using False unfolding rec by (auto simp: lease_lost_def)
  qed
qed

section \<open>The next deadline\<close>

definition candidate :: "TaskRun \<Rightarrow> Time option" where
  "candidate t = (if tr_Status t = TaskRunRunning then map_option tl_ExpiresAt (tr_Lease t)
                  else if tr_Status t = TaskRunRetryWaiting then Some (tr_NextAttemptAt t) else None)"

definition leaseless :: "TaskRun \<Rightarrow> bool" where
  "leaseless t \<longleftrightarrow> tr_Status t = TaskRunRunning \<and> tr_Lease t = None"

lemma deadline_loop_Inl_iff: "deadline_loop u ts d = Inl x \<longleftrightarrow> (\<exists>t \<in> set ts. leaseless t) \<and> x = u"
  by (induction ts arbitrary: d) (auto simp: leaseless_def Let_def split: option.splits)

lemma deadline_loop_Inr:
  "\<lbrakk>deadline_loop u ts d = Inr x; \<And>t c. t \<in> set ts \<Longrightarrow> candidate t = Some c \<Longrightarrow> 0 < c; 0 \<le> d\<rbrakk> \<Longrightarrow>
   0 \<le> x \<and> (x = 0 \<longleftrightarrow> d = 0 \<and> (\<forall>t \<in> set ts. candidate t = None)) \<and>
   (\<forall>y. (0 < x \<and> x \<le> y) \<longleftrightarrow> (0 < d \<and> d \<le> y) \<or> (\<exists>t \<in> set ts. \<exists>c. candidate t = Some c \<and> c \<le> y))"
proof (induction ts arbitrary: d)
  case (Cons t ts)
  have pos: "\<And>t c. t \<in> set ts \<Longrightarrow> candidate t = Some c \<Longrightarrow> 0 < c" by (rule Cons.prems(2)) simp_all
  show ?case
  proof (cases "candidate t")
    case None
    then have "deadline_loop u ts d = Inr x"
      using Cons.prems(1) by (auto simp: candidate_def Let_def split: if_splits option.splits)
    from Cons.IH [OF this pos Cons.prems(3)] show ?thesis using None by simp
  next
    case (Some c)
    then have c: "0 < c" using Cons.prems(2) [of t c] by simp
    have "deadline_loop u ts (if d = 0 \<or> c < d then c else d) = Inr x"
      using Cons.prems(1) Some
      by (auto simp: candidate_def Let_def IsZero_def zero_time_def split: if_splits option.splits)
    from Cons.IH [OF this pos] show ?thesis using Some c Cons.prems(3) by (auto split: if_splits)
  qed
qed auto

lemma candidate_pos: "\<lbrakk>task_inv run k t; 0 < run_createdAt run; candidate t = Some c\<rbrakk> \<Longrightarrow> 0 < c"
  unfolding task_inv_def Let_def candidate_def
  by (cases "tr_Status t"; cases "tr_Lease t") auto

definition due :: "WorkflowRun \<Rightarrow> Time \<Rightarrow> bool" where
  "due run ts \<longleftrightarrow> (\<exists>k t. mget (run_tasks run) k = Some t \<and> (lease_lost ts t \<or> retry_due ts t))"

lemma due_iff: "lease_lost ts t \<or> retry_due ts t \<longleftrightarrow> leaseless t \<or> (\<exists>c. candidate t = Some c \<and> c \<le> ts)"
  by (auto simp: lease_lost_def retry_due_def leaseless_def candidate_def split: option.splits if_splits)

text \<open>C30: the deadline the scheduler sleeps until is exact. From the run's last update on, some lease
  is lost or some retry is due at an instant precisely when the reported deadline has been reached; and
  no deadline is reported only if nothing can ever become due.\<close>

theorem nextReliabilityDeadline_exact:
  assumes "run_inv run" "run_updatedAt run \<le> ts" "nextReliabilityDeadline run = (deadline, waiting)"
  shows "due run ts \<longleftrightarrow> waiting \<and> deadline \<le> ts"
proof -
  note i = run_invD [OF assms(1)]
  have mem: "t \<in> set (mvals (run_tasks run)) \<longleftrightarrow> (\<exists>k. mget (run_tasks run) k = Some t)" for t by (rule set_mvals [OF i(6)])
  have due: "due run ts \<longleftrightarrow> (\<exists>t \<in> set (mvals (run_tasks run)). leaseless t \<or> (\<exists>c. candidate t = Some c \<and> c \<le> ts))"
    unfolding due_def due_iff Bex_def mem by blast
  have pos: "0 < c" if t: "t \<in> set (mvals (run_tasks run))" "candidate t = Some c" for t c
  proof -
    obtain k where "mget (run_tasks run) k = Some t" using t(1) unfolding mem ..
    from candidate_pos [OF i(9) [OF this] i(2) t(2)] show ?thesis .
  qed
  show ?thesis
  proof (cases "deadline_loop (run_updatedAt run) (mvals (run_tasks run)) zero_time")
    case (Inl x)
    then have "\<exists>t \<in> set (mvals (run_tasks run)). leaseless t" "x = run_updatedAt run" by (simp_all add: deadline_loop_Inl_iff)
    then show ?thesis using assms(2,3) Inl due by (auto simp: nextReliabilityDeadline_def)
  next
    case (Inr x)
    have "\<not> (\<exists>t \<in> set (mvals (run_tasks run)). leaseless t)"
      using Inr deadline_loop_Inl_iff [of "run_updatedAt run" "mvals (run_tasks run)" zero_time] by auto
    then have "due run ts \<longleftrightarrow> (\<exists>t \<in> set (mvals (run_tasks run)). \<exists>c. candidate t = Some c \<and> c \<le> ts)" using due by blast
    moreover have "0 \<le> x" "(0 < x \<and> x \<le> ts) \<longleftrightarrow> (\<exists>t \<in> set (mvals (run_tasks run)). \<exists>c. candidate t = Some c \<and> c \<le> ts)"
      using deadline_loop_Inr [OF Inr pos] unfolding zero_time_def by auto
    moreover have "deadline = x" "waiting \<longleftrightarrow> x \<noteq> 0"
      using assms(3) Inr by (auto simp: nextReliabilityDeadline_def IsZero_def zero_time_def)
    ultimately show ?thesis by auto
  qed
qed

end
