(* ===== verification/FF_Demo.thy ===== *)
theory FF_Demo
  imports FF_Recovery
begin

text \<open>
  A concrete run, driven through the operations of the model: a two-task workflow is created, started,
  made ready, claimed by a worker, heartbeated, completed, completed again by a duplicate message, and,
  in other branches, recovered after its lease expired. Each property of the run component is applied to
  one of these states.
\<close>

definition pair_workflow :: WorkflowDefinition where
  "pair_workflow = \<lparr>wd_ID = ''w'', wd_Tasks = [example_task ''a'' [], example_task ''b'' []]\<rparr>"

definition demo_new :: WorkflowRun where
  "demo_new = projr (newWorkflowRun ''r'' pair_workflow 10)"

definition demo_running :: WorkflowRun where
  "demo_running = projr (transitionWorkflow demo_new 11 WorkflowRunRunning)"

definition demo_ready_a :: WorkflowRun where
  "demo_ready_a = projr (transitionTask demo_running 12 ''a'' TaskRunReady '''' None)"

definition demo_ready :: WorkflowRun where
  "demo_ready = projr (transitionTask demo_ready_a 13 ''b'' TaskRunReady '''' None)"

definition demo_claim :: "AttemptID \<times> WorkflowRun" where
  "demo_claim = projr (startTaskAttempt demo_ready 20 ''a'' ''worker'' 1000)"

definition demo_attempt :: AttemptID where
  "demo_attempt = ''1:r:a:attempt:1''"

definition demo_done :: "CompletionOutcome \<times> WorkflowRun" where
  "demo_done = projr (completeTaskAttempt (snd demo_claim) 30 ''a'' ''1:r:a'' ''worker'' demo_attempt ''out'' None)"

definition demo_again :: "CompletionOutcome \<times> WorkflowRun" where
  "demo_again = projr (completeTaskAttempt (snd demo_done) 31 ''a'' ''1:r:a'' ''worker'' demo_attempt ''out'' None)"

definition demo_beat :: WorkflowRun where
  "demo_beat = projr (recordWorkerHeartbeat (snd demo_claim) 500 ''worker'' 1000)"

definition demo_late :: WorkflowRun where
  "demo_late = projr (heartbeats (snd demo_claim) [(500, ''rival'', 1000), (1100, ''worker'', 1000)])"

definition demo_second :: "AttemptID \<times> WorkflowRun" where
  "demo_second = projr (startTaskAttempt (snd demo_claim) 40 ''b'' ''worker'' 1000)"

lemma Inr_projr: "\<not> isl x \<Longrightarrow> x = Inr (projr x)"
  by (cases x) simp_all

lemma demo_new: "newWorkflowRun ''r'' pair_workflow 10 = Inr demo_new"
  unfolding demo_new_def by (rule Inr_projr) code_simp

lemma demo_new_code [code]:
  "demo_new = \<lparr>run_id = ''r'', run_definition = cloneDefinition pair_workflow, run_version = 0,
     run_status = WorkflowRunPending,
     run_tasks = [(''a'', new_task_run ''r'' 10 ''a''), (''b'', new_task_run ''r'' 10 ''b'')],
     run_workers = [], run_createdAt = 10, run_updatedAt = 10\<rparr>"
  using demo_new
  by (rule newWorkflowRun_InrE) (simp add: task_ids_def pair_workflow_def example_task_def)

lemma demo_running: "transitionWorkflow demo_new 11 WorkflowRunRunning = Inr demo_running"
  unfolding demo_running_def by (rule Inr_projr) code_simp

lemma demo_ready_a: "transitionTask demo_running 12 ''a'' TaskRunReady '''' None = Inr demo_ready_a"
  unfolding demo_ready_a_def by (rule Inr_projr) code_simp

lemma demo_ready: "transitionTask demo_ready_a 13 ''b'' TaskRunReady '''' None = Inr demo_ready"
  unfolding demo_ready_def by (rule Inr_projr) code_simp

lemma demo_claim: "startTaskAttempt demo_ready 20 ''a'' ''worker'' 1000 = Inr (demo_attempt, snd demo_claim)"
proof -
  have "startTaskAttempt demo_ready 20 ''a'' ''worker'' 1000 = Inr demo_claim"
    unfolding demo_claim_def by (rule Inr_projr) code_simp
  moreover have "fst demo_claim = demo_attempt" by code_simp
  ultimately show ?thesis by (simp add: prod_eq_iff)
qed

lemma demo_done:
  "completeTaskAttempt (snd demo_claim) 30 ''a'' ''1:r:a'' ''worker'' demo_attempt ''out'' None = Inr (CompletionSucceeded, snd demo_done)"
proof -
  have "completeTaskAttempt (snd demo_claim) 30 ''a'' ''1:r:a'' ''worker'' demo_attempt ''out'' None = Inr demo_done"
    unfolding demo_done_def by (rule Inr_projr) code_simp
  moreover have "fst demo_done = CompletionSucceeded" by code_simp
  ultimately show ?thesis by (simp add: prod_eq_iff)
qed

lemma demo_again:
  "completeTaskAttempt (snd demo_done) 31 ''a'' ''1:r:a'' ''worker'' demo_attempt ''out'' None = Inr (CompletionIgnored, snd demo_again)"
proof -
  have "completeTaskAttempt (snd demo_done) 31 ''a'' ''1:r:a'' ''worker'' demo_attempt ''out'' None = Inr demo_again"
    unfolding demo_again_def by (rule Inr_projr) code_simp
  moreover have "fst demo_again = CompletionIgnored" by code_simp
  ultimately show ?thesis by (simp add: prod_eq_iff)
qed

lemma demo_beat: "recordWorkerHeartbeat (snd demo_claim) 500 ''worker'' 1000 = Inr demo_beat"
  unfolding demo_beat_def by (rule Inr_projr) code_simp

lemma demo_late: "heartbeats (snd demo_claim) [(500, ''rival'', 1000), (1100, ''worker'', 1000)] = Inr demo_late"
  unfolding demo_late_def by (rule Inr_projr) code_simp

lemma demo_second: "startTaskAttempt (snd demo_claim) 40 ''b'' ''worker'' 1000 = Inr demo_second"
  unfolding demo_second_def by (rule Inr_projr) code_simp

section \<open>The trace\<close>

lemma demo_trace_ready:
  "run_trace demo_new [EvWorkflow WorkflowRunRunning, EvReady ''a'', EvReady ''b''] demo_ready"
proof -
  have 1: "run_trace demo_new [EvWorkflow WorkflowRunRunning] demo_running"
    using run_trace.trace_snoc [OF run_trace.trace_nil run_step.flow [OF demo_running]] by simp
  have "taskStatus demo_running ''a'' = Inr TaskRunPending" by code_simp
  from run_trace.trace_snoc [OF 1 run_step.ready [OF this demo_ready_a]]
  have 2: "run_trace demo_new [EvWorkflow WorkflowRunRunning, EvReady ''a''] demo_ready_a" by simp
  have "taskStatus demo_ready_a ''b'' = Inr TaskRunPending" by code_simp
  from run_trace.trace_snoc [OF 2 run_step.ready [OF this demo_ready]] show ?thesis by simp
qed

lemma demo_trace_claim:
  "run_trace demo_new [EvWorkflow WorkflowRunRunning, EvReady ''a'', EvReady ''b'', EvStart ''a'' demo_attempt ''worker''] (snd demo_claim)"
  using run_trace.trace_snoc [OF demo_trace_ready run_step.start [OF demo_claim]] by simp

lemma demo_trace_done:
  "run_trace demo_new [EvWorkflow WorkflowRunRunning, EvReady ''a'', EvReady ''b'', EvStart ''a'' demo_attempt ''worker'',
     EvComplete ''a'' demo_attempt CompletionSucceeded] (snd demo_done)"
  using run_trace.trace_snoc [OF demo_trace_claim run_step.complete [OF demo_done]] by simp

lemma demo_trace_again:
  "run_trace demo_new [EvWorkflow WorkflowRunRunning, EvReady ''a'', EvReady ''b'', EvStart ''a'' demo_attempt ''worker'',
     EvComplete ''a'' demo_attempt CompletionSucceeded, EvComplete ''a'' demo_attempt CompletionIgnored] (snd demo_again)"
  using run_trace.trace_snoc [OF demo_trace_done run_step.complete [OF demo_again]] by simp

lemma demo_claim_inv: "run_inv (snd demo_claim)"
  using run_trace_inv [OF demo_trace_claim newWorkflowRun_inv [OF demo_new]] by simp

definition demo_task :: "WorkflowRun \<Rightarrow> TaskID \<Rightarrow> TaskRun" where
  "demo_task run k = the (mget (run_tasks run) k)"

lemma demo_task: "\<not> Option.is_none (mget (run_tasks run) k) \<Longrightarrow> mget (run_tasks run) k = Some (demo_task run k)"
  by (cases "mget (run_tasks run) k") (simp_all add: demo_task_def)

lemma demo_claim_tasks:
  "mget (run_tasks (snd demo_claim)) ''a'' = Some (demo_task (snd demo_claim) ''a'')"
  "mget (run_tasks (snd demo_claim)) ''b'' = Some (demo_task (snd demo_claim) ''b'')"
  by (rule demo_task, code_simp)+

lemma demo_done_task: "mget (run_tasks (snd demo_done)) ''a'' = Some (demo_task (snd demo_done) ''a'')"
  by (rule demo_task) code_simp

section \<open>Witnesses\<close>

theorem run_step_lifecycle_witness:
  "\<exists>t'. mget (run_tasks (snd demo_claim)) ''a'' = Some t' \<and> tr_AttemptCount t' = 1"
proof -
  have "mget (run_tasks demo_ready) ''a'' = Some (demo_task demo_ready ''a'')" by (rule demo_task) code_simp
  from run_step_lifecycle [OF run_step.start [OF demo_claim] this]
  obtain t' where "mget (run_tasks (snd demo_claim)) ''a'' = Some t'"
    "tr_AttemptCount t' = tr_AttemptCount (demo_task demo_ready ''a'') +
       (if tr_Status (demo_task demo_ready ''a'') = TaskRunReady \<and> tr_Status t' = TaskRunRunning then 1 else 0)" by blast
  moreover have "tr_AttemptCount (demo_task demo_ready ''a'') = 0" "tr_Status (demo_task demo_ready ''a'') = TaskRunReady"
    "tr_Status (demo_task (snd demo_claim) ''a'') = TaskRunRunning" by code_simp+
  ultimately show ?thesis using demo_claim_tasks(1) by simp
qed

theorem terminal_task_final_witness:
  "mget (run_tasks (snd demo_again)) ''a'' = mget (run_tasks (snd demo_done)) ''a''"
proof -
  have "terminal (tr_Status (demo_task (snd demo_done) ''a''))" by code_simp
  from terminal_task_final [OF run_trace.trace_snoc [OF run_trace.trace_nil run_step.complete [OF demo_again]] demo_done_task this]
  show ?thesis using demo_done_task by simp
qed

theorem attempt_completed_at_most_once_witness:
  "length (filter (accepted_completion demo_attempt)
     [EvWorkflow WorkflowRunRunning, EvReady ''a'', EvReady ''b'', EvStart ''a'' demo_attempt ''worker'',
      EvComplete ''a'' demo_attempt CompletionSucceeded, EvComplete ''a'' demo_attempt CompletionIgnored]) \<le> 1"
  by (rule attempt_completed_at_most_once [OF demo_new demo_trace_again]) (simp add: demo_attempt_def)

theorem stale_completion_ignored_witness:
  "completeTaskAttempt (snd demo_claim) 30 ''a'' ''1:r:a'' ''intruder'' demo_attempt ''out'' None = Inr (CompletionIgnored, snd demo_claim)"
proof (rule stale_completion_ignored [OF demo_claim_tasks(1)])
  have "map_option tl_WorkerID (tr_Lease (demo_task (snd demo_claim) ''a'')) = Some ''worker''" by code_simp
  then show "\<not> (tr_Status (demo_task (snd demo_claim) ''a'') = TaskRunRunning \<and> tr_TaskRunID (demo_task (snd demo_claim) ''a'') = ''1:r:a'' \<and>
      tr_CurrentAttemptID (demo_task (snd demo_claim) ''a'') = demo_attempt \<and>
      (\<exists>lease. tr_Lease (demo_task (snd demo_claim) ''a'') = Some lease \<and> tl_AttemptID lease = demo_attempt \<and> tl_WorkerID lease = ''intruder''))"
    by auto
qed

theorem attempts_bounded_witness:
  "tr_AttemptCount (demo_task (snd demo_claim) ''a'') \<le> EffectiveMaxAttempts (retryPolicyLocked (snd demo_claim) ''a'')"
  using attempts_bounded [OF demo_new _ demo_trace_claim demo_claim_tasks(1)] by simp

lemma demo_lease: "\<exists>l. run_leases (snd demo_claim) ''a'' l \<and> tl_WorkerID l = ''worker''"
proof -
  have "map_option tl_WorkerID (tr_Lease (demo_task (snd demo_claim) ''a'')) = Some ''worker''" by code_simp
  then show ?thesis using demo_claim_tasks(1) by (auto simp: run_leases_def)
qed

lemma demo_leases_distinct: "leases_distinct (snd demo_claim)"
proof -
  have keys: "mkeys (run_tasks (snd demo_claim)) = [''a'', ''b'']" by code_simp
  have "map_option tl_WorkerID (tr_Lease (demo_task (snd demo_claim) ''b'')) = None" by code_simp
  then have b: "\<not> run_leases (snd demo_claim) ''b'' l" for l using demo_claim_tasks(2) by (simp add: run_leases_def)
  have "k = ''a''" if "run_leases (snd demo_claim) k l" for k l
  proof -
    from that have "mhas (run_tasks (snd demo_claim)) k" by (auto simp: run_leases_def mhas_def)
    then have "k \<in> set [''a'', ''b'']" using keys by (simp add: mhas_mkeys)
    then show ?thesis using b that by auto
  qed
  then show ?thesis unfolding leases_distinct_def by blast
qed

theorem reachable_snapshot_valid_witness: "snapshot_Validate (Snapshot (snd demo_claim)) = Inr ()"
  by (rule reachable_snapshot_valid [OF demo_new _ demo_trace_claim demo_leases_distinct]) code_simp+

theorem second_lease_unpersistable_witness:
  "startTaskAttempt (snd demo_claim) 40 ''b'' ''worker'' 1000 = Inr demo_second \<and>
   snapshot_Validate (Snapshot (snd demo_second)) \<noteq> Inr ()"
proof -
  obtain l where l: "run_leases (snd demo_claim) ''a'' l" "tl_WorkerID l = ''worker''" using demo_lease by blast
  have "tr_Status (demo_task (snd demo_claim) ''b'') = TaskRunReady" "0 < sint (1000 :: Duration)" by code_simp+
  from second_lease_unpersistable [OF demo_new _ demo_trace_claim l(1) demo_claim_tasks(2) this, of 40]
  obtain a run'' where "startTaskAttempt (snd demo_claim) 40 ''b'' ''worker'' 1000 = Inr (a, run'')"
    "snapshot_Validate (Snapshot run'') \<noteq> Inr ()" by (auto simp: l(2))
  moreover from this(1) have "demo_second = (a, run'')" using demo_second by simp
  ultimately show ?thesis using demo_second by (metis snd_conv)
qed

theorem restore_roundtrip_witness:
  "\<exists>run''. restoreWorkflowRun (Snapshot (snd demo_claim)) (run_definition (snd demo_claim)) = Inr run'' \<and>
     Snapshot run'' = Snapshot (snd demo_claim)"
proof -
  have "snapshot_Validate (Snapshot (snd demo_claim)) = Inr ()" by code_simp
  from restore_roundtrip [OF demo_new _ demo_trace_claim this] show ?thesis by auto
qed

theorem recoverExpiredLeases_exact_witness:
  "''a'' \<in> lr_TaskID ` set (fst (recoverExpiredLeases (snd demo_claim) 5000))"
proof -
  have "recoverExpiredLeases (snd demo_claim) 5000 = (fst (recoverExpiredLeases (snd demo_claim) 5000), snd (recoverExpiredLeases (snd demo_claim) 5000))"
    by simp
  from recoverExpiredLeases_exact [OF demo_claim_inv this refl, of "''a''"]
  have "''a'' \<in> lr_TaskID ` set (fst (recoverExpiredLeases (snd demo_claim) 5000)) \<longleftrightarrow>
    (\<exists>t. mget (run_tasks (snd demo_claim)) ''a'' = Some t \<and> lease_lost (nextTimestampLocked (snd demo_claim) 5000) t)" by blast
  moreover have "lease_lost (nextTimestampLocked (snd demo_claim) 5000) (demo_task (snd demo_claim) ''a'')" by code_simp
  ultimately show ?thesis using demo_claim_tasks(1) by simp
qed

theorem heartbeats_keep_live_leases_witness:
  "''a'' \<in> lr_TaskID ` set (fst (recoverExpiredLeases (snd demo_claim) 1200)) \<and>
   ''a'' \<notin> lr_TaskID ` set (fst (recoverExpiredLeases demo_beat 1200)) \<and>
   ''a'' \<in> lr_TaskID ` set (fst (recoverExpiredLeases demo_late 1200))"
proof -
  have status: "tr_Status (demo_task (snd demo_claim) ''a'') = TaskRunRunning" by code_simp
  have lease: "tr_Lease (demo_task (snd demo_claim) ''a'') =
      Some \<lparr>tl_WorkerID = ''worker'', tl_TaskRunID = ''1:r:a'', tl_AttemptID = demo_attempt, tl_ExpiresAt = 1020\<rparr>"
    by code_simp
  have clock: "lease_clock ''worker'' 20 [] 1020 = 1020" "lease_clock ''worker'' 20 [(500, ''worker'', 1000)] 1020 = 1500"
    "lease_clock ''worker'' 20 [(500, ''rival'', 1000), (1100, ''worker'', 1000)] 1020 = 1020" by code_simp+
  have at: "run_updatedAt (snd demo_claim) = 20" "nextTimestampLocked (snd demo_claim) 1200 = 1200"
    "nextTimestampLocked demo_beat 1200 = 1200" "nextTimestampLocked demo_late 1200 = 1200" by code_simp+
  have 0: "heartbeats (snd demo_claim) [] = Inr (snd demo_claim)" by simp
  have 1: "heartbeats (snd demo_claim) [(500, ''worker'', 1000)] = Inr demo_beat" by (simp add: demo_beat)
  note keep = heartbeats_keep_live_leases [OF demo_claim_inv _ surjective_pairing, of _ _ "''a''" 1200]
  show ?thesis
    using keep [OF 0] keep [OF 1] keep [OF demo_late] by (simp add: demo_claim_tasks(1) status lease clock at)
qed

theorem nextReliabilityDeadline_exact_witness: "due (snd demo_claim) 1020"
proof -
  have deadline: "nextReliabilityDeadline (snd demo_claim) = (1020, True)" by code_simp
  have "run_updatedAt (snd demo_claim) \<le> 1020" by code_simp
  from nextReliabilityDeadline_exact [OF demo_claim_inv this deadline] show ?thesis by simp
qed

end
