(* ===== verification/FF_Integrity.thy ===== *)
theory FF_Integrity
  imports FF_Codec FF_Demo
begin

text \<open>Referential integrity of the file store and its optimistic concurrency control. The operations change the
  store only through records that the replay accepts (FF_Journal), so both are shown of the records. A concrete store with every kind of record
  instantiates the properties.\<close>

section \<open>Integrity\<close>

text \<open>Everything stored is valid and filed under its own key; a run restores against its stored definition; a
  membership has its project and its user, an ownership its workflow and an owner who is a member of the project,
  an audit event its project; no two audit events of the store have the same identifier.\<close>

definition users_wf :: "FileStore \<Rightarrow> bool" where
  "users_wf s \<longleftrightarrow> (\<forall>k u. mget (fs_users s) k = Some u \<longrightarrow> us_ID u = k \<and> user_Validate u = Inr ())"

definition workflows_wf :: "FileStore \<Rightarrow> bool" where
  "workflows_wf s \<longleftrightarrow> (\<forall>k d. mget (fs_workflows s) k = Some d \<longrightarrow>
     wd_ID d = k \<and> workflow_Validate d = Inr () \<and> fs_cloneDefinition d = d)"

definition runs_wf :: "FileStore \<Rightarrow> bool" where
  "runs_wf s \<longleftrightarrow> (\<forall>k x. mget (fs_runs s) k = Some x \<longrightarrow>
     ws_ID x = k \<and> snapshot_Validate x = Inr () \<and> validateRunDefinition s x = Inr ())"

definition projects_wf :: "FileStore \<Rightarrow> bool" where
  "projects_wf s \<longleftrightarrow> (\<forall>k p. mget (fs_projects s) k = Some p \<longrightarrow> pj_ID p = k \<and> project_Validate p = Inr ())"

definition members_wf :: "FileStore \<Rightarrow> bool" where
  "members_wf s \<longleftrightarrow> (\<forall>p u m. membership_of s p u = Some m \<longrightarrow>
     mem_ProjectID m = p \<and> mem_UserID m = u \<and> membership_Validate m = Inr () \<and> mhas (fs_projects s) p \<and> mhas (fs_users s) u)"

definition owners_wf :: "FileStore \<Rightarrow> bool" where
  "owners_wf s \<longleftrightarrow> (\<forall>w ow. mget (fs_ownerships s) w = Some ow \<longrightarrow>
     ow_WorkflowID ow = w \<and> ownership_Validate ow = Inr () \<and> mhas (fs_workflows s) w \<and>
     membership_of s (ow_ProjectID ow) (ow_OwnerUserID ow) \<noteq> None)"

definition audit_wf :: "FileStore \<Rightarrow> bool" where
  "audit_wf s \<longleftrightarrow> (\<forall>p. let es = mget_or [] (fs_auditEvents s) p in
     distinct (map ae_ID es) \<and>
     (\<forall>e \<in> set es. ae_ProjectID e = p \<and> audit_Validate e = Inr () \<and> mhas (fs_projects s) p \<and> mhas (fs_auditIDs s) (ae_ID e) \<and>
        (\<forall>q. \<forall>e' \<in> set (mget_or [] (fs_auditEvents s) q). ae_ID e' = ae_ID e \<longrightarrow> q = p)))"

definition store_wf :: "FileStore \<Rightarrow> bool" where
  "store_wf s \<longleftrightarrow> users_wf s \<and> workflows_wf s \<and> runs_wf s \<and> projects_wf s \<and> members_wf s \<and> owners_wf s \<and> audit_wf s"

lemmas store_parts = users_wf_def workflows_wf_def runs_wf_def projects_wf_def members_wf_def owners_wf_def audit_wf_def

lemma store_wf_at_file [simp]: "store_wf (at_file f s) \<longleftrightarrow> store_wf s"
  by (simp add: store_wf_def store_parts at_file_frame)

lemma store_wf_empty: "store_wf (empty_store f)"
  by (simp add: store_wf_def store_parts empty_store_def membership_of_def mget_or_def)

text \<open>Each update of a record keeps it, under what the operation checked.\<close>


lemma validateRunDefinition_cong: "fs_workflows s = fs_workflows s' \<Longrightarrow> validateRunDefinition s = validateRunDefinition s'"
  by (simp add: validateRunDefinition_def fun_eq_iff)

lemma put_user_wf:
  assumes "store_wf s" "\<And>x. u = Some x \<Longrightarrow> user_Validate x = Inr ()"
  shows "store_wf (put_user s u)"
proof -
  let ?s = "put_user s u"
  have frame: "fs_runs ?s = fs_runs s" "fs_projects ?s = fs_projects s" "fs_ownerships ?s = fs_ownerships s"
    "fs_auditEvents ?s = fs_auditEvents s" "fs_auditIDs ?s = fs_auditIDs s"
    by (simp_all add: put_user_def split: option.split)
  have "mhas (fs_users s) k \<Longrightarrow> mhas (fs_users ?s) k" for k by (simp add: put_user_def mhas_mput split: option.split)
  moreover have "users_wf ?s"
    using assms unfolding store_wf_def users_wf_def put_user_def by (auto simp: go_map split: option.splits if_splits)
  ultimately show ?thesis
    using assms(1) unfolding store_wf_def workflows_wf_def runs_wf_def projects_wf_def members_wf_def owners_wf_def audit_wf_def
    by (simp add: frame validateRunDefinition_def)
qed

lemma put_user_has: "mhas (fs_users (put_user s (Some u))) (us_ID u)"
  by (simp add: put_user_def mhas_mput)

lemma put_project_wf:
  assumes "store_wf s" "\<And>x. p = Some x \<Longrightarrow> project_Validate x = Inr ()"
  shows "store_wf (put_project s p)"
proof (cases p)
  case (Some x)
  let ?s = "put_project s p"
  have frame: "fs_workflows ?s = fs_workflows s" "fs_runs ?s = fs_runs s" "fs_users ?s = fs_users s" "fs_ownerships ?s = fs_ownerships s"
    "fs_auditEvents ?s = fs_auditEvents s" "fs_auditIDs ?s = fs_auditIDs s"
    by (simp_all add: put_project_def split: option.split)
  have pro: "fs_projects ?s = mput (pj_ID x) x (fs_projects s)" by (simp add: put_project_def Some)
  have "projects_wf ?s" using assms(1) assms(2) [OF Some] unfolding store_wf_def projects_wf_def pro by (simp add: go_map)
  then show ?thesis using assms(1) unfolding store_wf_def users_wf_def workflows_wf_def runs_wf_def owners_wf_def members_wf_def audit_wf_def
    by (simp add: frame validateRunDefinition_def pro mhas_mput Let_def)
qed (use assms(1) in \<open>simp add: put_project_def\<close>)

lemma put_membership_wf:
  assumes "store_wf s" "\<And>x. m = Some x \<Longrightarrow> membership_Validate x = Inr () \<and> mhas (fs_projects s) (mem_ProjectID x) \<and> mhas (fs_users s) (mem_UserID x)"
  shows "store_wf (put_membership s m)"
proof -
  have frame: "fs_workflows (put_membership s m) = fs_workflows s" "fs_runs (put_membership s m) = fs_runs s"
    "fs_projects (put_membership s m) = fs_projects s" "fs_users (put_membership s m) = fs_users s"
    "fs_ownerships (put_membership s m) = fs_ownerships s" "fs_auditEvents (put_membership s m) = fs_auditEvents s"
    "fs_auditIDs (put_membership s m) = fs_auditIDs s"
    by (simp_all add: put_membership_def split: option.split)
  have keeps: "membership_of s p u \<noteq> None \<Longrightarrow> membership_of (put_membership s m) p u \<noteq> None" for p u
    by (simp add: membership_of_put split: option.split)
  have "members_wf (put_membership s m)" using assms unfolding store_wf_def members_wf_def frame membership_of_put
    by (auto split: option.splits if_splits)
  moreover have "owners_wf (put_membership s m)" using assms(1) keeps unfolding store_wf_def owners_wf_def frame by blast
  ultimately show ?thesis using assms(1) unfolding store_wf_def users_wf_def workflows_wf_def runs_wf_def projects_wf_def audit_wf_def
    by (simp add: frame validateRunDefinition_def)
qed

lemma put_workflow_same:
  assumes "workflows_wf s" "case mget (fs_workflows s) (wd_ID d) of None \<Rightarrow> True | Some existing \<Rightarrow> existing = d"
    "mget (fs_workflows s) k = Some x"
  shows "mget (fs_workflows (put_workflow s (Some d))) k = Some x"
proof (cases "k = wd_ID d")
  case True
  then have "x = d" using assms(2,3) by simp
  moreover have "fs_cloneDefinition x = x" using assms(1,3) unfolding workflows_wf_def by blast
  ultimately show ?thesis using True by (simp add: put_workflow_def go_map)
qed (use assms(3) in \<open>simp add: put_workflow_def go_map\<close>)

lemma put_workflow_wf:
  assumes "store_wf s" "workflow_Validate d = Inr ()" "case mget (fs_workflows s) (wd_ID d) of None \<Rightarrow> True | Some existing \<Rightarrow> existing = d"
  shows "store_wf (put_workflow s (Some d))"
proof -
  let ?s = "put_workflow s (Some d)"
  have frame: "fs_runs ?s = fs_runs s" "fs_projects ?s = fs_projects s" "fs_users ?s = fs_users s"
    "fs_ownerships ?s = fs_ownerships s" "fs_auditEvents ?s = fs_auditEvents s" "fs_auditIDs ?s = fs_auditIDs s"
    by (simp_all add: put_workflow_def)
  have wf: "workflows_wf s" using assms(1) by (simp add: store_wf_def)
  have "workflows_wf ?s" using wf assms(2) by (auto simp: workflows_wf_def put_workflow_def go_map)
  moreover have "validateRunDefinition s x = Inr () \<Longrightarrow> validateRunDefinition ?s x = Inr ()" for x
    using put_workflow_same [OF wf assms(3)] unfolding validateRunDefinition_Inr_iff by blast
  moreover have "mhas (fs_workflows s) k \<Longrightarrow> mhas (fs_workflows ?s) k" for k
    using put_workflow_same [OF wf assms(3), of k] by (auto simp: mhas_def)
  ultimately show ?thesis using assms(1) unfolding store_wf_def users_wf_def runs_wf_def projects_wf_def members_wf_def owners_wf_def audit_wf_def
    by (simp add: frame)
qed

lemma put_ownership_wf:
  assumes "store_wf s" "\<And>x. ow = Some x \<Longrightarrow> ownership_Validate x = Inr () \<and> mhas (fs_workflows s) (ow_WorkflowID x) \<and> membership_of s (ow_ProjectID x) (ow_OwnerUserID x) \<noteq> None"
  shows "store_wf (put_ownership s ow)"
proof (cases ow)
  case (Some x)
  let ?s = "put_ownership s ow"
  have frame: "fs_workflows ?s = fs_workflows s" "fs_runs ?s = fs_runs s" "fs_projects ?s = fs_projects s" "fs_users ?s = fs_users s"
    "fs_auditEvents ?s = fs_auditEvents s" "fs_auditIDs ?s = fs_auditIDs s"
    by (simp_all add: put_ownership_def split: option.split)
  have own: "fs_ownerships ?s = mput (ow_WorkflowID x) x (fs_ownerships s)" by (simp add: put_ownership_def Some)
  have "owners_wf ?s" using assms(1) assms(2) [OF Some] unfolding store_wf_def owners_wf_def own frame membership_of_frame
    by (simp add: go_map)
  then show ?thesis using assms(1) unfolding store_wf_def users_wf_def workflows_wf_def runs_wf_def projects_wf_def members_wf_def audit_wf_def
    by (simp add: frame validateRunDefinition_def)
qed (use assms(1) in \<open>simp add: put_ownership_def\<close>)

lemma cloneSecurityAuditEvent_keys [simp]:
  "ae_ID (cloneSecurityAuditEvent e) = ae_ID e" "ae_ProjectID (cloneSecurityAuditEvent e) = ae_ProjectID e"
  by (simp_all add: cloneSecurityAuditEvent_def Let_def split: if_splits option.split)

lemma set_fold_mput: "set (fold (\<lambda>(k, v). mput k v) xs m) \<subseteq> set xs \<union> set m"
proof (induction xs arbitrary: m)
  case (Cons x xs)
  have "set (mput k v m) \<subseteq> insert (k, v) (set m)" for k v by (induction m) auto
  then show ?case using Cons [of "mput (fst x) (snd x) m"] by (fastforce simp: case_prod_beta)
qed simp

lemma audit_Validate_clone: "audit_Validate e = Inr () \<Longrightarrow> audit_Validate (cloneSecurityAuditEvent e) = Inr ()"
proof (cases "ae_Metadata e")
  case (Some metadata)
  assume "audit_Validate e = Inr ()"
  then show ?thesis using Some set_fold_mput [of metadata "[]"]
    by (auto simp: audit_Validate_def cloneSecurityAuditEvent_def list_ex_iff split: if_splits)
qed (simp add: cloneSecurityAuditEvent_def)

lemma put_audit_wf:
  assumes "store_wf s" "\<And>x. e = Some x \<Longrightarrow> audit_Validate x = Inr () \<and> mhas (fs_projects s) (ae_ProjectID x) \<and> \<not> mhas (fs_auditIDs s) (ae_ID x)"
  shows "store_wf (put_audit s e)"
proof -
  have frame: "fs_workflows (put_audit s e) = fs_workflows s" "fs_runs (put_audit s e) = fs_runs s" "fs_projects (put_audit s e) = fs_projects s"
    "fs_users (put_audit s e) = fs_users s" "fs_ownerships (put_audit s e) = fs_ownerships s"
    by (simp_all add: put_audit_def Let_def split: option.split)
  have "audit_wf (put_audit s e)"
  proof (cases e)
    case (Some x)
    let ?x = "cloneSecurityAuditEvent x"
    have aud: "audit_wf s" using assms(1) by (simp add: store_wf_def)
    have events: "mget_or [] (fs_auditEvents (put_audit s e)) p =
        (if p = ae_ProjectID x then mget_or [] (fs_auditEvents s) p @ [?x] else mget_or [] (fs_auditEvents s) p)" for p
      by (simp add: Some put_audit_def Let_def mget_or_def go_map)
    have ids: "mhas (fs_auditIDs (put_audit s e)) k \<longleftrightarrow> k = ae_ID x \<or> mhas (fs_auditIDs s) k" for k
      by (simp add: Some put_audit_def Let_def mhas_mput)
    have new: "mhas (fs_projects s) (ae_ProjectID x)" "\<not> mhas (fs_auditIDs s) (ae_ID x)" "audit_Validate ?x = Inr ()"
      using assms(2) [OF Some] audit_Validate_clone by auto
    have old: "distinct (map ae_ID (mget_or [] (fs_auditEvents s) p))"
        "\<forall>y \<in> set (mget_or [] (fs_auditEvents s) p). ae_ProjectID y = p \<and> audit_Validate y = Inr () \<and> mhas (fs_projects s) p \<and>
           mhas (fs_auditIDs s) (ae_ID y) \<and> (\<forall>q. \<forall>y' \<in> set (mget_or [] (fs_auditEvents s) q). ae_ID y' = ae_ID y \<longrightarrow> q = p)" for p
      using aud unfolding audit_wf_def Let_def by blast+
    have fresh: "ae_ID y \<noteq> ae_ID x" if "y \<in> set (mget_or [] (fs_auditEvents s) p)" for y p using old(2) new(2) that by metis
    show ?thesis unfolding audit_wf_def Let_def ids frame
    proof (intro allI conjI ballI impI)
      fix p
      show "distinct (map ae_ID (mget_or [] (fs_auditEvents (put_audit s e)) p))" using old(1) [of p] fresh [of _ p] by (force simp: events)
      fix y assume "y \<in> set (mget_or [] (fs_auditEvents (put_audit s e)) p)"
      then have y: "y = ?x \<and> p = ae_ProjectID x \<or> y \<in> set (mget_or [] (fs_auditEvents s) p)" by (auto simp: events split: if_splits)
      then show "ae_ProjectID y = p" "audit_Validate y = Inr ()" "mhas (fs_projects s) p" "ae_ID y = ae_ID x \<or> mhas (fs_auditIDs s) (ae_ID y)"
        using new old(2) [of p] by auto
      fix q y' assume "y' \<in> set (mget_or [] (fs_auditEvents (put_audit s e)) q)" and same: "ae_ID y' = ae_ID y"
      then have "y' = ?x \<and> q = ae_ProjectID x \<or> y' \<in> set (mget_or [] (fs_auditEvents s) q)" by (auto simp: events split: if_splits)
      then show "q = p" using y same old(2) [of p] fresh by (metis cloneSecurityAuditEvent_keys(1))
    qed
  qed (use assms(1) in \<open>simp add: put_audit_def store_wf_def\<close>)
  then show ?thesis using assms(1) unfolding store_wf_def users_wf_def workflows_wf_def runs_wf_def projects_wf_def members_wf_def owners_wf_def
    by (simp add: frame validateRunDefinition_def)
qed

lemma applySecurityRecord_Inr:
  assumes "applySecurityRecord s r = Inr s2"
  shows "s2 = put_audit (put_ownership (put_workflow (put_membership (put_project (put_user s (jr_User r)) (jr_Project r))
      (jr_Membership r)) (jr_Workflow r)) (jr_Ownership r)) (jr_AuditEvent r)"
    "jr_AuditEvent r = Some e \<Longrightarrow> audit_Validate e = Inr () \<and> \<not> mhas (fs_auditIDs s) (ae_ID e)"
  using assms by (auto simp: applySecurityRecord_def security_record_error_def bindE_Inr_iff Let_def split: option.splits)

lemma put_None [simp]:
  "put_user s None = s" "put_project s None = s" "put_membership s None = s" "put_workflow s None = s" "put_ownership s None = s"
  "put_audit s None = s"
  by (simp_all add: put_user_def put_project_def put_membership_def put_workflow_def put_ownership_def put_audit_def)

lemma put_tables [simp]:
  "fs_projects (put_user s u) = fs_projects s" "fs_projects (put_membership s m) = fs_projects s"
  "fs_projects (put_workflow s d) = fs_projects s" "fs_projects (put_ownership s ow) = fs_projects s"
  "fs_auditIDs (put_user s u) = fs_auditIDs s" "fs_auditIDs (put_project s p) = fs_auditIDs s"
  "fs_auditIDs (put_membership s m) = fs_auditIDs s"
  by (simp_all add: put_user_def put_project_def put_membership_def put_workflow_def put_ownership_def split: option.split)

lemma put_project_has: "mhas (fs_projects (put_project s (Some p))) k \<longleftrightarrow> k = pj_ID p \<or> mhas (fs_projects s) k"
  by (simp add: put_project_def mhas_mput)

lemma put_workflow_has: "mhas (fs_workflows (put_workflow s (Some d))) (wd_ID d)"
  by (simp add: put_workflow_def mhas_mput)

lemma applyRunRecord_Inr:
  assumes "applyRunRecord s operation x = Inr s2"
  obtains x' where "s2 = s\<lparr>fs_runs := mput (ws_ID x') x' (fs_runs s)\<rparr>" "validateRunDefinition s x' = Inr ()"
    "ws_ID x' = ws_ID x" "operation = operationSaveRun \<Longrightarrow> \<exists>c. mget (fs_runs s) (ws_ID x) = Some c \<and> ws_Version x' = ws_Version c + 1"
    "operation = operationCreateRun \<Longrightarrow> mget (fs_runs s) (ws_ID x) = None"
proof -
  let ?x = "if ws_Version x = 0 then x\<lparr>ws_Version := (case mget (fs_runs s) (ws_ID x) of None \<Rightarrow> 1 | Some c \<Rightarrow> ws_Version c + 1)\<rparr> else x"
  have id: "ws_ID ?x = ws_ID x" by simp
  show thesis
    by (rule that [of ?x]) (use assms in \<open>auto simp: applyRunRecord_def Let_def bindE_Inr_iff id Option.is_none_def split: if_splits option.splits\<close>)
qed

lemma put_run_wf:
  assumes "store_wf s" "validateRunDefinition s x = Inr ()"
  shows "store_wf (s\<lparr>fs_runs := mput (ws_ID x) x (fs_runs s)\<rparr>)"
proof -
  let ?s = "s\<lparr>fs_runs := mput (ws_ID x) x (fs_runs s)\<rparr>"
  have "validateRunDefinition ?s = validateRunDefinition s" by (simp add: validateRunDefinition_def fun_eq_iff)
  moreover have "snapshot_Validate x = Inr ()" using assms(2) by (auto simp: validateRunDefinition_Inr_iff restore_succeeds_iff)
  ultimately have "runs_wf ?s" using assms unfolding store_wf_def runs_wf_def by (simp add: go_map)
  then show ?thesis using assms(1) unfolding store_wf_def users_wf_def workflows_wf_def projects_wf_def owners_wf_def members_wf_def audit_wf_def
    by (simp add: membership_of_def)
qed

lemma applyRunRecord_wf: "\<lbrakk>applyRunRecord s operation x = Inr s2; store_wf s\<rbrakk> \<Longrightarrow> store_wf s2"
  by (erule applyRunRecord_Inr, hypsubst, rule put_run_wf)

lemma applyRecord_run:
  assumes "operation \<in> {operationCreateRun, operationSaveRun}"
  shows "applyRecord s ((zero_record operation)\<lparr>jr_Run := Some x\<rparr>) = applyRunRecord s operation x"
  using assms by (auto simp: applyRecord_def zero_record_def operation_names)

lemma applyRecord_op_wf:
  assumes "store_wf s" "applyRecord s (op_record s op) = Inr s2"
  shows "store_wf s2"
proof (cases op)
  case (OpSaveWorkflow d)
  let ?d = "fs_cloneDefinition d"
  have "workflow_Validate ?d = Inr ()" "case mget (fs_workflows s) (wd_ID ?d) of None \<Rightarrow> True | Some existing \<Rightarrow> existing = ?d"
      "s2 = put_workflow s (Some ?d)"
    using assms(2) unfolding OpSaveWorkflow
    by (auto simp: applyRecord_def zero_record_def applyWorkflowRecord_def bindE_Inr_iff put_workflow_def split: option.splits if_splits)
  then show ?thesis using put_workflow_wf [OF assms(1)] by simp
next
  case (OpCreateProject u p m e)
  obtain u' where r: "validateProjectCreation (Context None) u' p m e = Inr ()"
      "applySecurityRecord s ((zero_record operationCreateProject)
         \<lparr>jr_User := Some u', jr_Project := Some p, jr_Membership := Some m, jr_AuditEvent := Some e\<rparr>) = Inr s2"
    using assms(2) unfolding OpCreateProject
    by (auto simp: applyRecord_def zero_record_def operation_names applyCreateProject_def bindE_Inr_iff split: if_splits)
  from r(1) have ids: "user_Validate u' = Inr ()" "project_Validate p = Inr ()" "membership_Validate m = Inr ()" "mem_ProjectID m = pj_ID p" "mem_UserID m = us_ID u'" "ae_ProjectID e = pj_ID p"
    by (simp_all add: validateProjectCreation_Inr_iff)
  have s2: "s2 = put_audit (put_membership (put_project (put_user s (Some u')) (Some p)) (Some m)) (Some e)" "audit_Validate e = Inr () \<and> \<not> mhas (fs_auditIDs s) (ae_ID e)"
    using applySecurityRecord_Inr [OF r(2)] by (simp_all add: zero_record_def)
  show ?thesis unfolding s2(1)
    by (intro put_audit_wf put_membership_wf put_project_wf put_user_wf assms(1)) (use ids s2(2) in \<open>auto simp: put_project_has put_user_has\<close>)
next
  case (OpSaveProject p e)
  have r: "project_Validate p = Inr ()" "ae_ProjectID e = pj_ID p"
      "applySecurityRecord s ((zero_record operationSaveProject)\<lparr>jr_Project := Some p, jr_AuditEvent := Some e\<rparr>) = Inr s2"
    using assms(2) unfolding OpSaveProject
    by (auto simp: applyRecord_def zero_record_def operation_names applySaveProject_def bindE_Inr_iff split: if_splits)
  have s2: "s2 = put_audit (put_project s (Some p)) (Some e)" "audit_Validate e = Inr () \<and> \<not> mhas (fs_auditIDs s) (ae_ID e)"
    using applySecurityRecord_Inr [OF r(3)] by (simp_all add: zero_record_def)
  show ?thesis unfolding s2(1)
    by (intro put_audit_wf put_project_wf assms(1)) (use r(1,2) s2(2) in \<open>auto simp: put_project_has\<close>)
next
  case (OpPutMembership u m e)
  obtain u' m' where v: "user_Validate u' = Inr ()" "membership_Validate m' = Inr ()" and r: "mem_UserID m' = us_ID u'" "ae_ProjectID e = mem_ProjectID m'" "mhas (fs_projects s) (mem_ProjectID m')"
      "applySecurityRecord s ((zero_record operationPutMembership)
         \<lparr>jr_User := Some u', jr_Membership := Some m', jr_AuditEvent := Some e\<rparr>) = Inr s2"
    using assms(2) unfolding OpPutMembership
    by (auto simp: applyRecord_def zero_record_def operation_names applyPutMembership_def bindE_Inr_iff split: if_splits)
  have s2: "s2 = put_audit (put_membership (put_user s (Some u')) (Some m')) (Some e)" "audit_Validate e = Inr () \<and> \<not> mhas (fs_auditIDs s) (ae_ID e)"
    using applySecurityRecord_Inr [OF r(4)] by (simp_all add: zero_record_def)
  show ?thesis unfolding s2(1)
    by (intro put_audit_wf put_membership_wf put_user_wf assms(1)) (use v r(1-3) s2(2) in \<open>auto simp: put_user_has\<close>)
next
  case (OpSaveOwned d ow)
  let ?d = "fs_cloneDefinition d"
  have v: "ownership_Validate ow = Inr ()" and r: "workflow_Validate ?d = Inr ()" "ow_WorkflowID ow = wd_ID ?d" "membership_of s (ow_ProjectID ow) (ow_OwnerUserID ow) \<noteq> None"
      "case mget (fs_workflows s) (wd_ID ?d) of None \<Rightarrow> True | Some existing \<Rightarrow> existing = ?d"
      "applySecurityRecord s ((zero_record operationSaveOwnedWorkflow)\<lparr>jr_Workflow := Some ?d, jr_Ownership := Some ow\<rparr>) = Inr s2"
    using assms(2) unfolding OpSaveOwned
    by (auto simp: applyRecord_def zero_record_def operation_names applyOwnedWorkflow_def bindE_Inr_iff split: if_splits option.splits)
  have s2: "s2 = put_ownership (put_workflow s (Some ?d)) (Some ow)"
    using applySecurityRecord_Inr(1) [OF r(5)] by (simp add: zero_record_def)
  show ?thesis unfolding s2
    by (intro put_ownership_wf put_workflow_wf assms(1) r(1,4)) (use v r(2,3) put_workflow_has [of s ?d] in auto)
next
  case (OpCreateRun x)
  have "applyRunRecord s operationCreateRun (x\<lparr>ws_Version := 1\<rparr>) = Inr s2" using assms(2)
    unfolding OpCreateRun op_record.simps applyRecord_run [of operationCreateRun, simplified] .
  then show ?thesis using assms(1) by (rule applyRunRecord_wf)
next
  case (OpSaveRun x)
  have "applyRunRecord s operationSaveRun (x\<lparr>ws_Version := ws_Version x + 1\<rparr>) = Inr s2" using assms(2)
    unfolding OpSaveRun op_record.simps applyRecord_run [of operationSaveRun, simplified] .
  then show ?thesis using assms(1) by (rule applyRunRecord_wf)
qed

section \<open>Sequences of operations\<close>

text \<open>Any operations, with any faults of the file system and any contexts.\<close>

inductive store_path :: "journal_codec \<Rightarrow> nat \<Rightarrow> FileStore \<Rightarrow> FileStore \<Rightarrow> bool" for codec where
  path_here: "store_path codec 0 s s"
| path_op: "\<lbrakk>store_path codec n s s'; op_run codec io ctx ctx' s' op = (e, s'')\<rbrakk> \<Longrightarrow> store_path codec (Suc n) s s''"

lemma op_run_effect:
  assumes "op_run codec io ctx ctx' s op = (e, s')" "fs_inv s"
  obtains f where "s' = at_file f s" | f s2 where "applyRecord s (op_record s op) = Inr s2" "s' = at_file f s2" "fs_inv s2"
  using assms by (cases rule: op_run_cases) (auto intro: that(1) [of "fs_file s"] that)

lemma store_path_inv: "\<lbrakk>store_path codec n s s'; fs_inv s\<rbrakk> \<Longrightarrow> fs_inv s'"
proof (induction rule: store_path.induct)
  case (path_op n s s' io ctx ctx' op e s'')
  from path_op(2) path_op.IH [OF path_op.prems] show ?case
    by (cases rule: op_run_effect) (simp_all add: at_file_inv path_op.IH [OF path_op.prems])
qed

lemma store_path_wf: "\<lbrakk>store_path codec n s s'; fs_inv s; store_wf s\<rbrakk> \<Longrightarrow> store_wf s'"
proof (induction rule: store_path.induct)
  case (path_op n s s' io ctx ctx' op e s'')
  have "fs_inv s'" using store_path_inv [OF path_op(1) path_op.prems(1)] .
  from path_op(2) this show ?case
    by (cases rule: op_run_effect) (use path_op.IH [OF path_op.prems] applyRecord_op_wf in \<open>simp_all add: at_file_inv\<close>)
qed

lemma fs_inv_empty: "fs_inv (empty_store f)"
  by (simp add: fs_inv_def empty_store_def membership_of_def mget_or_def)

text \<open>C14: integrity. From an empty store, whatever operations run and however their appends fail, the store stays
  well formed. Every user, workflow, run, project, membership, ownership and audit event in it is valid and filed
  under its own keys; there is no run without a definition it restores against, no membership without its project
  and user, no ownership without its workflow and a member of the project as owner, no audit event without its
  project, and no two audit events with the same identifier.\<close>

theorem store_integrity:
  assumes "store_path codec n (empty_store file) s"
  shows "store_wf s"
  by (rule store_path_wf [OF assms fs_inv_empty store_wf_empty])

section \<open>A store with every kind of record\<close>

text \<open>A list of operations, each with the answers of its system calls; the errors they return.\<close>

fun run_ops :: "journal_codec \<Rightarrow> (append_io \<times> store_op) list \<Rightarrow> FileStore \<Rightarrow> go_error option list \<times> FileStore" where
  "run_ops codec [] s = ([], s)"
| "run_ops codec ((io, op) # ops) s =
     (case op_run codec io (Context None) (Context None) s op of (e, s') \<Rightarrow>
       (case run_ops codec ops s' of (es, s'') \<Rightarrow> (e # es, s'')))"

lemma run_ops_path: "\<exists>n. store_path codec n s0 s \<Longrightarrow> \<exists>n. store_path codec n s0 (snd (run_ops codec ops s))"
proof (induction codec ops s rule: run_ops.induct)
  case (2 codec io op ops s)
  obtain e s' where o: "op_run codec io (Context None) (Context None) s op = (e, s')" by fastforce
  have "\<exists>n. store_path codec n s0 s'" using "2.prems" path_op [OF _ o] by blast
  from "2.IH" [OF o [symmetric] this] show ?case by (simp add: o case_prod_beta)
qed simp

lemma run_ops_reach:
  "\<lbrakk>store_reach codec UNIV s; list_all Option.is_none (fst (run_ops codec ops s))\<rbrakk> \<Longrightarrow> store_reach codec UNIV (snd (run_ops codec ops s))"
proof (induction codec ops s rule: run_ops.induct)
  case (2 codec io op ops s)
  obtain e s' where o: "op_run codec io (Context None) (Context None) s op = (e, s')" by fastforce
  then have "e = None" "list_all Option.is_none (fst (run_ops codec ops s'))"
    using "2.prems"(2) by (cases e; auto split: prod.splits)+
  then show ?case using "2.IH" [OF o [symmetric] reach_op [OF "2.prems"(1) o]] o by (simp add: case_prod_beta)
qed simp

definition books_audit :: "string \<Rightarrow> AuditEvent" where
  "books_audit x = \<lparr>ae_ID = x, ae_ProjectID = ''p'', ae_ActorUserID = ''ann'', ae_Action = ''manage'', ae_ResourceType = ''project'',
     ae_ResourceID = ''p'', ae_OccurredAt = 5, ae_Metadata = Some [(''k'', ''v'')]\<rparr>"

definition books_ops :: "(append_io \<times> store_op) list" where
  "books_ops =
     [(good_io, OpCreateProject \<lparr>us_ID = ''ann'', us_DisplayName = ''Ann'', us_Disabled = False, us_CreatedAt = 1\<rparr>
         \<lparr>pj_ID = ''p'', pj_Name = ''Books'', pj_CreatedBy = ''ann'', pj_CreatedAt = 1, pj_UpdatedAt = 1\<rparr>
         \<lparr>mem_ProjectID = ''p'', mem_UserID = ''ann'', mem_Role = RoleAdmin, mem_CreatedAt = 1, mem_UpdatedAt = 1\<rparr> (books_audit ''e1'')),
      (good_io, OpPutMembership \<lparr>us_ID = ''bob'', us_DisplayName = ''Bob'', us_Disabled = False, us_CreatedAt = 2\<rparr>
         \<lparr>mem_ProjectID = ''p'', mem_UserID = ''bob'', mem_Role = RoleMember, mem_CreatedAt = 2, mem_UpdatedAt = 2\<rparr> (books_audit ''e2'')),
      (good_io, OpSaveOwned pair_workflow
         \<lparr>ow_WorkflowID = ''w'', ow_ProjectID = ''p'', ow_OwnerUserID = ''bob'', ow_CreatedAt = 3\<rparr>),
      (good_io, OpCreateRun (Snapshot demo_new)),
      (good_io, OpSaveRun ((Snapshot demo_running)\<lparr>ws_Version := 1\<rparr>))]"

definition books_store :: FileStore where
  "books_store = snd (run_ops number_codec books_ops (empty_store []))"

text \<open>What it holds: a project with two members, an owned workflow, its run at the second version and two audit events.\<close>

definition books_kept :: "FileStore \<Rightarrow> bool" where
  "books_kept s \<longleftrightarrow> mhas (fs_projects s) ''p'' \<and>
     map_option mem_Role (membership_of s ''p'' ''ann'') = Some RoleAdmin \<and> map_option mem_Role (membership_of s ''p'' ''bob'') = Some RoleMember \<and>
     map_option ow_OwnerUserID (mget (fs_ownerships s) ''w'') = Some ''bob'' \<and>
     map_option (\<lambda>x. (ws_Version x, ws_Status x)) (mget (fs_runs s) ''r'') = Some (2, WorkflowRunRunning) \<and>
     map ae_ID (mget_or [] (fs_auditEvents s) ''p'') = [''e1'', ''e2'']"

lemma books_kept: "books_kept books_store"
  by code_simp

lemma books_reach: "store_reach number_codec UNIV books_store"
  unfolding books_store_def by (rule run_ops_reach [OF reach_empty]) code_simp

theorem store_integrity_witness:
  "store_wf (snd (run_ops number_codec [(torn_io, OpSaveRun ((Snapshot demo_running)\<lparr>ws_Version := 2\<rparr>))] books_store)) \<and> books_kept books_store"
proof -
  have "\<exists>n. store_path number_codec n (empty_store []) books_store"
    unfolding books_store_def using run_ops_path path_here by blast
  then obtain n where "store_path number_codec n (empty_store [])
      (snd (run_ops number_codec [(torn_io, OpSaveRun ((Snapshot demo_running)\<lparr>ws_Version := 2\<rparr>))] books_store))"
    using run_ops_path by blast
  from store_integrity [OF this] show ?thesis using books_kept by blast
qed

theorem reopen_restores_witness:
  "OpenFileStore number_codec None None clean_io ''journal'' (fs_file books_store) = (Inr books_store, fs_file books_store) \<and>
   books_kept books_store"
  using reopen_restores [OF number_codec_laws books_reach, of "''journal''"] books_kept by simp

section \<open>Versions of a run\<close>

lemma applySecurityRecord_runs: "applySecurityRecord s r = Inr s2 \<Longrightarrow> fs_runs s2 = fs_runs s"
  by (drule applySecurityRecord_Inr(1))
    (simp add: put_user_def put_project_def put_membership_def put_workflow_def put_ownership_def put_audit_def Let_def split: option.split)

lemma applyRecord_runs:
  assumes "applyRecord s r = Inr s2" "mget (fs_runs s) k = Some c"
  shows "\<exists>c'. mget (fs_runs s2) k = Some c' \<and> (c' = c \<or> ws_Version c' = ws_Version c + 1)"
proof -
  consider (keep) "fs_runs s2 = fs_runs s" | (run) x where "jr_Operation r \<in> {operationCreateRun, operationSaveRun}" "applyRunRecord s (jr_Operation r) x = Inr s2"
    using assms(1) by (auto simp: applyRecord_def applyWorkflowRecord_def applyCreateProject_def applySaveProject_def applyPutMembership_def
        applyOwnedWorkflow_def bindE_Inr_iff dest: applySecurityRecord_runs split: if_splits option.splits)
  then show ?thesis
  proof cases
    case keep
    then show ?thesis using assms(2) by simp
  next
    case (run x)
    from run(2) show ?thesis
    proof (rule applyRunRecord_Inr)
      fix x' assume x': "s2 = s\<lparr>fs_runs := mput (ws_ID x') x' (fs_runs s)\<rparr>" "ws_ID x' = ws_ID x"
        and save: "jr_Operation r = operationSaveRun \<Longrightarrow> \<exists>c. mget (fs_runs s) (ws_ID x) = Some c \<and> ws_Version x' = ws_Version c + 1"
        and create: "jr_Operation r = operationCreateRun \<Longrightarrow> mget (fs_runs s) (ws_ID x) = None"
      show ?thesis
      proof (cases "k = ws_ID x")
        case True
        then have "jr_Operation r = operationSaveRun" using run(1) create assms(2) by auto
        from save [OF this] True assms(2) show ?thesis by (simp add: x' go_map)
      qed (use assms(2) in \<open>simp add: x' go_map\<close>)
    qed
  qed
qed

lemma store_path_versions:
  "\<lbrakk>store_path codec n s s'; fs_inv s; mget (fs_runs s) k = Some c\<rbrakk> \<Longrightarrow>
   \<exists>c' j. mget (fs_runs s') k = Some c' \<and> j \<le> n \<and> ws_Version c' = ws_Version c + of_nat j"
proof (induction rule: store_path.induct)
  case (path_here s)
  then show ?case by auto
next
  case (path_op n s s' io ctx ctx' op e s'')
  obtain c' j where c': "mget (fs_runs s') k = Some c'" "j \<le> n" "ws_Version c' = ws_Version c + of_nat j"
    using path_op.IH [OF path_op.prems] by blast
  have "fs_inv s'" using store_path_inv [OF path_op(1) path_op.prems(1)] .
  with path_op(2) have "\<exists>c''. mget (fs_runs s'') k = Some c'' \<and> (c'' = c' \<or> ws_Version c'' = ws_Version c' + 1)"
    by (cases rule: op_run_effect) (use applyRecord_runs [OF _ c'(1)] c'(1) in auto)
  then obtain c'' where c'': "mget (fs_runs s'') k = Some c''" "c'' = c' \<or> ws_Version c'' = ws_Version c' + 1" by blast
  from c''(2) show ?case
  proof
    assume "c'' = c'"
    then show ?thesis using c' c''(1) by (intro exI [of _ c''] exI [of _ j]) simp
  next
    assume "ws_Version c'' = ws_Version c' + 1"
    then show ?thesis using c' c''(1) by (intro exI [of _ c''] exI [of _ "Suc j"]) (simp add: algebra_simps)
  qed
qed

lemma SaveRun_saved:
  assumes "SaveRun codec io ctx ctx' s x = (Inr x', s1)"
  shows "x' = x\<lparr>ws_Version := ws_Version x + 1\<rparr>" "mget (fs_runs s1) (ws_ID x) = Some x'"
proof -
  have "store_run codec io ctx' s operationSaveRun (ws_Version x + 1) x = (Inr x', s1)"
    using assms by (auto simp: SaveRun_def split: sum.splits option.splits if_splits)
  then show "x' = x\<lparr>ws_Version := ws_Version x + 1\<rparr>" "mget (fs_runs s1) (ws_ID x) = Some x'"
    by (auto simp: store_run_def commit_def Let_def go_map split: sum.splits option.splits prod.splits)
qed

lemma SaveRun_op: "SaveRun codec io ctx ctx' s x = (Inr x', s1) \<Longrightarrow> op_run codec io ctx ctx' s (OpSaveRun x) = (None, s1)"
  by simp

text \<open>C40: no lost update. After a successful save, a save of the same run at the version the first one started from
  fails and changes nothing, whatever other operations come between (fewer than the versions a 64-bit counter has);
  when the snapshot is valid and the context alive, the error is the version conflict with the current version.\<close>

theorem no_lost_update:
  assumes "fs_inv s" "SaveRun codec io ctx ctx' s x = (Inr x', s1)" "store_path codec n s1 s2" "n + 1 < 2 ^ 64"
    "ws_ID y = ws_ID x" "ws_Version y = ws_Version x"
  shows "\<exists>err. SaveRun codec io' ctx'' ctx''' s2 y = (Inl err, s2) \<and>
     (snapshot_Validate y = Inr () \<and> store_contextError ctx'' = None \<longrightarrow>
        (\<exists>c. mget (fs_runs s2) (ws_ID y) = Some c \<and> err = RunVersionConflictError (ws_ID y) (ws_Version y) (ws_Version c)))"
proof -
  have "fs_inv s1" using store_path_inv [OF path_op [OF path_here SaveRun_op [OF assms(2)]] assms(1)] .
  from store_path_versions [OF assms(3) this SaveRun_saved(2) [OF assms(2)]]
  obtain c j where c: "mget (fs_runs s2) (ws_ID x) = Some c" "j \<le> n" "ws_Version c = ws_Version x' + of_nat j" by blast
  have "unat (of_nat (Suc j) :: 64 word) = Suc j" using c(2) assms(4) by (subst unat_of_nat) simp
  then have "of_nat (Suc j) \<noteq> (0 :: 64 word)" by (metis unat_0 nat.distinct(2))
  then have "ws_Version y \<noteq> ws_Version c" using c(3) SaveRun_saved(1) [OF assms(2)] assms(6) by (simp add: algebra_simps)
  then show ?thesis using c(1) assms(5) by (auto simp: SaveRun_def checkE_def split: sum.split)
qed

definition demo_store :: FileStore where
  "demo_store = (empty_store [])\<lparr>fs_workflows := [(''w'', fs_cloneDefinition pair_workflow)], fs_runs := [(''r'', Snapshot demo_new)]\<rparr>"

lemma save_current:
  "\<lbrakk>validateRunDefinition s x = Inr (); snapshot_Validate x = Inr (); mget (fs_runs s) (ws_ID x) = Some x\<rbrakk> \<Longrightarrow>
   \<exists>x' s1. SaveRun tiny_codec good_io (Context None) (Context None) s x = (Inr x', s1)"
  by (simp add: SaveRun_def store_run_def tiny_empty(1) checkE_def Let_def commit_def appendRecord_def tiny_codec_def good_io_def
      errors_Join_def map_filter_simps)

lemma demo_save:
  "\<exists>x' s1. SaveRun tiny_codec good_io (Context None) (Context None) demo_store (Snapshot demo_new) = (Inr x', s1)"
proof -
  have ids: "ws_ID (Snapshot demo_new) = ''r''" "ws_WorkflowID (Snapshot demo_new) = ''w''" by code_simp+
  have "\<not> isl (restoreWorkflowRun (Snapshot demo_new) (fs_cloneDefinition pair_workflow))" by code_simp
  then have "validateRunDefinition demo_store (Snapshot demo_new) = Inr ()"
    unfolding validateRunDefinition_Inr_iff ids by (simp add: demo_store_def)
  moreover have "snapshot_Validate (Snapshot demo_new) = Inr ()" by code_simp
  moreover have "mget (fs_runs demo_store) (ws_ID (Snapshot demo_new)) = Some (Snapshot demo_new)" unfolding ids by (simp add: demo_store_def)
  ultimately show ?thesis by (rule save_current)
qed

theorem no_lost_update_witness:
  "\<exists>s1 err. SaveRun tiny_codec good_io (Context None) (Context None) s1 (Snapshot demo_new) = (Inl err, s1)"
proof -
  have inv: "fs_inv demo_store"
    unfolding fs_inv_def by (simp add: demo_store_def empty_store_def membership_of_def mget_or_def)
  obtain x' s1 where "SaveRun tiny_codec good_io (Context None) (Context None) demo_store (Snapshot demo_new) = (Inr x', s1)"
    using demo_save by blast
  from no_lost_update [OF inv this path_here _ refl refl, of good_io "Context None" "Context None"] show ?thesis by auto
qed

end
