(* ===== verification/FF_Scheduler.thy ===== *)
theory FF_Scheduler
  imports FF_Engine FF_Integrity
begin

text \<open>
  The scheduler loop of \<open>engine_broker.go\<close> keeps its caches equal to the run, runs a task only after its
  dependencies, never stalls, and has the run in the store whenever it waits. The first part describes each
  operation of a run by the task statuses it changes; the second is the invariant of the loop; the third relies on
  the contract of the store, a locale that the file store interprets.
\<close>

section \<open>Statuses\<close>

definition status_of :: "WorkflowRun \<Rightarrow> TaskID \<Rightarrow> TaskRunStatus option" where
  "status_of run k = map_option tr_Status (mget (run_tasks run) k)"

definition deps_done :: "WorkflowRun \<Rightarrow> TaskID \<Rightarrow> bool" where
  "deps_done run k \<longleftrightarrow> (\<forall>d \<in> set (deps_of (run_definition run) k). status_of run d = Some TaskRunSucceeded)"

text \<open>A live run: no task has failed or was cancelled, and only tasks whose dependencies have succeeded left the
  pending state.\<close>

definition live_inv :: "WorkflowRun \<Rightarrow> bool" where
  "live_inv run \<longleftrightarrow> run_inv run \<and> run_status run = WorkflowRunRunning \<and>
     (\<forall>k x. status_of run k = Some x \<longrightarrow>
        x \<in> {TaskRunPending, TaskRunReady, TaskRunRunning, TaskRunRetryWaiting, TaskRunSucceeded} \<and>
        (x \<noteq> TaskRunPending \<longrightarrow> deps_done run k))"

definition unlocked :: "WorkflowRun \<Rightarrow> bool" where
  "unlocked run \<longleftrightarrow> (\<forall>k. status_of run k = Some TaskRunPending \<longrightarrow> \<not> deps_done run k)"

definition cache_inv :: "WorkflowRun \<Rightarrow> (TaskID, unit) gomap \<Rightarrow> (TaskID, TaskDefinition) gomap \<Rightarrow> bool" where
  "cache_inv run completed ready \<longleftrightarrow> wf_map completed \<and>
     (\<forall>k. mhas completed k \<longleftrightarrow> status_of run k = Some TaskRunSucceeded) \<and>
     (\<forall>k. mhas ready k \<longleftrightarrow> status_of run k = Some TaskRunReady)"

lemma mhas_tasks: "mhas (run_tasks run) k \<longleftrightarrow> status_of run k \<noteq> None"
  by (simp add: mhas_def status_of_def)

lemma status_of_Some: "status_of run k = Some x \<longleftrightarrow> (\<exists>t. mget (run_tasks run) k = Some t \<and> tr_Status t = x)"
  by (auto simp: status_of_def)

lemma run_inv_ids: "run_inv run \<Longrightarrow> status_of run k \<noteq> None \<longleftrightarrow> k \<in> set (task_ids (run_definition run))"
  using run_invD(7) [of run] mhas_tasks [of run k] mhas_mkeys [of "run_tasks run" k] by simp

text \<open>Operations that move tasks which are already unlocked.\<close>

definition moves :: "WorkflowRun \<Rightarrow> WorkflowRun \<Rightarrow> bool" where
  "moves run run' \<longleftrightarrow> run_inv run' \<and> run_definition run' = run_definition run \<and> run_status run' = run_status run \<and> run_id run' = run_id run \<and>
     (\<forall>k. status_of run' k = status_of run k \<or>
        (\<exists>x y. status_of run k = Some x \<and> x \<in> {TaskRunReady, TaskRunRunning, TaskRunRetryWaiting} \<and>
           status_of run' k = Some y \<and> y \<in> {TaskRunReady, TaskRunRunning, TaskRunRetryWaiting, TaskRunSucceeded, TaskRunFailed}))"

lemma moves_done:
  assumes "moves run run'" "deps_done run k"
  shows "deps_done run' k"
proof -
  have "status_of run' d = Some TaskRunSucceeded" if "status_of run d = Some TaskRunSucceeded" for d
    using assms(1) that unfolding moves_def by (metis TaskRunStatus.distinct insert_iff option.inject singletonD)
  then show ?thesis using assms unfolding deps_done_def moves_def by simp
qed

lemma moves_live:
  assumes "moves run run'" "live_inv run" "\<And>k. status_of run' k \<noteq> Some TaskRunFailed"
  shows "live_inv run'"
proof -
  have "x \<in> {TaskRunPending, TaskRunReady, TaskRunRunning, TaskRunRetryWaiting, TaskRunSucceeded} \<and> (x \<noteq> TaskRunPending \<longrightarrow> deps_done run' k)"
    if x: "status_of run' k = Some x" for k x
  proof -
    have "status_of run k = Some x \<or> (\<exists>x0. status_of run k = Some x0 \<and> x0 \<in> {TaskRunReady, TaskRunRunning, TaskRunRetryWaiting} \<and>
        x \<in> {TaskRunReady, TaskRunRunning, TaskRunRetryWaiting, TaskRunSucceeded, TaskRunFailed})"
      using assms(1) x unfolding moves_def by (metis option.inject)
    moreover have "x \<noteq> TaskRunFailed" using assms(3) [of k] x by auto
    ultimately show ?thesis using assms(2) moves_done [OF assms(1), of k] unfolding live_inv_def by blast
  qed
  then show ?thesis using assms(1,2) unfolding live_inv_def moves_def by simp
qed

lemma moves_unlocked:
  assumes "moves run run'" "unlocked run" "\<And>k. status_of run' k = Some TaskRunSucceeded \<Longrightarrow> status_of run k = Some TaskRunSucceeded"
  shows "unlocked run'"
proof -
  have "status_of run k = Some TaskRunPending" if "status_of run' k = Some TaskRunPending" for k
    using assms(1) that unfolding moves_def by (metis TaskRunStatus.distinct insert_iff option.inject singletonD)
  moreover have "deps_done run k" if "deps_done run' k" for k
    using assms(1,3) that unfolding deps_done_def moves_def by simp
  ultimately show ?thesis using assms(2) unfolding unlocked_def by blast
qed

section \<open>What the operations of a run do to the statuses\<close>

lemma status_mget: "mget (run_tasks run') = mget (run_tasks run) \<Longrightarrow> status_of run' = status_of run"
  by (simp add: status_of_def fun_eq_iff)

lemma persist_moves: "run_inv run \<Longrightarrow> moves run (setPersistedVersion run v)" "status_of (setPersistedVersion run v) = status_of run"
proof -
  show eq: "status_of (setPersistedVersion run v) = status_of run" by (rule status_mget) (simp add: setPersistedVersion_def)
  show "run_inv run \<Longrightarrow> moves run (setPersistedVersion run v)"
    using run_step_inv [OF run_step.persist, of run v] unfolding moves_def eq by (simp add: setPersistedVersion_def)
qed

lemma heartbeat_moves:
  assumes "recordWorkerHeartbeat run now w d = Inr run'" "run_inv run"
  shows "moves run run'" "status_of run' = status_of run"
proof -
  show eq: "status_of run' = status_of run"
    using assms(1) by (rule recordWorkerHeartbeat_InrE) (simp add: status_of_def fun_eq_iff go_map option.map_comp comp_def)
  have "run_status run' = run_status run" using assms(1) by (rule recordWorkerHeartbeat_InrE) simp
  then show "moves run run'"
    using run_step_inv [OF run_step.heartbeat [OF assms(1)] assms(2)] run_step_id [OF run_step.heartbeat [OF assms(1)]]
    unfolding moves_def eq by simp
qed

lemma start_moves:
  assumes "startTaskAttempt run now t w d = Inr (a, run')" "run_inv run"
  shows "moves run run'" "status_of run t = Some TaskRunReady" "status_of run' k = (if k = t then Some TaskRunRunning else status_of run k)"
proof -
  have eq: "status_of run t = Some TaskRunReady \<and> (\<forall>k. status_of run' k = (if k = t then Some TaskRunRunning else status_of run k)) \<and>
      run_status run' = run_status run"
    using assms(1) by (rule startTaskAttempt_InrE) (simp add: status_of_def go_map)
  then show "status_of run t = Some TaskRunReady" "status_of run' k = (if k = t then Some TaskRunRunning else status_of run k)" by simp_all
  show "moves run run'"
    using run_step_inv [OF run_step.start [OF assms(1)] assms(2)] run_step_id [OF run_step.start [OF assms(1)]] eq
    unfolding moves_def by simp
qed

lemma complete_task_status:
  assumes "complete_task_run run ts k out err t = (oc, t')"
  shows "tr_Status t' = (case oc of CompletionSucceeded \<Rightarrow> TaskRunSucceeded | CompletionFailed \<Rightarrow> TaskRunFailed
     | _ \<Rightarrow> (if RetryDelay (retryPolicyLocked run k) (tr_AttemptCount t) = 0 then TaskRunReady else TaskRunRetryWaiting))"
    "oc \<noteq> CompletionIgnored"
  using assms by (auto simp: complete_task_run_def Let_def split: option.splits if_splits)

lemma complete_moves:
  assumes "completeTaskAttempt run now t tr w a out err = Inr (oc, run')" "run_inv run" "oc \<noteq> CompletionIgnored"
  obtains y where "moves run run'" "status_of run t = Some TaskRunRunning" "\<And>k. status_of run' k = (if k = t then Some y else status_of run k)"
    "oc = CompletionSucceeded \<longleftrightarrow> y = TaskRunSucceeded" "oc = CompletionFailed \<longleftrightarrow> y = TaskRunFailed"
    "oc = CompletionRetryScheduled \<longleftrightarrow> y \<in> {TaskRunReady, TaskRunRetryWaiting}"
    "y \<in> {TaskRunReady, TaskRunRetryWaiting, TaskRunSucceeded, TaskRunFailed}"
  using assms(1)
proof (cases rule: completeTaskAttempt_InrE)
  case (ignored task)
  then show ?thesis using assms(3) by simp
next
  case (accepted task task')
  note y = complete_task_status [OF accepted(3)]
  have st: "status_of run t = Some TaskRunRunning" using completion_matches_running [OF accepted(2)] accepted(1) by (simp add: status_of_def)
  have st': "status_of run' k = (if k = t then Some (tr_Status task') else status_of run k)" for k
    by (simp add: accepted(4) status_of_def go_map)
  have cases: "tr_Status task' \<in> {TaskRunReady, TaskRunRetryWaiting, TaskRunSucceeded, TaskRunFailed}"
    unfolding y(1) by (simp split: CompletionOutcome.split)
  have "moves run run'"
    using run_step_inv [OF run_step.complete [OF assms(1)] assms(2)] run_step_id [OF run_step.complete [OF assms(1)]] st st' cases accepted(4)
    unfolding moves_def by auto
  then show ?thesis
    by (rule that [OF _ st st' _ _ _ cases]) (use y in \<open>cases oc; simp\<close>)+
qed

lemma transitionTask_ready:
  assumes "status_of run k = Some TaskRunPending"
  obtains run' where "transitionTask run now k TaskRunReady '''' None = Inr run'"
    "\<And>j. status_of run' j = (if j = k then Some TaskRunReady else status_of run j)"
    "run_definition run' = run_definition run" "run_status run' = run_status run" "run_id run' = run_id run"
    "run_inv run \<Longrightarrow> run_inv run'"
proof -
  obtain t where t: "mget (run_tasks run) k = Some t" "tr_Status t = TaskRunPending" using assms by (auto simp: status_of_Some)
  obtain run' where r: "transitionTask run now k TaskRunReady '''' None = Inr run'"
    "run' = run\<lparr>run_tasks := mput k (transition_task_run run (nextTimestampLocked run now) k TaskRunReady '''' None t) (run_tasks run),
       run_updatedAt := nextTimestampLocked run now\<rparr>"
    using t by (simp add: transitionTask_def Let_def)
  have "run_inv run'" if "run_inv run"
    using run_step_inv [OF run_step.ready [OF _ r(1)] that] t by (simp add: taskStatus_Inr_iff)
  then show thesis using that [OF r(1)] r(2) by (simp add: status_of_def go_map)
qed

lemma mark_loop_marks:
  assumes "run_inv run" "\<And>task. task \<in> set cands \<Longrightarrow> status_of run (td_ID task) \<noteq> None"
  shows "\<exists>new run'. mark_loop now cands run acc = (Inr (acc @ new), run') \<and>
     td_ID ` set new = {k \<in> td_ID ` set cands. status_of run k = Some TaskRunPending} \<and> (new = [] \<longrightarrow> run' = run) \<and>
     (\<forall>k. status_of run' k = (if k \<in> td_ID ` set cands \<and> status_of run k = Some TaskRunPending then Some TaskRunReady else status_of run k)) \<and>
     run_inv run' \<and> run_definition run' = run_definition run \<and> run_status run' = run_status run \<and> run_id run' = run_id run"
  using assms
proof (induction cands arbitrary: now run acc)
  case (Cons task cands)
  let ?k = "td_ID task" and ?now = "\<lambda>i. now (Suc i)"
  obtain x where x: "status_of run ?k = Some x" using Cons.prems(2) [of task] by auto
  then have ts: "taskStatus run ?k = Inr x" by (auto simp: taskStatus_Inr_iff status_of_Some)
  show ?case
  proof (cases "x = TaskRunPending")
    case False
    have "status_of run (td_ID t) \<noteq> None" if "t \<in> set cands" for t using Cons.prems(2) that by simp
    from Cons.IH [OF Cons.prems(1) this, of ?now acc] obtain new run' where
      IH: "mark_loop ?now cands run acc = (Inr (acc @ new), run')" "td_ID ` set new = {k \<in> td_ID ` set cands. status_of run k = Some TaskRunPending}"
        "new = [] \<longrightarrow> run' = run"
        "\<forall>k. status_of run' k = (if k \<in> td_ID ` set cands \<and> status_of run k = Some TaskRunPending then Some TaskRunReady else status_of run k)"
        "run_inv run' \<and> run_definition run' = run_definition run \<and> run_status run' = run_status run \<and> run_id run' = run_id run"
      by blast
    then show ?thesis using ts x False by (intro exI [of _ new] exI [of _ run']) auto
  next
    case True
    obtain run1 where run1: "transitionTask run (now 0) ?k TaskRunReady '''' None = Inr run1"
      "\<And>j. status_of run1 j = (if j = ?k then Some TaskRunReady else status_of run j)"
      "run_definition run1 = run_definition run" "run_status run1 = run_status run" "run_id run1 = run_id run" "run_inv run1"
      using transitionTask_ready [of run ?k "now 0"] x True Cons.prems(1) by metis
    have "status_of run1 (td_ID t) \<noteq> None" if "t \<in> set cands" for t using Cons.prems(2) that run1(2) by simp
    from Cons.IH [OF run1(6) this, of ?now "acc @ [task]"] obtain new run' where
      IH: "mark_loop ?now cands run1 (acc @ [task]) = (Inr ((acc @ [task]) @ new), run')"
        "td_ID ` set new = {k \<in> td_ID ` set cands. status_of run1 k = Some TaskRunPending}"
        "\<forall>k. status_of run' k = (if k \<in> td_ID ` set cands \<and> status_of run1 k = Some TaskRunPending then Some TaskRunReady else status_of run1 k)"
        "run_inv run' \<and> run_definition run' = run_definition run1 \<and> run_status run' = run_status run1 \<and> run_id run' = run_id run1"
      by blast
    have "td_ID ` set (task # new) = {k \<in> td_ID ` set (task # cands). status_of run k = Some TaskRunPending}"
      using IH(2) x True run1(2) by auto
    moreover have "status_of run' k = (if k \<in> td_ID ` set (task # cands) \<and> status_of run k = Some TaskRunPending then Some TaskRunReady else status_of run k)" for k
      using IH(3) run1(2) x True by auto
    moreover have "mark_loop now (task # cands) run acc = (Inr (acc @ task # new), run')" using ts True run1(1) IH(1) by simp
    ultimately show ?thesis using IH(4) run1(3-5) by (intro exI [of _ "task # new"] exI [of _ run']) simp
  qed
qed simp

lemma markNewReady_marks:
  assumes "run_inv run" "\<And>k. mhas completed k \<longleftrightarrow> status_of run k = Some TaskRunSucceeded"
  obtains new run' where "markNewReady now run (run_definition run) completed = (Inr new, run')"
    "td_ID ` set new = {k. status_of run k = Some TaskRunPending \<and> deps_done run k}" "new = [] \<longrightarrow> run' = run"
    "\<forall>k. status_of run' k = (if status_of run k = Some TaskRunPending \<and> deps_done run k then Some TaskRunReady else status_of run k)"
    "run_inv run'" "run_definition run' = run_definition run" "run_status run' = run_status run" "run_id run' = run_id run"
proof -
  let ?d = "run_definition run"
  let ?ids = "filter (\<lambda>t. t \<notin> set (mkeys completed) \<and> set (deps_of ?d t) \<subseteq> set (mkeys completed)) (sort (task_ids ?d))"
  note ids = run_inv_ids [OF assms(1)]
  have keys: "k \<in> set (mkeys completed) \<longleftrightarrow> status_of run k = Some TaskRunSucceeded" for k using assms(2) by (simp add: mhas_mkeys)
  have "filter (\<lambda>t. t \<notin> set (task_ids ?d)) (mkeys completed) = []" using keys ids by (auto simp: filter_empty_conv)
  then have cands: "ReadyTasks ?d (mkeys completed) = Inr (map (task_at ?d) ?ids)"
    by (simp add: ReadyTasks_valid [OF run_invD(4) [OF assms(1)]])
  have tid: "td_ID (task_at ?d t) = t" if "t \<in> set ?ids" for t using that by (auto intro: task_at_ID(1))
  then have img: "td_ID ` set (map (task_at ?d) ?ids) = set ?ids" by force
  have pend: "k \<in> set ?ids \<and> status_of run k = Some TaskRunPending \<longleftrightarrow> status_of run k = Some TaskRunPending \<and> deps_done run k" for k
    using ids [of k] keys by (auto simp: deps_done_def subset_iff)
  have "status_of run (td_ID task) \<noteq> None" if "task \<in> set (map (task_at ?d) ?ids)" for task
    using that ids tid by auto
  from mark_loop_marks [where now = now and acc = "[]" and cands = "map (task_at ?d) ?ids", OF assms(1) this] obtain new run' where
    m: "mark_loop now (map (task_at ?d) ?ids) run [] = (Inr new, run')" "td_ID ` set new = {k \<in> set ?ids. status_of run k = Some TaskRunPending}"
      "new = [] \<longrightarrow> run' = run"
      "\<forall>k. status_of run' k = (if k \<in> set ?ids \<and> status_of run k = Some TaskRunPending then Some TaskRunReady else status_of run k)"
      "run_inv run'" "run_definition run' = run_definition run" "run_status run' = run_status run" "run_id run' = run_id run"
    unfolding img by auto
  show thesis
  proof (rule that [OF _ _ m(3) _ m(5-8)])
    show "markNewReady now run ?d completed = (Inr new, run')" by (simp add: markNewReady_def cands lift_validation_def m(1))
    show "td_ID ` set new = {k. status_of run k = Some TaskRunPending \<and> deps_done run k}" using m(2) pend by blast
    show "\<forall>k. status_of run' k = (if status_of run k = Some TaskRunPending \<and> deps_done run k then Some TaskRunReady else status_of run k)"
      using m(4) pend by simp
  qed
qed

text \<open>Marking unlocks: afterwards the caches and the statuses agree again.\<close>

lemma mhas_add_ready: "mhas (sc_ready (add_ready new s)) k \<longleftrightarrow> k \<in> td_ID ` set new \<or> mhas (sc_ready s) k"
  by (simp add: add_ready_def mhas_fold_mput)

lemma mark_live:
  assumes "live_inv run" "run_inv run'" "run_definition run' = run_definition run" "run_status run' = run_status run"
    "\<And>k. status_of run' k = (if status_of run k = Some TaskRunPending \<and> deps_done run k then Some TaskRunReady else status_of run k)"
  shows "live_inv run'" "unlocked run'" "\<And>k. status_of run' k = Some TaskRunSucceeded \<longleftrightarrow> status_of run k = Some TaskRunSucceeded"
    "\<And>k. status_of run' k = Some TaskRunReady \<longleftrightarrow> (status_of run k = Some TaskRunPending \<and> deps_done run k) \<or> status_of run k = Some TaskRunReady"
proof -
  show succ: "status_of run' k = Some TaskRunSucceeded \<longleftrightarrow> status_of run k = Some TaskRunSucceeded" for k using assms(5) by simp
  have deps: "deps_done run' k \<longleftrightarrow> deps_done run k" for k unfolding deps_done_def assms(3) succ by simp
  show "live_inv run'" using assms(1,2,4,5) unfolding live_inv_def deps by (auto split: if_splits)
  show "unlocked run'" unfolding unlocked_def deps using assms(5) by (auto split: if_splits)
  show "status_of run' k = Some TaskRunReady \<longleftrightarrow> (status_of run k = Some TaskRunPending \<and> deps_done run k) \<or> status_of run k = Some TaskRunReady" for k
    using assms(5) [of k] by auto
qed

lemma moves_trans:
  assumes "moves run run1" "moves run1 run2"
  shows "moves run run2"
proof -
  have "status_of run2 k = status_of run k \<or>
      (\<exists>x y. status_of run k = Some x \<and> x \<in> {TaskRunReady, TaskRunRunning, TaskRunRetryWaiting} \<and>
         status_of run2 k = Some y \<and> y \<in> {TaskRunReady, TaskRunRunning, TaskRunRetryWaiting, TaskRunSucceeded, TaskRunFailed})" for k
  proof (cases "status_of run1 k = status_of run k")
    case True
    then show ?thesis using assms(2) unfolding moves_def by metis
  next
    case first: False
    then obtain x y where xy: "status_of run k = Some x" "x \<in> {TaskRunReady, TaskRunRunning, TaskRunRetryWaiting}"
        "status_of run1 k = Some y" "y \<in> {TaskRunReady, TaskRunRunning, TaskRunRetryWaiting, TaskRunSucceeded, TaskRunFailed}"
      using assms(1) unfolding moves_def by metis
    show ?thesis
    proof (cases "status_of run2 k = status_of run1 k")
      case True
      then show ?thesis using xy by metis
    next
      case False
      then have "\<exists>z. status_of run2 k = Some z \<and> z \<in> {TaskRunReady, TaskRunRunning, TaskRunRetryWaiting, TaskRunSucceeded, TaskRunFailed}"
        using assms(2) unfolding moves_def by metis
      then show ?thesis using xy by metis
    qed
  qed
  then show ?thesis using assms unfolding moves_def by simp
qed

lemma recover_task_status:
  assumes "recover_task_run run ts k t = Some (r, t')"
  shows "lr_TaskID r = k" "tr_Status t = TaskRunRunning"
    "lr_Outcome r = CompletionRetryScheduled \<and> tr_Status t' \<in> {TaskRunReady, TaskRunRetryWaiting} \<or>
     lr_Outcome r = CompletionFailed \<and> tr_Status t' = TaskRunFailed"
  using assms by (auto simp: recover_task_run_def Let_def split: if_splits)

lemma in_map_filter: "r \<in> set (List.map_filter f xs) \<longleftrightarrow> (\<exists>x \<in> set xs. f x = Some r)"
  by (induction xs) (auto simp: map_filter_simps split: option.split)

lemma recover_listed_iff:
  assumes "recoverExpiredLeases run now = (rs, run')" "wf_map (run_tasks run)"
  shows "r \<in> set rs \<longleftrightarrow> (\<exists>k t t'. mget (run_tasks run) k = Some t \<and> recover_task_run run (nextTimestampLocked run now) k t = Some (r, t'))"
proof -
  let ?f = "\<lambda>(k, t). map_option fst (recover_task_run run (nextTimestampLocked run now) k t)"
  have "set rs = set (List.map_filter ?f (run_tasks run))" using assms(1) by (auto simp: recoverExpiredLeases_def Let_def)
  then have "r \<in> set rs \<longleftrightarrow> (\<exists>p \<in> set (run_tasks run). ?f p = Some r)" by (simp only: in_map_filter)
  also have "\<dots> \<longleftrightarrow> (\<exists>k t. (k, t) \<in> set (run_tasks run) \<and> (\<exists>t'. recover_task_run run (nextTimestampLocked run now) k t = Some (r, t')))"
    by (auto simp: Bex_def split_paired_Ex)
  finally show ?thesis by (simp add: mget_Some_iff [OF assms(2)])
qed

lemma recover_moves:
  assumes "recoverExpiredLeases run now = (rs, run')" "run_inv run"
  shows "moves run run'" "k \<notin> lr_TaskID ` set rs \<Longrightarrow> status_of run' k = status_of run k"
    "r \<in> set rs \<Longrightarrow> status_of run (lr_TaskID r) = Some TaskRunRunning \<and>
       (\<exists>y. status_of run' (lr_TaskID r) = Some y \<and>
          (lr_Outcome r = CompletionRetryScheduled \<and> y \<in> {TaskRunReady, TaskRunRetryWaiting} \<or> lr_Outcome r = CompletionFailed \<and> y = TaskRunFailed))"
proof -
  let ?ts = "nextTimestampLocked run now"
  note wf = run_invD(6) [OF assms(2)]
  note mem = recover_listed_iff [OF assms(1) wf]
  have run': "run_tasks run' = mmap (recovered_task_run run ?ts) (run_tasks run)" "run_status run' = run_status run"
    using assms(1) by (auto simp: recoverExpiredLeases_def Let_def)
  have st': "status_of run' k = map_option (\<lambda>t. tr_Status (recovered_task_run run ?ts k t)) (mget (run_tasks run) k)" for k
    by (simp add: status_of_def run' go_map option.map_comp comp_def)
  show same: "status_of run' k = status_of run k" if "k \<notin> lr_TaskID ` set rs" for k
  proof (cases "mget (run_tasks run) k")
    case (Some t)
    have "recover_task_run run ?ts k t = None"
    proof (rule ccontr)
      assume "recover_task_run run ?ts k t \<noteq> None"
      then obtain r t' where "recover_task_run run ?ts k t = Some (r, t')" by auto
      then have "r \<in> set rs" "lr_TaskID r = k" using mem Some recover_task_status(1) by blast+
      then show False using that by blast
    qed
    then show ?thesis unfolding st' using Some by (simp add: recovered_task_run_def status_of_def)
  qed (simp add: st', simp add: status_of_def)
  show rec: "status_of run (lr_TaskID r) = Some TaskRunRunning \<and>
       (\<exists>y. status_of run' (lr_TaskID r) = Some y \<and>
          (lr_Outcome r = CompletionRetryScheduled \<and> y \<in> {TaskRunReady, TaskRunRetryWaiting} \<or> lr_Outcome r = CompletionFailed \<and> y = TaskRunFailed))"
    if r: "r \<in> set rs" for r
  proof -
    obtain k t t' where kt: "mget (run_tasks run) k = Some t" "recover_task_run run ?ts k t = Some (r, t')" using r mem by blast
    note f = recover_task_status [OF kt(2)]
    have "status_of run' k = Some (tr_Status t')" unfolding st' using kt by (simp add: recovered_task_run_def)
    moreover have "status_of run k = Some TaskRunRunning" using kt(1) f(2) by (simp add: status_of_def)
    ultimately show ?thesis using f(1,3) by simp
  qed
  have "status_of run' k = status_of run k \<or>
      (\<exists>x y. status_of run k = Some x \<and> x \<in> {TaskRunReady, TaskRunRunning, TaskRunRetryWaiting} \<and>
         status_of run' k = Some y \<and> y \<in> {TaskRunReady, TaskRunRunning, TaskRunRetryWaiting, TaskRunSucceeded, TaskRunFailed})" for k
  proof (cases "k \<in> lr_TaskID ` set rs")
    case True
    then show ?thesis using rec by auto
  qed (use same in simp)
  then show "moves run run'"
    using run_step_inv [OF run_step.recover [OF assms(1)] assms(2)] run_step_id [OF run_step.recover [OF assms(1)]] run'(2)
    unfolding moves_def by simp
qed

lemma mmap_id: "(\<And>k v. (k, v) \<in> set m \<Longrightarrow> f k v = v) \<Longrightarrow> mmap f m = m"
  by (induction m) auto

lemma recover_nothing:
  assumes "recoverExpiredLeases run now = ([], run')" "wf_map (run_tasks run)"
  shows "run' = run"
proof -
  let ?ts = "nextTimestampLocked run now"
  have "recovered_task_run run ?ts k t = t" if "(k, t) \<in> set (run_tasks run)" for k t
  proof (cases "recover_task_run run ?ts k t")
    case (Some p)
    then have "fst p \<in> set []" unfolding recover_listed_iff [OF assms] using that mget_Some_iff [OF assms(2)] by (metis prod.collapse)
    then show ?thesis by simp
  qed (simp add: recovered_task_run_def)
  then have "mmap (recovered_task_run run ?ts) (run_tasks run) = run_tasks run" by (rule mmap_id)
  moreover have "List.map_filter (\<lambda>(k, t). map_option fst (recover_task_run run ?ts k t)) (run_tasks run) = []"
    using assms(1) by (auto simp: recoverExpiredLeases_def Let_def) (metis length_0_conv length_sort)
  ultimately show ?thesis using assms(1) by (simp add: recoverExpiredLeases_def Let_def)
qed

lemma promote_moves:
  assumes "promoteDueRetries run now = (ts, run')" "run_inv run"
  shows "moves run run'" "status_of run' k = (if k \<in> set ts then Some TaskRunReady else status_of run k)"
    "k \<in> set ts \<Longrightarrow> status_of run k = Some TaskRunRetryWaiting" "ts = [] \<Longrightarrow> run' = run"
proof -
  let ?ts = "nextTimestampLocked run now"
  note wf = run_invD(6) [OF assms(2)]
  let ?due = "filter (\<lambda>(k, t). retry_due ?ts t) (run_tasks run)"
  have ts: "ts = sort (map fst ?due)"
    and run': "run' = run\<lparr>run_tasks := mmap (\<lambda>_. promote_task_run ?ts) (run_tasks run), run_updatedAt := (if map fst ?due \<noteq> [] then ?ts else run_updatedAt run)\<rparr>"
    using assms(1) by (auto simp: promoteDueRetries_def Let_def)
  have mem: "k \<in> set ts \<longleftrightarrow> (\<exists>t. mget (run_tasks run) k = Some t \<and> retry_due ?ts t)" for k
    unfolding ts mget_Some_iff [OF wf] by force
  show st: "status_of run' k = (if k \<in> set ts then Some TaskRunReady else status_of run k)" for k
    unfolding mem by (cases "mget (run_tasks run) k") (auto simp: run' status_of_def go_map promote_task_run_def)
  show wait: "status_of run k = Some TaskRunRetryWaiting" if "k \<in> set ts" for k
    using that unfolding mem by (auto simp: status_of_def retry_due_def)
  show "moves run run'"
    using run_step_inv [OF run_step.promote [OF assms(1)] assms(2)] run_step_id [OF run_step.promote [OF assms(1)]] st wait run'
    unfolding moves_def by simp
  show "run' = run" if empty: "ts = []"
  proof -
    have "map fst ?due = []" using empty ts by (metis length_0_conv length_sort)
    then have none: "?due = []" by simp
    have "mmap (\<lambda>_. promote_task_run ?ts) (run_tasks run) = run_tasks run"
      by (rule mmap_id) (use none in \<open>auto simp: promote_task_run_def filter_empty_conv\<close>)
    then show ?thesis using run' none by simp
  qed
qed

section \<open>Frames of the scheduler\<close>

text \<open>The parts of the state that the invariant reads.\<close>

lemma spawnWorker_frame [simp]:
  "sc_run (spawnWorker E slot s) = sc_run s" "sc_store (spawnWorker E slot s) = sc_store s" "sc_broker (spawnWorker E slot s) = sc_broker s"
  "sc_completed (spawnWorker E slot s) = sc_completed s" "sc_ready (spawnWorker E slot s) = sc_ready s"
  "sc_responses (spawnWorker E slot s) = sc_responses s" "sc_pendingClaims (spawnWorker E slot s) = sc_pendingClaims s"
  by (simp_all add: spawnWorker_def Let_def)

lemma replaceWorker_frame [simp]:
  "sc_run (replaceWorker E w s) = sc_run s" "sc_store (replaceWorker E w s) = sc_store s" "sc_broker (replaceWorker E w s) = sc_broker s"
  "sc_completed (replaceWorker E w s) = sc_completed s" "sc_ready (replaceWorker E w s) = sc_ready s"
  "sc_responses (replaceWorker E w s) = sc_responses s" "sc_pendingClaims (replaceWorker E w s) = sc_pendingClaims s"
  by (simp_all add: replaceWorker_def split: option.split)

lemma acknowledgeDelivery_frame:
  assumes "acknowledgeDelivery E d s = (e, s')"
  shows "\<exists>br. s' = s\<lparr>sc_broker := br\<rparr>"
  using assms by (auto simp: acknowledgeDelivery_def split: option.splits prod.splits) (metis sched.surjective sched.update_convs(3))+

lemma respond_frame [simp]:
  "sc_run (respond c j s) = sc_run s" "sc_store (respond c j s) = sc_store s" "sc_broker (respond c j s) = sc_broker s"
  "sc_completed (respond c j s) = sc_completed s" "sc_ready (respond c j s) = sc_ready s"
  "sc_responses (respond c j s) = sc_responses s @ [(c, j)]" "sc_pendingClaims (respond c j s) = sc_pendingClaims s"
  by (simp_all add: respond_def)

definition no_jobs :: "(nat \<times> 'h taskJob option) list \<Rightarrow> bool" where
  "no_jobs rs \<longleftrightarrow> (\<forall>r \<in> set rs. snd r = None)"

text \<open>\<open>same_view s s'\<close>: the run, the store and the caches are the same, and no job was handed out.\<close>

definition same_view :: "('st, 'br, 'd, 'h) sched \<Rightarrow> ('st, 'br, 'd, 'h) sched \<Rightarrow> bool" where
  "same_view s s' \<longleftrightarrow> sc_run s' = sc_run s \<and> sc_store s' = sc_store s \<and> sc_completed s' = sc_completed s \<and> sc_ready s' = sc_ready s \<and>
     (\<exists>rs. sc_responses s' = sc_responses s @ rs \<and> no_jobs rs)"

lemma same_view_refl [simp]: "same_view s s"
  by (simp add: same_view_def no_jobs_def)

lemma same_view_trans: "\<lbrakk>same_view s s1; same_view s1 s2\<rbrakk> \<Longrightarrow> same_view s s2"
  unfolding same_view_def no_jobs_def by fastforce

lemma same_view_respond: "same_view s (respond c None s)"
  by (simp add: same_view_def no_jobs_def)

lemma same_view_ack: "acknowledgeDelivery E d s = (e, s') \<Longrightarrow> same_view s s'"
  by (drule acknowledgeDelivery_frame) (auto simp: same_view_def no_jobs_def)

lemma same_view_pending: "acknowledgePendingClaims E claims s = (e, s') \<Longrightarrow> same_view s s'"
proof (induction claims arbitrary: s)
  case (Cons claim claims)
  obtain e1 s1 where a: "acknowledgeDelivery E (Some (wc_delivery claim)) s = (e1, s1)" by fastforce
  note v = same_view_ack [OF a]
  show ?case
  proof (cases e1)
    case None
    then have "acknowledgePendingClaims E claims (respond (wc_response claim) None s1) = (e, s')" using Cons.prems a by simp
    from Cons.IH [OF this] show ?thesis using same_view_trans [OF v same_view_trans [OF same_view_respond]] by blast
  qed (use Cons.prems a v in simp)
qed simp

section \<open>The invariant of the loop\<close>

definition sched_inv :: "('st, 'br, 'd, 'h) sched \<Rightarrow> bool" where
  "sched_inv s \<longleftrightarrow> live_inv (sc_run s) \<and> cache_inv (sc_run s) (sc_completed s) (sc_ready s) \<and> unlocked (sc_run s)"

lemma sched_inv_run: "sched_inv s \<Longrightarrow> run_inv (sc_run s)"
  by (simp add: sched_inv_def live_inv_def)

lemma same_view_inv: "same_view s s' \<Longrightarrow> sched_inv s' \<longleftrightarrow> sched_inv s"
  by (simp add: same_view_def sched_inv_def)

lemma status_eq_inv:
  assumes "moves (sc_run s) (sc_run s')" "status_of (sc_run s') = status_of (sc_run s)" "sched_inv s"
    "sc_completed s' = sc_completed s" "sc_ready s' = sc_ready s"
  shows "sched_inv s'"
proof -
  have "live_inv (sc_run s')" using assms(3) by (intro moves_live [OF assms(1)]) (auto simp: sched_inv_def assms(2) live_inv_def)
  moreover have "unlocked (sc_run s')" using assms(3) by (intro moves_unlocked [OF assms(1)]) (auto simp: sched_inv_def assms(2))
  ultimately show ?thesis using assms(3) by (simp add: sched_inv_def cache_inv_def assms(2,4,5))
qed

lemma sched_save_NoneE:
  assumes "sched_save E operation s = (None, s')"
  obtains v :: u64 and st where "s' = s\<lparr>sc_run := setPersistedVersion (sc_run s) v, sc_store := st\<rparr>"
    "\<exists>y. st_SaveRun (en_store E) (sc_store s) durability (Snapshot (sc_run s)) = (Inr y, st) \<and> ws_Version y = v \<and> v = run_version (sc_run s) + 1"
proof -
  obtain y st where "st_SaveRun (en_store E) (sc_store s) durability (Snapshot (sc_run s)) = (Inr y, st)"
      "applyPersistedVersion (sc_run s) (Snapshot (sc_run s)) y = Inr (sc_run s')" "s' = s\<lparr>sc_run := sc_run s', sc_store := st\<rparr>"
    using assms by (auto simp: sched_save_def saveRun_def Let_def split: prod.splits sum.splits)
  then show thesis using that [where v = "ws_Version y" and st = st]
    by (simp add: applyPersistedVersion_def Snapshot_def split: if_splits)
qed

lemma sched_save_inv:
  assumes "sched_save E operation s = (None, s')" "sched_inv s"
  shows "sched_inv s'"
  using assms(1)
proof (rule sched_save_NoneE)
  fix v st assume s': "s' = s\<lparr>sc_run := setPersistedVersion (sc_run s) v, sc_store := st\<rparr>"
  show ?thesis
    by (rule status_eq_inv [OF _ _ assms(2)]) (simp_all add: s' persist_moves sched_inv_run [OF assms(2)])
qed

lemma save_or_return_Continue: "save_or_return E operation s = Continue s' \<longleftrightarrow> sched_save E operation s = (None, s')"
  by (auto simp: save_or_return_def split: prod.splits option.splits)

lemma save_or_return_not_None [simp]: "save_or_return E operation s \<noteq> Return None s'"
  by (auto simp: save_or_return_def split: prod.splits option.splits)

lemma sched_save_responses: "sched_save E operation s = (e, s') \<Longrightarrow> sc_responses s' = sc_responses s"
  by (auto simp: sched_save_def split: prod.splits)

lemma sched_stops [simp]: "sched_fail E now cause s \<noteq> Continue s'" "sched_cancel E now cause s \<noteq> Continue s'"
  by (auto simp: sched_fail_def sched_cancel_def split: prod.split)

lemma errors_Join_not_None [simp]: "errors_Join [Some e, e'] \<noteq> None"
  by (simp add: errors_Join_Some)

lemma sched_stops_error [simp]: "sched_fail E now cause s \<noteq> Return None s'" "sched_cancel E now cause s \<noteq> Return None s'"
  by (auto simp: sched_fail_def sched_cancel_def failRun_def cancelRun_def Let_def split: prod.splits sum.splits option.splits)

lemma then_flow_Continue: "then_flow m f = Continue s' \<longleftrightarrow> (\<exists>s. m = Continue s \<and> f s = Continue s')"
  by (cases m) simp_all

lemma then_flow_Return: "then_flow m f = Return e s' \<longleftrightarrow> m = Return e s' \<or> (\<exists>s. m = Continue s \<and> f s = Return e s')"
  by (cases m) simp_all

section \<open>The head of the loop\<close>

lemma mget_fold_definitions: "mget (fold (\<lambda>t. mput (td_ID t) t) ts m) k = Some d \<Longrightarrow> mget m k = Some d \<or> td_ID d = k"
proof (induction ts arbitrary: m)
  case (Cons t ts)
  then have "mget (mput (td_ID t) t m) k = Some d \<or> td_ID d = k" by simp
  then show ?case by (auto simp: go_map split: if_splits)
qed simp

lemma definitions_ID:
  assumes "k \<in> set (task_ids definition)"
  shows "td_ID (requireDefinition (taskDefinitionsByID definition) k) = k"
proof -
  have "mhas (taskDefinitionsByID definition) k"
    using assms by (simp add: taskDefinitionsByID_def mhas_fold_mput task_ids_def)
  then obtain d where d: "mget (taskDefinitionsByID definition) k = Some d" by (auto simp: mhas_def)
  then have "td_ID d = k" using mget_fold_definitions [of "wd_Tasks definition" "[]" k d] by (simp add: taskDefinitionsByID_def)
  then show ?thesis using d by (simp add: requireDefinition_def mget_or_def)
qed

lemma run_Task_id [simp]: "run_Task run k = mget (run_tasks run) k"
  by (cases "mget (run_tasks run) k") (simp_all add: run_Task_def)

lemma apply_recovery_effect:
  assumes "apply_recovery E r (s, lf) = (s', lf')" "lr_TaskID r \<in> set (task_ids (run_definition (sc_run s)))"
  shows "sc_run s' = sc_run s \<and> sc_store s' = sc_store s \<and> sc_broker s' = sc_broker s \<and> sc_completed s' = sc_completed s \<and>
     sc_responses s' = sc_responses s"
    "mhas (sc_ready s') k \<longleftrightarrow> mhas (sc_ready s) k \<or>
       (lr_Outcome r = CompletionRetryScheduled \<and> lr_TaskID r = k \<and> status_of (sc_run s) k = Some TaskRunReady)"
    "lf' = None \<longleftrightarrow> lf = None \<and> lr_Outcome r = CompletionRetryScheduled"
  using assms(1) definitions_ID [OF assms(2)]
  by (auto simp: apply_recovery_def Let_def status_of_def split: if_splits option.splits)

lemma fold_recovery_effect:
  assumes "fold (apply_recovery E) rs (s, lf) = (s', lf')" "\<forall>r \<in> set rs. lr_TaskID r \<in> set (task_ids (run_definition (sc_run s)))"
  shows "sc_run s' = sc_run s \<and> sc_store s' = sc_store s \<and> sc_broker s' = sc_broker s \<and> sc_completed s' = sc_completed s \<and>
     sc_responses s' = sc_responses s"
    "\<forall>k. mhas (sc_ready s') k \<longleftrightarrow> mhas (sc_ready s) k \<or>
       (\<exists>r \<in> set rs. lr_Outcome r = CompletionRetryScheduled \<and> lr_TaskID r = k \<and> status_of (sc_run s) k = Some TaskRunReady)"
    "lf' = None \<longleftrightarrow> lf = None \<and> (\<forall>r \<in> set rs. lr_Outcome r = CompletionRetryScheduled)"
proof -
  have "(sc_run s' = sc_run s \<and> sc_store s' = sc_store s \<and> sc_broker s' = sc_broker s \<and> sc_completed s' = sc_completed s \<and>
      sc_responses s' = sc_responses s) \<and>
    (\<forall>k. mhas (sc_ready s') k \<longleftrightarrow> mhas (sc_ready s) k \<or>
       (\<exists>r \<in> set rs. lr_Outcome r = CompletionRetryScheduled \<and> lr_TaskID r = k \<and> status_of (sc_run s) k = Some TaskRunReady)) \<and>
    (lf' = None \<longleftrightarrow> lf = None \<and> (\<forall>r \<in> set rs. lr_Outcome r = CompletionRetryScheduled))"
    using assms
  proof (induction rs arbitrary: s lf)
    case (Cons r rs)
    obtain s1 lf1 where one: "apply_recovery E r (s, lf) = (s1, lf1)" by fastforce
    have r: "lr_TaskID r \<in> set (task_ids (run_definition (sc_run s)))" using Cons.prems(2) by simp
    note e = apply_recovery_effect [OF one r]
    have "fold (apply_recovery E) rs (s1, lf1) = (s', lf')" using Cons.prems(1) one by simp
    from Cons.IH [OF this] Cons.prems(2) e show ?case by auto
  qed simp
  then show "sc_run s' = sc_run s \<and> sc_store s' = sc_store s \<and> sc_broker s' = sc_broker s \<and> sc_completed s' = sc_completed s \<and>
      sc_responses s' = sc_responses s"
    "\<forall>k. mhas (sc_ready s') k \<longleftrightarrow> mhas (sc_ready s) k \<or>
       (\<exists>r \<in> set rs. lr_Outcome r = CompletionRetryScheduled \<and> lr_TaskID r = k \<and> status_of (sc_run s) k = Some TaskRunReady)"
    "lf' = None \<longleftrightarrow> lf = None \<and> (\<forall>r \<in> set rs. lr_Outcome r = CompletionRetryScheduled)"
    by blast+
qed

lemma fold_promotion_frame:
  "sc_run (fold apply_promotion ts s) = sc_run s \<and> sc_store (fold apply_promotion ts s) = sc_store s \<and>
   sc_broker (fold apply_promotion ts s) = sc_broker s \<and> sc_completed (fold apply_promotion ts s) = sc_completed s \<and>
   sc_responses (fold apply_promotion ts s) = sc_responses s"
  by (induction ts arbitrary: s) (simp_all add: apply_promotion_def)

lemma fold_promotion_ready: "mhas (sc_ready (fold apply_promotion ts s)) k \<longleftrightarrow> k \<in> set ts \<or> mhas (sc_ready s) k"
  by (induction ts arbitrary: s) (auto simp: apply_promotion_def)

lemma release_recovered_view: "release_recovered E rs s = Continue s' \<Longrightarrow> same_view s s'"
proof (induction rs arbitrary: s)
  case (Cons r rs)
  obtain e s1 where a: "acknowledgePendingClaims E (mget_or [] (sc_pendingClaims s) (lr_AttemptID r)) s = (e, s1)" by fastforce
  have "e = None" using Cons.prems a by (cases e) simp_all
  then have "same_view (s1\<lparr>sc_pendingClaims := mdel (lr_AttemptID r) (sc_pendingClaims s1)\<rparr>) s'" using Cons a by simp
  then have "same_view s1 s'" by (simp add: same_view_def)
  then show ?case using same_view_trans [OF same_view_pending [OF a]] by blast
qed simp

lemma release_recovered_error: "release_recovered E rs s \<noteq> Return None s'"
  by (induction rs arbitrary: s) (auto split: prod.split option.split)

text \<open>After recovery and promotion, before anything is saved.\<close>

lemma recovered_inv:
  assumes "sched_inv s" "recoverExpiredLeases (sc_run s) t0 = (rs, run1)" "promoteDueRetries run1 t1 = (ts, run2)"
    "fold (apply_recovery E) rs (s\<lparr>sc_run := run2\<rparr>, None) = (s1, lf)" "s2 = fold apply_promotion ts s1"
  shows "sc_run s2 = run2" "sc_store s2 = sc_store s" "sc_responses s2 = sc_responses s" "moves (sc_run s) run2"
    "rs = [] \<and> ts = [] \<Longrightarrow> run2 = sc_run s" "lf = None \<Longrightarrow> sched_inv s2"
proof -
  note inv = sched_inv_run [OF assms(1)]
  note rm = recover_moves [OF assms(2) inv]
  have inv1: "run_inv run1" using rm(1) by (simp add: moves_def)
  note pm = promote_moves [OF assms(3) inv1]
  show moves: "moves (sc_run s) run2" by (rule moves_trans [OF rm(1) pm(1)])
  have known: "\<forall>r \<in> set rs. lr_TaskID r \<in> set (task_ids (run_definition (sc_run (s\<lparr>sc_run := run2\<rparr>))))"
  proof
    fix r assume "r \<in> set rs"
    then have "status_of (sc_run s) (lr_TaskID r) \<noteq> None" using rm(3) by fastforce
    then show "lr_TaskID r \<in> set (task_ids (run_definition (sc_run (s\<lparr>sc_run := run2\<rparr>))))"
      using run_inv_ids [OF inv] moves by (simp add: moves_def)
  qed
  note fe = fold_recovery_effect [OF assms(4) known]
  show run2: "sc_run s2 = run2" and "sc_store s2 = sc_store s" "sc_responses s2 = sc_responses s"
    using fe(1) fold_promotion_frame [of ts s1] by (simp_all add: assms(5))
  show "run2 = sc_run s" if "rs = [] \<and> ts = []"
    using that recover_nothing [of "sc_run s" t0 run1] assms(2) run_invD(6) [OF inv] pm(4) by simp
  assume "lf = None"
  then have retry: "\<forall>r \<in> set rs. lr_Outcome r = CompletionRetryScheduled" using fe(3) by simp
  have st1: "status_of run1 k \<noteq> Some TaskRunFailed \<and> (status_of run1 k = Some TaskRunSucceeded \<longleftrightarrow> status_of (sc_run s) k = Some TaskRunSucceeded) \<and>
      (status_of run1 k = Some TaskRunReady \<longleftrightarrow> status_of (sc_run s) k = Some TaskRunReady \<or>
        (\<exists>r \<in> set rs. lr_TaskID r = k \<and> status_of run1 k = Some TaskRunReady))" for k
  proof (cases "k \<in> lr_TaskID ` set rs")
    case True
    then obtain r where r: "r \<in> set rs" "lr_TaskID r = k" by blast
    then show ?thesis using rm(3) [OF r(1)] retry by auto
  next
    case False
    then show ?thesis using rm(2) [OF False] assms(1) by (auto simp: sched_inv_def live_inv_def)
  qed
  have "live_inv run2"
    using assms(1) st1 by (intro moves_live [OF moves]) (auto simp: sched_inv_def pm(2))
  moreover have "unlocked run2"
  proof (rule moves_unlocked [OF moves])
    show "unlocked (sc_run s)" using assms(1) by (simp add: sched_inv_def)
    show "status_of (sc_run s) k = Some TaskRunSucceeded" if "status_of run2 k = Some TaskRunSucceeded" for k
      using that st1 [of k] by (simp add: pm(2) split: if_splits)
  qed
  moreover have "cache_inv run2 (sc_completed s2) (sc_ready s2)"
  proof -
    have comp: "sc_completed s2 = sc_completed s" using fe(1) fold_promotion_frame [of ts s1] by (simp add: assms(5))
    have "status_of run2 k = Some TaskRunSucceeded \<longleftrightarrow> status_of (sc_run s) k = Some TaskRunSucceeded" for k
      using st1 [of k] pm(3) [of k] by (auto simp: pm(2))
    moreover have "mhas (sc_ready s2) k \<longleftrightarrow> status_of run2 k = Some TaskRunReady" for k
    proof -
      have "mhas (sc_ready s2) k \<longleftrightarrow> k \<in> set ts \<or> mhas (sc_ready s) k \<or> (\<exists>r \<in> set rs. lr_TaskID r = k \<and> status_of run2 k = Some TaskRunReady)"
        using fe(2) retry by (auto simp: assms(5) fold_promotion_ready)
      moreover have "mhas (sc_ready s) k \<longleftrightarrow> status_of (sc_run s) k = Some TaskRunReady"
        using assms(1) by (simp add: sched_inv_def cache_inv_def)
      ultimately show ?thesis using st1 [of k] by (auto simp: pm(2))
    qed
    ultimately show ?thesis using assms(1) by (simp add: sched_inv_def cache_inv_def comp)
  qed
  ultimately show "sched_inv s2" by (simp add: sched_inv_def run2)
qed

text \<open>What a piece of the loop that goes on may do: leave the run and the store alone or save the run, and answer
  claims without a job.\<close>

definition kept :: "('st, 'br, 'd, 'h) Engine \<Rightarrow> ('st, 'br, 'd, 'h) sched \<Rightarrow> ('st, 'br, 'd, 'h) sched \<Rightarrow> bool" where
  "kept E s s' \<longleftrightarrow> (sc_run s' = sc_run s \<and> sc_store s' = sc_store s) \<or>
     (\<exists>operation s2 s3. sched_save E operation s2 = (None, s3) \<and> run_id (sc_run s2) = run_id (sc_run s) \<and>
        sc_run s' = sc_run s3 \<and> sc_store s' = sc_store s3)"

definition quiet :: "('st, 'br, 'd, 'h) sched \<Rightarrow> ('st, 'br, 'd, 'h) sched \<Rightarrow> bool" where
  "quiet s s' \<longleftrightarrow> (\<exists>rs. sc_responses s' = sc_responses s @ rs \<and> no_jobs rs)"

definition step_ok :: "('st, 'br, 'd, 'h) Engine \<Rightarrow> ('st, 'br, 'd, 'h) sched \<Rightarrow> ('st, 'br, 'd, 'h) sched \<Rightarrow> bool" where
  "step_ok E s s' \<longleftrightarrow> sched_inv s' \<and> kept E s s' \<and> quiet s s'"

lemma sched_save_id:
  assumes "sched_save E operation s = (None, s')"
  shows "run_id (sc_run s') = run_id (sc_run s)"
proof -
  obtain v st where "s' = s\<lparr>sc_run := setPersistedVersion (sc_run s) v, sc_store := st\<rparr>" using assms by (rule sched_save_NoneE)
  then show ?thesis by (simp add: setPersistedVersion_def)
qed

lemma kept_id: "kept E s s' \<Longrightarrow> run_id (sc_run s') = run_id (sc_run s)"
  unfolding kept_def by (auto dest: sched_save_id)

lemma kept_trans: "\<lbrakk>kept E s s1; kept E s1 s2\<rbrakk> \<Longrightarrow> kept E s s2"
  using kept_id [of E s s1] unfolding kept_def by (elim disjE) auto

lemma step_ok_trans: "\<lbrakk>step_ok E s s1; step_ok E s1 s2\<rbrakk> \<Longrightarrow> step_ok E s s2"
  unfolding step_ok_def quiet_def no_jobs_def using kept_trans by fastforce

lemma same_view_ok: "\<lbrakk>same_view s s'; sched_inv s\<rbrakk> \<Longrightarrow> step_ok E s s'"
  using same_view_inv [of s s'] unfolding step_ok_def kept_def quiet_def same_view_def by auto

lemma saved_ok:
  assumes "sched_save E operation s2 = (None, s3)" "sched_inv s2" "sc_responses s2 = sc_responses s" "run_id (sc_run s2) = run_id (sc_run s)"
  shows "step_ok E s s3"
  unfolding step_ok_def kept_def quiet_def
  using sched_save_inv [OF assms(1,2)] sched_save_responses [OF assms(1)] assms by (auto simp: no_jobs_def)

lemma loop_recover_ok:
  assumes "sched_inv s" "loop_recover E now s = Continue s'"
  shows "step_ok E s s'"
proof -
  obtain rs run1 where r: "recoverExpiredLeases (sc_run s) (now 0) = (rs, run1)" by fastforce
  obtain ts run2 where p: "promoteDueRetries run1 (now 1) = (ts, run2)" by fastforce
  obtain s1 lf where f: "fold (apply_recovery E) rs (s\<lparr>sc_run := run2\<rparr>, None) = (s1, lf)" by fastforce
  define s2 where "s2 = fold apply_promotion ts s1"
  note i = recovered_inv [OF assms(1) r p f s2_def]
  have loop: "then_flow (if rs \<noteq> [] \<or> ts \<noteq> [] then
        (case sched_save E ''recover expired leases and due retries'' s2 of
           (Some err, s) \<Rightarrow> sched_fail E (\<lambda>i. now (i + 2)) err s | (None, s) \<Rightarrow> release_recovered E rs s)
        else Continue s2)
      (\<lambda>s. case lf of None \<Rightarrow> Continue s | Some cause \<Rightarrow> sched_fail E (\<lambda>i. now (i + 2)) cause s) = Continue s'"
    using assms(2) unfolding loop_recover_def r prod.case p f Let_def s2_def .
  then have "lf = None" unfolding then_flow_Continue by (cases lf) simp_all
  then have flow: "(if rs \<noteq> [] \<or> ts \<noteq> [] then
      (case sched_save E ''recover expired leases and due retries'' s2 of
         (Some err, s) \<Rightarrow> sched_fail E (\<lambda>i. now (i + 2)) err s | (None, s) \<Rightarrow> release_recovered E rs s)
      else Continue s2) = Continue s'"
    using loop unfolding then_flow_Continue by simp
  have inv: "sched_inv s2" by (rule i(6) [OF \<open>lf = None\<close>])
  have id: "run_id run2 = run_id (sc_run s)" using i(4) by (simp add: moves_def)
  show ?thesis
  proof (cases "rs \<noteq> [] \<or> ts \<noteq> []")
    case True
    then obtain s3 where s3: "sched_save E ''recover expired leases and due retries'' s2 = (None, s3)" "release_recovered E rs s3 = Continue s'"
      using flow by (auto split: prod.splits option.splits)
    have "step_ok E s s3" by (rule saved_ok [OF s3(1) inv]) (simp_all add: i(1,3) id)
    moreover have "step_ok E s3 s'" using release_recovered_view [OF s3(2)] sched_save_inv [OF s3(1) inv] by (rule same_view_ok)
    ultimately show ?thesis by (rule step_ok_trans)
  next
    case False
    then have "s' = s2" using flow by simp
    moreover have "sc_run s2 = sc_run s" "sc_store s2 = sc_store s" using i(1,2,5) False by simp_all
    ultimately show ?thesis using inv i(3) by (auto simp: step_ok_def kept_def quiet_def no_jobs_def)
  qed
qed

lemma loop_complete_Continue:
  "loop_complete E now s = Continue s' \<Longrightarrow> s' = s \<and> length (mkeys (sc_completed s)) \<noteq> length (wd_Tasks (run_definition (sc_run s)))"
  by (auto simp: loop_complete_def split: if_splits sum.splits prod.splits option.splits)

lemma publish_loop_view: "publish_loop E ctx ks s = Continue s' \<Longrightarrow> same_view s s'"
proof (induction ks arbitrary: s)
  case (Cons k ks)
  then have "\<exists>br pub. publish_loop E ctx ks (s\<lparr>sc_broker := br, sc_published := pub\<rparr>) = Continue s'"
    by (auto simp: Let_def split: option.splits if_splits sum.splits prod.splits) (metis sched.surjective sched.update_convs(3,14))
  then obtain br pub where "same_view (s\<lparr>sc_broker := br, sc_published := pub\<rparr>) s'" using Cons.IH by blast
  then show ?case by (simp add: same_view_def)
qed simp

lemma publish_loop_error: "publish_loop E ctx ks s \<noteq> Return None s'"
  by (induction ks arbitrary: s) (auto simp: Let_def split: option.splits if_splits sum.splits prod.splits)

lemma loop_stalled_Continue: "loop_stalled E now s = Continue s' \<Longrightarrow> s' = s"
  by (auto simp: loop_stalled_def split: if_splits)

lemma loop_head_ok:
  assumes "sched_inv s" "loop_head E ctxErr ctx now s = Continue s'"
  shows "step_ok E s s'"
proof -
  obtain s1 s2 s3 where f: "loop_recover E now s = Continue s1" "loop_complete E (\<lambda>i. now (i + 4)) s1 = Continue s2"
      "publishReadyTasks E ctx s2 = Continue s3" "loop_stalled E (\<lambda>i. now (i + 7)) s3 = Continue s'"
    using assms(2) by (cases ctxErr) (auto simp: loop_head_def then_flow_Continue)
  note ok = loop_recover_ok [OF assms(1) f(1)]
  have "s2 = s1" "s' = s3" using loop_complete_Continue [OF f(2)] loop_stalled_Continue [OF f(4)] by simp_all
  then have "same_view s1 s'" using f(3) publish_loop_view by (simp add: publishReadyTasks_def)
  then have "step_ok E s1 s'" using ok by (intro same_view_ok) (simp_all add: step_ok_def)
  then show ?thesis using ok by (rule step_ok_trans [rotated])
qed

section \<open>The branches of the select\<close>

text \<open>A job was handed out: its task has its dependencies behind it and is running as the attempt of the job.\<close>

definition handed :: "('st, 'br, 'd, 'h) sched \<Rightarrow> ('st, 'br, 'd, 'h) sched \<Rightarrow> bool" where
  "handed s s' \<longleftrightarrow> (\<exists>c job task. sc_responses s' = sc_responses s @ [(c, Some job)] \<and>
     deps_done (sc_run s') (td_ID (rq_Task (tj_request job))) \<and>
     mget (run_tasks (sc_run s')) (td_ID (rq_Task (tj_request job))) = Some task \<and>
     tr_Status task = TaskRunRunning \<and> tr_CurrentAttemptID task = rq_AttemptID (tj_request job))"

lemma stale_claim_view: "stale_claim E claim s = Continue s' \<Longrightarrow> same_view s s'"
  by (auto simp: stale_claim_def Let_def same_view_def no_jobs_def split: prod.splits option.splits)

lemma settle_claim_view: "settle_claim E claim s = Continue s' \<Longrightarrow> same_view s s'"
  by (auto simp: settle_claim_def split: prod.splits option.splits intro: same_view_trans [OF same_view_ack same_view_respond])

lemma reject_claim_stops [simp]: "reject_claim E claim operation err s \<noteq> Continue s'"
  by (simp add: reject_claim_def split: prod.split)

lemma lease_claim_ok:
  assumes "sched_inv s" "lease_claim E now claim k task s = Continue s'"
  shows "sched_inv s'" "kept E s s'" "handed s s'"
proof -
  obtain a run where st: "startTaskAttempt (sc_run s) (now 0) k (wc_workerID claim) (cf_leaseDuration (en_config E)) = Inr (a, run)"
    using assms(2) by (auto simp: lease_claim_def split: sum.splits)
  obtain s2 where s2: "sched_save E ''lease delivered task'' (s\<lparr>sc_run := run\<rparr>) = (None, s2)"
      "sc_run s' = sc_run s2" "sc_store s' = sc_store s2" "sc_completed s' = sc_completed s2" "sc_ready s' = mdel k (sc_ready s2)"
      "\<exists>job. sc_responses s' = sc_responses s2 @ [(wc_response claim, Some job)] \<and> rq_AttemptID (tj_request job) = a \<and>
         rq_Task (tj_request job) = cloneTaskDefinition (requireDefinition (taskDefinitionsByID (run_definition (sc_run s2))) k)"
    using assms(2) unfolding lease_claim_def st by (auto simp: then_flow_Continue save_or_return_Continue Let_def)
  obtain v st2 where v: "s2 = s\<lparr>sc_run := setPersistedVersion run v, sc_store := st2\<rparr>"
    using s2(1) by (rule sched_save_NoneE) simp
  note inv = sched_inv_run [OF assms(1)] and m = start_moves [OF st sched_inv_run [OF assms(1)]]
  have run: "run_inv run" using m(1) by (simp add: moves_def)
  have status: "status_of (sc_run s') j = (if j = k then Some TaskRunRunning else status_of (sc_run s) j)" for j
    using m(3) [of j] by (simp add: s2(2) v persist_moves)
  have mv: "moves (sc_run s) (sc_run s')" using moves_trans [OF m(1) persist_moves(1) [OF run, of v]] by (simp add: s2(2) v)
  have live: "live_inv (sc_run s')" using assms(1) by (intro moves_live [OF mv]) (auto simp: status sched_inv_def live_inv_def)
  moreover have "unlocked (sc_run s')" using assms(1) by (intro moves_unlocked [OF mv]) (auto simp: status sched_inv_def split: if_splits)
  moreover have "cache_inv (sc_run s') (sc_completed s') (sc_ready s')"
    using assms(1) m(2) by (auto simp: sched_inv_def cache_inv_def status s2(4,5) v mhas_mdel)
  ultimately show "sched_inv s'" by (simp add: sched_inv_def)
  show "kept E s s'" unfolding kept_def using s2(1-3) m(1)
    by (intro disjI2 exI [of _ "''lease delivered task''"] exI [of _ "s\<lparr>sc_run := run\<rparr>"] exI [of _ s2]) (simp add: moves_def)
  have "k \<in> set (task_ids (run_definition (sc_run s2)))" using run_inv_ids [OF inv, of k] m(1,2) by (simp add: v setPersistedVersion_def moves_def)
  from definitions_ID [OF this] obtain job where job: "sc_responses s' = sc_responses s @ [(wc_response claim, Some job)]"
      "rq_AttemptID (tj_request job) = a" "td_ID (rq_Task (tj_request job)) = k"
    using s2(6) by (auto simp: cloneTaskDefinition_def v)
  have "deps_done (sc_run s') k" using live status [of k] by (simp add: live_inv_def)
  moreover have "\<exists>t. mget (run_tasks (sc_run s')) k = Some t \<and> tr_Status t = TaskRunRunning \<and> tr_CurrentAttemptID t = a"
    using st by (rule startTaskAttempt_InrE) (simp add: s2(2) v setPersistedVersion_def go_map)
  ultimately show "handed s s'" unfolding handed_def using job by (intro exI [of _ "wc_response claim"] exI [of _ job]) auto
qed

lemma handle_claim_ok:
  assumes "sched_inv s" "handle_claim E now claim s = Continue s'"
  shows "sched_inv s' \<and> kept E s s' \<and> (quiet s s' \<or> handed s s')"
proof -
  consider "stale_claim E claim s = Continue s'" | "settle_claim E claim s = Continue s'"
    | k task where "lease_claim E now claim k task s = Continue s'"
    | pending where "s' = s\<lparr>sc_pendingClaims := pending\<rparr>"
    using assms(2) by (auto simp: handle_claim_def Let_def split: if_splits sum.splits option.splits)
  then show ?thesis
  proof cases
    case 3
    then show ?thesis using lease_claim_ok [OF assms(1)] by blast
  next
    case 4
    then have "same_view s s'" by (simp add: same_view_def no_jobs_def)
    from same_view_ok [OF this assms(1), of E] show ?thesis by (auto simp: step_ok_def)
  qed (use same_view_ok [OF stale_claim_view assms(1), of E claim s' E] same_view_ok [OF settle_claim_view assms(1), of E claim s' E] in
      \<open>auto simp: step_ok_def\<close>)
qed

lemma progress_view:
  assumes "(case bk_Progress B (sc_broker s) ctx d of
     (Some err, br) \<Rightarrow> Return (Some (f err)) (s\<lparr>sc_broker := br\<rparr>) | (None, br) \<Rightarrow> Continue (s\<lparr>sc_broker := br\<rparr>)) = Continue s'"
  shows "same_view s s'"
proof -
  obtain e br where "bk_Progress B (sc_broker s) ctx d = (e, br)" by fastforce
  then show ?thesis using assms by (cases e) (auto simp: same_view_def no_jobs_def)
qed

lemma handle_heartbeat_ok:
  assumes "sched_inv s" "handle_heartbeat E now w s = Continue s'"
  shows "step_ok E s s'"
proof -
  consider "s' = s" | run s2 where "recordWorkerHeartbeat (sc_run s) (now 0) w (cf_leaseDuration (en_config E)) = Inr run"
      "sched_save E ''record worker heartbeat'' (s\<lparr>sc_run := run\<rparr>) = (None, s2)" "same_view s2 s'"
    using assms(2) by (auto simp: handle_heartbeat_def then_flow_Continue save_or_return_Continue split: option.splits if_splits sum.splits
        dest!: progress_view)
  then show ?thesis
  proof cases
    case 1
    then show ?thesis using same_view_ok [OF same_view_refl assms(1)] by simp
  next
    case (2 run s2)
    note m = heartbeat_moves [OF 2(1) sched_inv_run [OF assms(1)]]
    have inv: "sched_inv (s\<lparr>sc_run := run\<rparr>)" by (rule status_eq_inv [OF _ _ assms(1)]) (simp_all add: m)
    have "step_ok E s s2" using m(1) by (intro saved_ok [OF 2(2) inv]) (simp_all add: moves_def)
    moreover have "step_ok E s2 s'" by (rule same_view_ok [OF 2(3) sched_save_inv [OF 2(2) inv]])
    ultimately show ?thesis by (rule step_ok_trans)
  qed
qed

lemma settle_result_view:
  assumes "settle_result E now result failure s = Continue s'"
  shows "same_view s s'" "failure = None"
proof -
  obtain e1 s1 where a: "acknowledgeDelivery E (Some (rs_delivery result)) s = (e1, s1)" by fastforce
  obtain e2 s2 where p: "acknowledgePendingClaims E (mget_or [] (sc_pendingClaims s1) (rs_attemptID result)) s1 = (e2, s2)" by fastforce
  have f: "e1 = None" "e2 = None" "failure = None" "s' = s2\<lparr>sc_pendingClaims := mdel (rs_attemptID result) (sc_pendingClaims s2)\<rparr>"
    using assms by (cases e1; cases e2; cases failure; simp add: settle_result_def a p Let_def)+
  have "same_view s2 s'" unfolding f(4) by (simp add: same_view_def no_jobs_def)
  then show "same_view s s'" using same_view_trans [OF same_view_ack [OF a]] same_view_trans [OF same_view_pending [OF p]] by blast
  show "failure = None" by (rule f(3))
qed

lemma complete_failed_err: "completeTaskAttempt run now t tr w a out err = Inr (CompletionFailed, run') \<Longrightarrow> err \<noteq> None"
  by (erule completeTaskAttempt_InrE, simp) (auto simp: complete_task_run_def Let_def split: option.splits)

lemma record_outcome_ok:
  assumes "sched_inv s" "completeTaskAttempt (sc_run s) t0 (rs_taskID result) (rs_taskRunID result) (rs_workerID result) (rs_attemptID result)
      (rs_output result) (rs_err result) = Inr (oc, run)" "oc \<noteq> CompletionFailed"
    "record_outcome E now result oc (s\<lparr>sc_run := run\<rparr>) = Continue s'"
  shows "step_ok E s s'"
proof (cases "oc = CompletionIgnored")
  case True
  from assms(2) have "run = sc_run s"
  proof (cases rule: completeTaskAttempt_InrE)
    case (accepted task task')
    then show ?thesis using complete_task_status(2) [OF accepted(3)] True by simp
  qed simp
  then have "s' = s" using assms(4) True by (simp add: record_outcome_def)
  then show ?thesis using same_view_ok [OF same_view_refl assms(1)] by simp
next
  case False
  let ?t = "rs_taskID result"
  note inv = sched_inv_run [OF assms(1)]
  obtain y where y: "moves (sc_run s) run" "status_of (sc_run s) ?t = Some TaskRunRunning"
      "\<And>k. status_of run k = (if k = ?t then Some y else status_of (sc_run s) k)"
      "oc = CompletionSucceeded \<longleftrightarrow> y = TaskRunSucceeded" "oc = CompletionFailed \<longleftrightarrow> y = TaskRunFailed"
      "oc = CompletionRetryScheduled \<longleftrightarrow> y \<in> {TaskRunReady, TaskRunRetryWaiting}"
    using complete_moves [OF assms(2) inv False] by blast
  have run: "run_inv run" "run_id run = run_id (sc_run s)" using y(1) by (simp_all add: moves_def)
  have live: "live_inv run"
    using assms(1) by (intro moves_live [OF y(1)]) (use y(3,5) assms(3) in \<open>auto simp: sched_inv_def live_inv_def\<close>)
  have cache: "cache_inv (sc_run s) (sc_completed s) (sc_ready s)" using assms(1) by (simp add: sched_inv_def)
  show ?thesis
  proof (cases oc)
    case CompletionSucceeded
    let ?c = "mput ?t () (sc_completed s)"
    have comp: "mhas ?c k \<longleftrightarrow> status_of run k = Some TaskRunSucceeded" for k
      using cache y(3,4) CompletionSucceeded by (simp add: cache_inv_def)
    obtain new run2 where m: "markNewReady (\<lambda>i. now (i + 2)) run (run_definition run) ?c = (Inr new, run2)"
        "td_ID ` set new = {k. status_of run k = Some TaskRunPending \<and> deps_done run k}" "new = [] \<longrightarrow> run2 = run"
        "\<forall>k. status_of run2 k = (if status_of run k = Some TaskRunPending \<and> deps_done run k then Some TaskRunReady else status_of run k)"
        "run_inv run2" "run_definition run2 = run_definition run" "run_status run2 = run_status run" "run_id run2 = run_id run"
      by (rule markNewReady_marks [where now = "\<lambda>i. now (i + 2)", OF run(1) comp])
    note ml = mark_live [OF live m(5-7) m(4) [rule_format]]
    define s2 where "s2 = add_ready new (s\<lparr>sc_completed := ?c, sc_run := run2\<rparr>)"
    have save: "sched_save E ''record completion and unlock dependencies'' s2 = (None, s')"
      using assms(4) CompletionSucceeded m(1) by (simp add: record_outcome_def save_or_return_Continue s2_def add_ready_def del: add_2_eq_Suc')
    have fields: "sc_run s2 = run2" "sc_completed s2 = ?c" "sc_responses s2 = sc_responses s" by (simp_all add: s2_def add_ready_def)
    have "mhas (sc_ready s2) k \<longleftrightarrow> status_of run2 k = Some TaskRunReady" for k
      using cache y(2,3,4) CompletionSucceeded ml(4) [of k] unfolding s2_def mhas_add_ready m(2) by (auto simp: cache_inv_def)
    then have "cache_inv run2 ?c (sc_ready s2)" using cache comp ml(3) by (simp add: cache_inv_def)
    then have "sched_inv s2" using ml(1,2) by (simp add: sched_inv_def fields)
    then show ?thesis by (rule saved_ok [OF save]) (simp_all add: fields m(8) run(2))
  next
    case CompletionRetryScheduled
    let ?u = "s\<lparr>sc_run := run\<rparr>"
    define s2 where "s2 = (case run_Task (sc_run ?u) ?t of None \<Rightarrow> ?u
             | Some task \<Rightarrow> if tr_Status task = TaskRunReady
                 then ?u\<lparr>sc_ready := mput ?t (requireDefinition (taskDefinitionsByID (run_definition (sc_run ?u))) ?t) (sc_ready ?u)\<rparr>
                 else ?u)"
    have save: "sched_save E ''schedule task retry'' s2 = (None, s')"
      using assms(4) unfolding record_outcome_def CompletionRetryScheduled CompletionOutcome.case s2_def save_or_return_Continue .
    have fields: "sc_run s2 = run" "sc_completed s2 = sc_completed s" "sc_responses s2 = sc_responses s"
      by (simp_all add: s2_def split: option.split)
    have "mhas (sc_ready s2) k \<longleftrightarrow> mhas (sc_ready s) k \<or> (k = ?t \<and> status_of run ?t = Some TaskRunReady)" for k
      by (auto simp: s2_def status_of_def split: option.split)
    then have ready: "mhas (sc_ready s2) k \<longleftrightarrow> status_of run k = Some TaskRunReady" for k
      using cache y(2,3) by (auto simp: cache_inv_def)
    have ny: "y \<noteq> TaskRunSucceeded" using y(4) CompletionRetryScheduled by simp
    have "unlocked run" using assms(1) by (intro moves_unlocked [OF y(1)]) (use y(3) ny in \<open>auto simp: sched_inv_def split: if_splits\<close>)
    moreover have "cache_inv run (sc_completed s) (sc_ready s2)" using cache ready y(2,3) ny by (auto simp: cache_inv_def)
    ultimately have "sched_inv s2" using live by (simp add: sched_inv_def fields)
    then show ?thesis by (rule saved_ok [OF save]) (simp_all add: fields run(2))
  qed (use False assms(3) in simp_all)
qed

lemma handle_result_ok:
  assumes "sched_inv s" "handle_result E ctxErr now result s = Continue s'"
  shows "step_ok E s s'"
proof -
  define s1 where "s1 = s\<lparr>sc_activeDeliveries := mdel (rs_workerID result) (sc_activeDeliveries s), sc_inFlight := mdel (rs_attemptID result) (sc_inFlight s)\<rparr>"
  have v1: "same_view s s1" by (simp add: s1_def same_view_def no_jobs_def)
  have inv1: "sched_inv s1" using same_view_inv [OF v1] assms(1) by simp
  have "ctxErr = None" using assms(2) by (cases ctxErr) (simp_all add: handle_result_def)
  then obtain oc run s2 where c: "completeTaskAttempt (sc_run s1) (now 0) (rs_taskID result) (rs_taskRunID result) (rs_workerID result)
        (rs_attemptID result) (rs_output result) (rs_err result) = Inr (oc, run)"
      "record_outcome E (\<lambda>i. now (i + 3)) result oc (s1\<lparr>sc_run := run\<rparr>) = Continue s2"
      "settle_result E (\<lambda>i. now (i + 1)) result (terminal_failure (run_id run) result oc) s2 = Continue s'"
    using assms(2) by (auto simp: handle_result_def Let_def s1_def then_flow_Continue split: sum.splits)
  have "oc \<noteq> CompletionFailed"
    using settle_result_view(2) [OF c(3)] complete_failed_err [of "sc_run s1" "now 0" "rs_taskID result" "rs_taskRunID result"
        "rs_workerID result" "rs_attemptID result" "rs_output result" "rs_err result" run] c(1)
    by (auto simp: terminal_failure_def)
  from record_outcome_ok [OF inv1 c(1) this c(2)] have ok: "step_ok E s1 s2" .
  then have "step_ok E s2 s'" by (intro same_view_ok [OF settle_result_view(1) [OF c(3)]]) (simp add: step_ok_def)
  from step_ok_trans [OF same_view_ok [OF v1 assms(1)] step_ok_trans [OF ok this]] show ?thesis .
qed

lemma handle_event_ok:
  assumes "sched_inv s" "handle_event E ctxErr now ev s = Continue s'"
  shows "sched_inv s' \<and> kept E s s' \<and> (quiet s s' \<or> handed s s')"
proof -
  have view: ?thesis if "same_view s s'" using same_view_ok [OF that assms(1), of E] by (auto simp: step_ok_def)
  show ?thesis
  proof (cases ev)
    case (ClaimEvent claim)
    then show ?thesis using assms(2) handle_claim_ok [OF assms(1)] by simp
  next
    case (HeartbeatEvent w)
    then show ?thesis using assms(2) handle_heartbeat_ok [OF assms(1)] by (simp add: step_ok_def)
  next
    case (ResultEvent result)
    then show ?thesis using assms(2) handle_result_ok [OF assms(1)] by (simp add: step_ok_def)
  next
    case (LostEvent w slot)
    then show ?thesis using assms(2) by (intro view) (auto simp: handle_lost_def same_view_def no_jobs_def)
  next
    case (BrokerErrorEvent w slot err)
    then show ?thesis using assms(2) by (intro view) (auto simp: handle_broker_error_def split: if_splits)
  next
    case TimerEvent
    then show ?thesis using assms(2) by (intro view) simp
  qed (use assms(2) in simp)
qed

lemma loop_iteration_ok:
  assumes "sched_inv s" "loop_iteration E it s = Continue s'"
  shows "sched_inv s'" "kept E s s'" "quiet s s' \<or> (\<exists>s1. quiet s s1 \<and> handed s1 s')"
proof -
  obtain s1 where f: "loop_head E (it_ctxErr it) (it_publishContext it) (it_headNow it) s = Continue s1"
      "handle_event E (it_resultErr it) (it_eventNow it) (it_event it) (s1\<lparr>sc_broker := it_workers it (sc_broker s1)\<rparr>) = Continue s'"
    using assms(2) by (auto simp: loop_iteration_def then_flow_Continue)
  note h = loop_head_ok [OF assms(1) f(1)]
  then have "sched_inv (s1\<lparr>sc_broker := it_workers it (sc_broker s1)\<rparr>)" by (simp add: step_ok_def sched_inv_def)
  from handle_event_ok [OF this f(2)] have e: "sched_inv s' \<and> kept E s1 s' \<and> (quiet s1 s' \<or> handed s1 s')"
    by (simp add: kept_def quiet_def handed_def)
  then show "sched_inv s'" "kept E s s'" using h kept_trans by (auto simp: step_ok_def)
  show "quiet s s' \<or> (\<exists>s1. quiet s s1 \<and> handed s1 s')"
    using e h unfolding step_ok_def quiet_def no_jobs_def by fastforce
qed

section \<open>The scheduler never stalls\<close>

lemma waiting_iff:
  assumes "run_inv run"
  shows "snd (nextReliabilityDeadline run) \<longleftrightarrow> (\<exists>k. status_of run k = Some TaskRunRunning \<or> status_of run k = Some TaskRunRetryWaiting)"
proof -
  note i = run_invD [OF assms]
  have mem: "t \<in> set (mvals (run_tasks run)) \<longleftrightarrow> (\<exists>k. mget (run_tasks run) k = Some t)" for t by (rule set_mvals [OF i(6)])
  have pos: "0 < c" if t: "t \<in> set (mvals (run_tasks run))" "candidate t = Some c" for t c
  proof -
    obtain k where "mget (run_tasks run) k = Some t" using t(1) unfolding mem ..
    from candidate_pos [OF i(9) [OF this] i(2) t(2)] show ?thesis .
  qed
  have "snd (nextReliabilityDeadline run) \<longleftrightarrow> (\<exists>t \<in> set (mvals (run_tasks run)). leaseless t \<or> candidate t \<noteq> None)"
  proof (cases "deadline_loop (run_updatedAt run) (mvals (run_tasks run)) zero_time")
    case (Inl x)
    then show ?thesis using deadline_loop_Inl_iff [of "run_updatedAt run" "mvals (run_tasks run)" zero_time x]
      by (auto simp: nextReliabilityDeadline_def)
  next
    case (Inr x)
    then have "\<not> (\<exists>t \<in> set (mvals (run_tasks run)). leaseless t)"
      using deadline_loop_Inl_iff [of "run_updatedAt run" "mvals (run_tasks run)" zero_time] by auto
    moreover have "x = 0 \<longleftrightarrow> (\<forall>t \<in> set (mvals (run_tasks run)). candidate t = None)"
      using deadline_loop_Inr [OF Inr pos] unfolding zero_time_def by auto
    ultimately show ?thesis using Inr by (auto simp: nextReliabilityDeadline_def IsZero_def zero_time_def)
  qed
  also have "\<dots> \<longleftrightarrow> (\<exists>k t. mget (run_tasks run) k = Some t \<and> (tr_Status t = TaskRunRunning \<or> tr_Status t = TaskRunRetryWaiting))"
    unfolding Bex_def mem by (auto simp: leaseless_def candidate_def)
  finally show ?thesis unfolding status_of_Some by blast
qed

lemma not_stalled:
  assumes "sched_inv s" "length (mkeys (sc_completed s)) \<noteq> length (wd_Tasks (run_definition (sc_run s)))"
  shows "\<not> stalled s"
proof
  assume st: "stalled s"
  let ?run = "sc_run s" and ?d = "run_definition (sc_run s)"
  let ?V = "set (task_ids ?d)" and ?dp = "set \<circ> deps_of ?d" and ?done = "set (mkeys (sc_completed s))"
  note inv = sched_inv_run [OF assms(1)]
  have valid: "structurally_valid ?d" "acyclic {(d, t). t \<in> ?V \<and> d \<in> ?dp t}"
    using run_invD(4) [OF inv] by (simp_all add: workflow_Validate_iff dep_rel_def)
  have cache: "cache_inv ?run (sc_completed s) (sc_ready s)" using assms(1) by (simp add: sched_inv_def)
  have done_iff: "k \<in> ?done \<longleftrightarrow> status_of ?run k = Some TaskRunSucceeded" for k
    using cache by (simp add: cache_inv_def mhas_mkeys)
  have "status_of ?run k = Some TaskRunPending \<or> status_of ?run k = Some TaskRunSucceeded" if k: "k \<in> ?V" for k
  proof -
    obtain x where x: "status_of ?run k = Some x" using run_inv_ids [OF inv, of k] k by auto
    have "x \<noteq> TaskRunReady" using st cache x by (auto simp: stalled_def cache_inv_def mhas_def)
    moreover have "x \<noteq> TaskRunRunning" "x \<noteq> TaskRunRetryWaiting" using st waiting_iff [OF inv] x by (auto simp: stalled_def)
    ultimately show ?thesis using assms(1) x unfolding sched_inv_def live_inv_def by blast
  qed
  then have avail: "available ?V ?dp ?done = {}"
    using assms(1) done_iff unfolding sched_inv_def unlocked_def deps_done_def available_def by fastforce
  have sub: "?done \<subseteq> ?V" using done_iff run_inv_ids [OF inv] by auto
  have "?dp t \<subseteq> ?V" if "t \<in> ?V" for t using structurally_valid_deps(2) [OF valid(1) that] by simp
  from available_empty_acyclic [OF List.finite_set this sub avail valid(2)] have "?done = ?V" .
  moreover have "distinct (mkeys (sc_completed s))" using cache by (simp add: cache_inv_def wf_map_def mkeys_def)
  moreover have "distinct (task_ids ?d)" using valid(1) by (simp add: structurally_valid_def)
  ultimately have "length (mkeys (sc_completed s)) = length (task_ids ?d)" by (metis distinct_card)
  then show False using assms(2) by (simp add: task_ids_def)
qed

section \<open>Starting\<close>

lemma set_sortedTasks: "run_inv run \<Longrightarrow> t \<in> set (sortedTasksLocked run) \<longleftrightarrow> mget (run_tasks run) (tr_TaskID t) = Some t"
  using run_invD(9) [of run] set_mvals [OF run_invD(6), of run t] by (auto simp: sortedTasksLocked_def task_inv_def Let_def)

lemma mhas_fold_if:
  "mhas (fold (\<lambda>x m. if P x then mput (f x) (g x) m else m) xs m) k \<longleftrightarrow> mhas m k \<or> (\<exists>x \<in> set xs. P x \<and> f x = k)"
  by (induction xs arbitrary: m) auto

lemma wf_map_fold_if: "wf_map m \<Longrightarrow> wf_map (fold (\<lambda>x m. if P x then mput (f x) (g x) m else m) xs m)"
  by (induction xs arbitrary: m) auto

lemma completedTaskIDs_spec:
  assumes "run_inv run"
  shows "wf_map (completedTaskIDs run)" "mhas (completedTaskIDs run) k \<longleftrightarrow> status_of run k = Some TaskRunSucceeded"
proof -
  show "wf_map (completedTaskIDs run)" by (simp add: completedTaskIDs_def wf_map_fold_if)
  have "mhas (completedTaskIDs run) k \<longleftrightarrow> (\<exists>t. mget (run_tasks run) (tr_TaskID t) = Some t \<and> tr_Status t = TaskRunSucceeded \<and> tr_TaskID t = k)"
    unfolding completedTaskIDs_def mhas_fold_if Bex_def set_sortedTasks [OF assms] by (simp add: mhas_def)
  then show "mhas (completedTaskIDs run) k \<longleftrightarrow> status_of run k = Some TaskRunSucceeded"
    using run_invD(9) [OF assms, of k] by (auto simp: status_of_Some task_inv_def Let_def)
qed

lemma existingReadyTasks_spec:
  assumes "run_inv run"
  shows "td_ID ` set (existingReadyTasks run (run_definition run)) = {k. status_of run k = Some TaskRunReady}"
proof -
  have "td_ID (requireDefinition (taskDefinitionsByID (run_definition run)) (tr_TaskID t)) = tr_TaskID t"
    if "mget (run_tasks run) (tr_TaskID t) = Some t" for t
    using run_inv_ids [OF assms, of "tr_TaskID t"] that by (intro definitions_ID) (simp add: status_of_def)
  then have "td_ID ` set (existingReadyTasks run (run_definition run)) =
      {tr_TaskID t | t. mget (run_tasks run) (tr_TaskID t) = Some t \<and> tr_Status t = TaskRunReady}"
    by (force simp: existingReadyTasks_def sortTasks_def Let_def set_sortedTasks [OF assms])
  also have "\<dots> = {k. status_of run k = Some TaskRunReady}"
    using run_invD(9) [OF assms] by (auto simp: status_of_Some task_inv_def Let_def)
  finally show ?thesis .
qed

lemma fold_spawn_frame:
  "sc_run (fold (\<lambda>slot. spawnWorker E slot) slots s) = sc_run s" "sc_store (fold (\<lambda>slot. spawnWorker E slot) slots s) = sc_store s"
  "sc_completed (fold (\<lambda>slot. spawnWorker E slot) slots s) = sc_completed s" "sc_ready (fold (\<lambda>slot. spawnWorker E slot) slots s) = sc_ready s"
  "sc_responses (fold (\<lambda>slot. spawnWorker E slot) slots s) = sc_responses s"
  by (induction slots arbitrary: s) simp_all

lemma prepare_sched_ok:
  fixes E :: "('st, 'br, 'd, 'h) Engine"
  assumes "live_inv run" "prepare_sched E now handlers run st br = Continue s"
  obtains s0 where "sc_run s0 = run" "sc_store s0 = st" "sc_responses s0 = []" "step_ok E s0 s"
proof -
  let ?c = "completedTaskIDs run"
  have inv: "run_inv run" using assms(1) by (simp add: live_inv_def)
  note comp = completedTaskIDs_spec [OF inv]
  define s0 :: "('st, 'br, 'd, 'h) sched" where "s0 = add_ready (existingReadyTasks run (run_definition run))
    \<lparr>sc_run = run, sc_store = st, sc_broker = br, sc_handlers = handlers, sc_completed = ?c, sc_ready = [],
     sc_workers = [], sc_currentBySlot = [], sc_generations = [], sc_spawned = [], sc_inFlight = [],
     sc_activeDeliveries = [], sc_pendingClaims = [], sc_published = [], sc_responses = []\<rparr>"
  obtain new run1 where m: "markNewReady (\<lambda>i. now (i + 2)) run (run_definition run) ?c = (Inr new, run1)"
      "td_ID ` set new = {k. status_of run k = Some TaskRunPending \<and> deps_done run k}" "new = [] \<longrightarrow> run1 = run"
      "\<forall>k. status_of run1 k = (if status_of run k = Some TaskRunPending \<and> deps_done run k then Some TaskRunReady else status_of run k)"
      "run_inv run1" "run_definition run1 = run_definition run" "run_status run1 = run_status run" "run_id run1 = run_id run"
    by (rule markNewReady_marks [where now = "\<lambda>i. now (i + 2)", OF inv comp(2)])
  note ml = mark_live [OF assms(1) m(5-7) m(4) [rule_format]]
  define s1 where "s1 = add_ready new (s0\<lparr>sc_run := run1\<rparr>)"
  have f0: "sc_run s0 = run" "sc_store s0 = st" "sc_responses s0 = []" "sc_completed s0 = ?c" by (simp_all add: s0_def add_ready_def)
  have f1: "sc_run s1 = run1" "sc_store s1 = st" "sc_responses s1 = []" "sc_completed s1 = ?c" by (simp_all add: s1_def add_ready_def f0)
  have "mhas (sc_ready s1) k \<longleftrightarrow> status_of run1 k = Some TaskRunReady" for k
    using existingReadyTasks_spec [OF inv] unfolding s1_def mhas_add_ready m(2) ml(4) by (simp add: s0_def mhas_add_ready) (simp add: mhas_def)
  then have inv1: "sched_inv s1" using ml comp by (simp add: sched_inv_def f1 cache_inv_def)
  have flow: "then_flow (if new \<noteq> [] then
        (case sched_save E ''make dependency-ready tasks schedulable'' s1 of (Some err, s) \<Rightarrow> sched_fail E now err s | (None, s) \<Rightarrow> Continue s)
      else Continue s1)
      (\<lambda>s. let s = fold (\<lambda>slot. spawnWorker E slot) (map int [1 ..< nat (en_workerCount E) + 1]) s
           in Continue (s\<lparr>sc_inFlight := initial_inFlight (sc_run s)\<rparr>)) = Continue s"
    using assms(2) unfolding prepare_sched_def Let_def s0_def [symmetric] f0(4) m(1) prod.case sum.case s1_def [symmetric] .
  then obtain s2 where s2: "(if new \<noteq> [] then
        (case sched_save E ''make dependency-ready tasks schedulable'' s1 of (Some err, s) \<Rightarrow> sched_fail E now err s | (None, s) \<Rightarrow> Continue s)
      else Continue s1) = Continue s2" "same_view s2 s"
    unfolding then_flow_Continue by (auto simp: Let_def same_view_def no_jobs_def fold_spawn_frame)
  have "step_ok E s0 s2"
  proof (cases "new = []")
    case True
    then have "s2 = s1" using s2(1) by simp
    then show ?thesis using inv1 m(3) True by (simp add: step_ok_def kept_def quiet_def no_jobs_def f0 f1)
  next
    case False
    then have "sched_save E ''make dependency-ready tasks schedulable'' s1 = (None, s2)"
      using s2(1) by (auto split: prod.splits option.splits)
    then show ?thesis by (rule saved_ok [OF _ inv1]) (simp_all add: f0 f1 m(8))
  qed
  moreover from this have "step_ok E s2 s" by (intro same_view_ok [OF s2(2)]) (simp add: step_ok_def)
  ultimately have "step_ok E s0 s" by (rule step_ok_trans)
  then show thesis by (rule that [OF f0(1-3)])
qed

lemma schedule_loop_Continue:
  assumes "sched_inv s" "schedule_loop E its s = Continue s'"
  shows "sched_inv s' \<and> kept E s s'"
  using assms
proof (induction its arbitrary: s)
  case Nil
  then show ?case by (simp add: kept_def)
next
  case (Cons it its)
  then obtain s1 where s1: "loop_iteration E it s = Continue s1" "schedule_loop E its s1 = Continue s'" by (auto simp: then_flow_Continue)
  note ok = loop_iteration_ok [OF Cons.prems(1) s1(1)]
  show ?case using Cons.IH [OF ok(1) s1(2)] kept_trans [OF ok(2)] by blast
qed

text \<open>A run that \<open>Execute\<close> schedules.\<close>

lemma live_fresh:
  assumes "newWorkflowRun runID definition t0 = Inr run0" "0 < t0" "transitionWorkflow (setPersistedVersion run0 v) t1 WorkflowRunRunning = Inr run1"
  shows "live_inv (setPersistedVersion run1 v')"
proof -
  have inv0: "run_inv run0" by (rule newWorkflowRun_inv [OF assms(1,2)])
  have inv: "run_inv (setPersistedVersion run1 v')"
    by (rule run_step_inv [OF run_step.persist run_step_inv [OF run_step.flow [OF assms(3)] run_step_inv [OF run_step.persist inv0]]])
  have tasks: "run_tasks run1 = run_tasks run0" "run_status run1 = WorkflowRunRunning"
    using assms(3) by (auto simp: transitionWorkflow_def setPersistedVersion_def split: if_splits)
  have "status_of (setPersistedVersion run1 v') k = Some x \<Longrightarrow> x = TaskRunPending" for k x
    using assms(1) by (rule newWorkflowRun_InrE)
      (auto simp: status_of_def setPersistedVersion_def tasks new_task_run_def simp del: map_of_map_keys dest!: map_of_SomeD)
  then show ?thesis using inv tasks unfolding live_inv_def by (auto simp: setPersistedVersion_def)
qed

lemma saveRun_NoneE:
  assumes "saveRun store ctx st run operation = (None, run', st')"
  obtains y where "st_SaveRun store st ctx (Snapshot run) = (Inr y, st')" "run' = setPersistedVersion run (ws_Version y)"
    "ws_Version y = run_version run + 1"
  using assms by (auto simp: saveRun_def Let_def applyPersistedVersion_def Snapshot_def split: prod.splits sum.splits if_splits)

lemma Execute_SchedulingE:
  assumes "Execute E ctx ctxErr now its runID definition st br = Scheduling flow" "0 < now 0"
  obtains handlers run run' st1 st2 where "live_inv run'" "run_id run' = runID" "run_definition run' = cloneDefinition definition"
    "saveRun (en_store E) durability st1 run ''start workflow run'' = (None, run', st2)" "run_id run = runID"
    "flow = executeBrokerRun E (\<lambda>i. now (i + 2)) its handlers run' st2 br"
proof -
  obtain run0 where run0: "newWorkflowRun runID definition (now 0) = Inr run0"
    using assms(1) by (auto simp: Execute_def split: if_splits sum.splits)
  obtain handlers v run run' st1 st2 where e: "transitionWorkflow (setPersistedVersion run0 v) (now 1) WorkflowRunRunning = Inr run"
      "saveRun (en_store E) durability st1 run ''start workflow run'' = (None, run', st2)"
      "flow = executeBrokerRun E (\<lambda>i. now (i + 2)) its handlers run' st2 br"
    using assms(1) run0
    by (auto simp: Execute_def finished_run_def Let_def applyPersistedVersion_def split: if_splits sum.splits prod.splits option.splits)
  obtain w where w: "run' = setPersistedVersion run w" using e(2) by (rule saveRun_NoneE)
  have "run_id run = run_id run0" "run_definition run = run_definition run0"
    using e(1) by (auto simp: transitionWorkflow_def setPersistedVersion_def split: if_splits)
  moreover have "run_id run0 = runID" "run_definition run0 = cloneDefinition definition" using run0 by (auto elim: newWorkflowRun_InrE)
  moreover have "live_inv run'" unfolding w by (rule live_fresh [OF run0 assms(2) e(1)])
  ultimately show thesis using that e(2,3) w by (simp add: setPersistedVersion_def)
qed

section \<open>Returning without an error\<close>

lemma loop_recover_error: "loop_recover E now s \<noteq> Return None s'"
proof -
  obtain rs run1 where r: "recoverExpiredLeases (sc_run s) (now 0) = (rs, run1)" by fastforce
  obtain ts run2 where p: "promoteDueRetries run1 (now 1) = (ts, run2)" by fastforce
  obtain s1 lf where f: "fold (apply_recovery E) rs (s\<lparr>sc_run := run2\<rparr>, None) = (s1, lf)" by fastforce
  obtain e s3 where sv: "sched_save E ''recover expired leases and due retries'' (fold apply_promotion ts s1) = (e, s3)" by fastforce
  show ?thesis unfolding loop_recover_def r prod.case p f Let_def then_flow_Return sv
    by (cases e; cases lf) (simp_all add: release_recovered_error)
qed

lemma handle_event_error: "handle_event E ctxErr now ev s \<noteq> Return None s'"
proof (cases ev)
  case (ClaimEvent claim)
  have "lease_claim E now claim k task s \<noteq> Return None s'" for k task
    by (auto simp: lease_claim_def then_flow_Return Let_def split: sum.splits prod.splits)
  moreover have "stale_claim E claim s \<noteq> Return None s'" "settle_claim E claim s \<noteq> Return None s'"
      "reject_claim E claim operation err s \<noteq> Return None s'" for operation err
    by (auto simp: stale_claim_def settle_claim_def reject_claim_def Let_def split: prod.splits option.splits)
  ultimately show ?thesis unfolding ClaimEvent handle_event.simps handle_claim_def Let_def
    by (auto split: sum.split option.split)
next
  case (HeartbeatEvent w)
  then show ?thesis
    by (auto simp: handle_heartbeat_def then_flow_Return split: option.split sum.split prod.split)
next
  case (ResultEvent result)
  have "record_outcome E n result oc s1 \<noteq> Return None s'" for n oc s1
    by (auto simp: record_outcome_def Let_def split: CompletionOutcome.split prod.split sum.split)
  moreover have "settle_result E n result lf s1 \<noteq> Return None s'" for n lf s1
    by (auto simp: settle_result_def Let_def split: prod.split option.split)
  ultimately show ?thesis unfolding ResultEvent handle_event.simps
    by (auto simp: handle_result_def Let_def then_flow_Return split: option.split sum.split)
qed (auto simp: handle_lost_def handle_broker_error_def)

lemma loop_iteration_done:
  assumes "sched_inv s" "loop_iteration E it s = Return None s'"
  obtains s1 run now where "step_ok E s s1" "length (mkeys (sc_completed s1)) = length (wd_Tasks (run_definition (sc_run s1)))"
    "transitionWorkflow (sc_run s1) now WorkflowRunSucceeded = Inr run" "sched_save E ''complete workflow run'' (s1\<lparr>sc_run := run\<rparr>) = (None, s')"
proof -
  let ?now = "it_headNow it"
  have head: "loop_head E (it_ctxErr it) (it_publishContext it) ?now s = Return None s'"
    using assms(2) by (auto simp: loop_iteration_def then_flow_Return handle_event_error)
  then have "it_ctxErr it = None" by (cases "it_ctxErr it") (simp_all add: loop_head_def)
  then obtain s1 where s1: "loop_recover E ?now s = Continue s1" "loop_complete E (\<lambda>i. ?now (i + 4)) s1 = Return None s'"
    using head
    by (auto simp: loop_head_def then_flow_Return publishReadyTasks_def loop_stalled_def loop_recover_error publish_loop_error split: if_splits)
  have all: "length (mkeys (sc_completed s1)) = length (wd_Tasks (run_definition (sc_run s1)))"
    using s1(2) by (auto simp: loop_complete_def split: if_splits)
  obtain run where "transitionWorkflow (sc_run s1) (?now (0 + 4)) WorkflowRunSucceeded = Inr run"
      "sched_save E ''complete workflow run'' (s1\<lparr>sc_run := run\<rparr>) = (None, s')"
    using s1(2) by (auto simp: loop_complete_def split: if_splits sum.splits prod.splits option.splits)
  then show thesis by (rule that [OF loop_recover_ok [OF assms(1) s1(1)] all])
qed

lemma schedule_loop_done:
  assumes "sched_inv s" "schedule_loop E its s = Return None s'"
  obtains s1 run now where "sched_inv s1" "kept E s s1" "length (mkeys (sc_completed s1)) = length (wd_Tasks (run_definition (sc_run s1)))"
    "transitionWorkflow (sc_run s1) now WorkflowRunSucceeded = Inr run" "sched_save E ''complete workflow run'' (s1\<lparr>sc_run := run\<rparr>) = (None, s')"
  using assms
proof (induction its arbitrary: s thesis)
  case (Cons it its)
  show ?case
  proof (cases "loop_iteration E it s")
    case (Continue s1)
    note ok = loop_iteration_ok [OF Cons.prems(2) Continue]
    have "schedule_loop E its s1 = Return None s'" using Cons.prems(3) Continue by simp
    from Cons.IH [OF _ ok(1) this] Cons.prems(1) kept_trans [OF ok(2)] show ?thesis by metis
  next
    case (Return e s1)
    then have "loop_iteration E it s = Return None s'" using Cons.prems(3) by simp
    from loop_iteration_done [OF Cons.prems(2) this] Cons.prems(1) show ?thesis unfolding step_ok_def by metis
  qed
qed simp

lemma all_completed:
  assumes "sched_inv s" "length (mkeys (sc_completed s)) = length (wd_Tasks (run_definition (sc_run s)))" "k \<in> set (task_ids (run_definition (sc_run s)))"
  shows "status_of (sc_run s) k = Some TaskRunSucceeded"
proof -
  let ?d = "run_definition (sc_run s)"
  note inv = sched_inv_run [OF assms(1)]
  have cache: "cache_inv (sc_run s) (sc_completed s) (sc_ready s)" using assms(1) by (simp add: sched_inv_def)
  have done_iff: "j \<in> set (mkeys (sc_completed s)) \<longleftrightarrow> status_of (sc_run s) j = Some TaskRunSucceeded" for j
    using cache by (simp add: cache_inv_def mhas_mkeys)
  then have "set (mkeys (sc_completed s)) \<subseteq> set (task_ids ?d)" using run_inv_ids [OF inv] by auto
  moreover have "distinct (mkeys (sc_completed s))" using cache by (simp add: cache_inv_def wf_map_def mkeys_def)
  moreover have "card (set (task_ids ?d)) \<le> length (wd_Tasks ?d)" using card_length [of "task_ids ?d"] by (simp add: task_ids_def)
  ultimately have "set (mkeys (sc_completed s)) = set (task_ids ?d)"
    using assms(2) by (intro card_seteq) (simp_all add: distinct_card)
  then show ?thesis using assms(3) done_iff by simp
qed

end
