(* ===== verification/FF_Driver.thy ===== *)
theory FF_Driver
  imports FF_Scheduler
begin

text \<open>
  The scheduler drives the run aggregate through its own operations: every piece of \<open>executeBrokerRun\<close> is a
  \<open>run_trace\<close> of the run, the starts of that trace are the jobs it hands out, and as long as it goes on the store only
  sees successful saves. What holds of every sequence of operations on a run therefore holds of an execution.
\<close>

section \<open>The scheduler drives the run through its operations\<close>

lemma run_trace_append: "\<lbrakk>run_trace run2 es' run3; run_trace run1 es run2\<rbrakk> \<Longrightarrow> run_trace run1 (es @ es') run3"
proof (induction rule: run_trace.induct)
  case (trace_snoc run es' run' e run'')
  then show ?case using run_trace.trace_snoc [of run1 "es @ es'" run' e run''] by simp
qed simp

lemma run_trace_step: "run_step run e run' \<Longrightarrow> run_trace run [e] run'"
  using run_trace.trace_snoc [OF run_trace.trace_nil] by fastforce

text \<open>The starts of a sequence of operations, and the jobs of a sequence of answers to claims.\<close>

definition trace_starts :: "run_event list \<Rightarrow> (TaskID \<times> AttemptID) list" where
  "trace_starts es = List.map_filter (\<lambda>e. case e of EvStart t a _ \<Rightarrow> Some (t, a) | _ \<Rightarrow> None) es"

definition job_starts :: "(nat \<times> 'h taskJob option) list \<Rightarrow> (TaskID \<times> AttemptID) list" where
  "job_starts rs = List.map_filter (\<lambda>r. map_option (\<lambda>job. (td_ID (rq_Task (tj_request job)), rq_AttemptID (tj_request job))) (snd r)) rs"

lemma trace_starts_append [simp]: "trace_starts (es @ es') = trace_starts es @ trace_starts es'"
  by (simp add: trace_starts_def map_filter_def)

lemma job_starts_append [simp]: "job_starts (rs @ rs') = job_starts rs @ job_starts rs'"
  by (simp add: job_starts_def map_filter_def)

lemma no_jobs_starts: "no_jobs rs \<Longrightarrow> job_starts rs = []"
  by (induction rs) (simp_all add: no_jobs_def job_starts_def map_filter_simps)

text \<open>From \<open>s\<close> to \<open>s'\<close> the run has gone through operations of which the starts are the jobs handed out, and the store
  through successful saves of the run between these operations.\<close>

definition saving_step :: "('st, 'br, 'd, 'h) Engine \<Rightarrow> WorkflowRun \<times> 'st \<Rightarrow> WorkflowRun \<times> 'st \<Rightarrow> bool" where
  "saving_step E p p' \<longleftrightarrow> (\<exists>e. run_step (fst p) e (fst p')) \<and> snd p' = snd p \<or>
     (\<exists>y. st_SaveRun (en_store E) (snd p) durability (Snapshot (fst p)) = (Inr y, snd p') \<and> fst p' = setPersistedVersion (fst p) (ws_Version y))"

definition saves :: "('st, 'br, 'd, 'h) Engine \<Rightarrow> WorkflowRun \<times> 'st \<Rightarrow> WorkflowRun \<times> 'st \<Rightarrow> bool" where
  "saves E = (saving_step E)\<^sup>*\<^sup>*"

definition follows :: "('st, 'br, 'd, 'h) Engine \<Rightarrow> ('st, 'br, 'd, 'h) sched \<Rightarrow> ('st, 'br, 'd, 'h) sched \<Rightarrow> bool" where
  "follows E s s' \<longleftrightarrow> (\<exists>es rs. run_trace (sc_run s) es (sc_run s') \<and> sc_responses s' = sc_responses s @ rs \<and> job_starts rs = trace_starts es) \<and>
     saves E (sc_run s, sc_store s) (sc_run s', sc_store s')"

text \<open>The starts against the jobs handed out: they agree, except that an execution that returns an error may have
  started one more attempt, whose job it did not hand out any more.\<close>

definition starts_handed_out :: "go_error option \<Rightarrow> (TaskID \<times> AttemptID) list \<Rightarrow> (TaskID \<times> AttemptID) list \<Rightarrow> bool" where
  "starts_handed_out err starts jobs \<longleftrightarrow> starts = jobs \<or> err \<noteq> None \<and> (\<exists>p. starts = jobs @ [p])"

fun flows :: "('st, 'br, 'd, 'h) Engine \<Rightarrow> ('st, 'br, 'd, 'h) sched \<Rightarrow> ('st, 'br, 'd, 'h) sched flow \<Rightarrow> bool" where
  "flows E s (Continue s') \<longleftrightarrow> follows E s s'"
| "flows E s (Return e s') \<longleftrightarrow> (\<exists>es rs. run_trace (sc_run s) es (sc_run s') \<and> sc_responses s' = sc_responses s @ rs \<and>
     starts_handed_out e (trace_starts es) (job_starts rs))"

lemma saves_refl [simp]: "saves E p p"
  by (simp add: saves_def)

lemma saves_trans: "\<lbrakk>saves E p p1; saves E p1 p2\<rbrakk> \<Longrightarrow> saves E p p2"
  unfolding saves_def by (rule rtranclp_trans)

lemma trace_saves: "run_trace run es run' \<Longrightarrow> saves E (run, st) (run', st)"
proof (induction rule: run_trace.induct)
  case (trace_snoc run es run' e run'')
  then have "saving_step E (run', st) (run'', st)" by (auto simp: saving_step_def)
  with trace_snoc.IH show ?case unfolding saves_def by (rule rtranclp.rtrancl_into_rtrancl)
qed simp

lemma follows_trans: "\<lbrakk>follows E s s1; follows E s1 s2\<rbrakk> \<Longrightarrow> follows E s s2"
  unfolding follows_def
proof (elim exE conjE)
  fix es rs es' rs'
  assume sv: "saves E (sc_run s, sc_store s) (sc_run s1, sc_store s1)" "saves E (sc_run s1, sc_store s1) (sc_run s2, sc_store s2)"
  assume "run_trace (sc_run s) es (sc_run s1)" "sc_responses s1 = sc_responses s @ rs" "job_starts rs = trace_starts es"
    "run_trace (sc_run s1) es' (sc_run s2)" "sc_responses s2 = sc_responses s1 @ rs'" "job_starts rs' = trace_starts es'"
  then have "\<exists>es rs. run_trace (sc_run s) es (sc_run s2) \<and> sc_responses s2 = sc_responses s @ rs \<and> job_starts rs = trace_starts es"
    by (intro exI [of _ "es @ es'"] exI [of _ "rs @ rs'"]) (simp add: run_trace_append)
  then show "(\<exists>es rs. run_trace (sc_run s) es (sc_run s2) \<and> sc_responses s2 = sc_responses s @ rs \<and> job_starts rs = trace_starts es) \<and>
      saves E (sc_run s, sc_store s) (sc_run s2, sc_store s2)" by (rule conjI [OF _ saves_trans [OF sv]])
qed

lemma follows_flows: "\<lbrakk>follows E s s1; flows E s1 m\<rbrakk> \<Longrightarrow> flows E s m"
proof (cases m)
  case (Return e s')
  assume "follows E s s1" "flows E s1 m"
  then obtain es rs es' rs' where t: "run_trace (sc_run s) es (sc_run s1)" "run_trace (sc_run s1) es' (sc_run s')"
      "sc_responses s1 = sc_responses s @ rs" "sc_responses s' = sc_responses s1 @ rs'" "job_starts rs = trace_starts es"
      "starts_handed_out e (trace_starts es') (job_starts rs')"
    by (auto simp: follows_def Return)
  have "run_trace (sc_run s) (es @ es') (sc_run s')" by (rule run_trace_append [OF t(2,1)])
  moreover have "starts_handed_out e (trace_starts (es @ es')) (job_starts (rs @ rs'))" using t(5,6) by (auto simp: starts_handed_out_def)
  moreover have "sc_responses s' = sc_responses s @ rs @ rs'" using t(3,4) by simp
  ultimately show ?thesis unfolding Return flows.simps by blast
qed (auto intro: follows_trans)

lemma flows_then: "\<lbrakk>flows E s m; \<And>s1. m = Continue s1 \<Longrightarrow> follows E s s1 \<Longrightarrow> flows E s1 (f s1)\<rbrakk> \<Longrightarrow> flows E s (then_flow m f)"
  by (cases m) (auto intro: follows_flows)

lemma no_starts [simp]: "trace_starts [] = []" "job_starts [] = []"
  by (simp_all add: trace_starts_def job_starts_def)

lemma view_follows: "same_view s s' \<Longrightarrow> follows E s s'"
  unfolding same_view_def follows_def using run_trace.trace_nil [of "sc_run s"] no_jobs_starts no_starts(1) saves_refl by metis

lemma flows_same: "\<lbrakk>flows E s m; sc_run s' = sc_run s; sc_store s' = sc_store s; sc_responses s' = sc_responses s\<rbrakk> \<Longrightarrow> flows E s' m"
  by (cases m) (simp_all add: follows_def)

text \<open>Operations that start no task.\<close>

lemma quiet_follows:
  assumes "run_trace (sc_run s) es (sc_run s')" "trace_starts es = []" "sc_responses s' = sc_responses s"
    "sc_store s' = sc_store s"
  shows "follows E s s'"
  unfolding follows_def assms(4) using assms(1-3) by (intro conjI trace_saves [OF assms(1)] exI [of _ es] exI [of _ "[]"]) simp_all

lemma idle_trace: "\<exists>es. run_trace run es run \<and> trace_starts es = []"
  by (rule exI [of _ "[]"]) (simp add: run_trace.trace_nil)

lemma saveRun_trace:
  assumes "saveRun store ctx st run operation = (e, run', st')"
  shows "\<exists>es. run_trace run es run' \<and> trace_starts es = []"
proof (cases "run' = run")
  case False
  then obtain y where "applyPersistedVersion run (Snapshot run) y = Inr run'"
    using assms by (auto simp: saveRun_def Let_def split: prod.splits sum.splits)
  then have "run' = setPersistedVersion run (ws_Version y)" by (simp add: applyPersistedVersion_def split: if_splits)
  then have "run_trace run [EvPersist (ws_Version y)] run'" by (auto intro: run_trace_step run_step.persist)
  then show ?thesis by (intro exI [of _ "[EvPersist (ws_Version y)]"]) (simp add: trace_starts_def map_filter_simps)
qed (auto simp: idle_trace)

lemma sched_save_trace:
  assumes "sched_save E operation s = (e, s')"
  shows "\<exists>es. run_trace (sc_run s) es (sc_run s') \<and> trace_starts es = []"
proof -
  obtain e1 run st where r: "saveRun (en_store E) durability (sc_store s) (sc_run s) operation = (e1, run, st)" by (metis prod_cases3)
  then have "s' = s\<lparr>sc_run := run, sc_store := st\<rparr>" using assms by (simp add: sched_save_def)
  then show ?thesis using saveRun_trace [OF r] by simp
qed

lemma sched_save_saves:
  assumes "sched_save E operation s = (None, s')"
  shows "saves E (sc_run s, sc_store s) (sc_run s', sc_store s')"
  using assms unfolding saves_def by (rule sched_save_NoneE) (auto simp: saving_step_def)

lemma sched_save_follows: "sched_save E operation s = (None, s') \<Longrightarrow> follows E s s'"
  using sched_save_trace [of E operation s None s'] sched_save_responses [of E operation s None s'] sched_save_saves [of E operation s s']
  unfolding follows_def by (metis append_Nil2 no_starts(2))

text \<open>A save that fails ends the run or the execution.\<close>

lemma quiet_return:
  assumes "run_trace (sc_run s) es (sc_run s')" "trace_starts es = []" "sc_responses s' = sc_responses s"
  shows "flows E s (Return e s')"
  unfolding flows.simps starts_handed_out_def using assms by (intro exI [of _ es] exI [of _ "[]"]) simp

lemma trace_return:
  assumes "run_trace (sc_run s) es (sc_run s1)" "trace_starts es = []" "sc_responses s1 = sc_responses s" "flows E s1 (Return e s')"
  shows "flows E s (Return e s')"
proof -
  obtain es' rs where t: "run_trace (sc_run s1) es' (sc_run s')" "sc_responses s' = sc_responses s1 @ rs"
      "starts_handed_out e (trace_starts es') (job_starts rs)"
    using assms(4) by auto
  have "run_trace (sc_run s) (es @ es') (sc_run s')" by (rule run_trace_append [OF t(1) assms(1)])
  moreover have "starts_handed_out e (trace_starts (es @ es')) (job_starts rs)" using t(3) assms(2) by simp
  ultimately show ?thesis using t(2) assms(3) unfolding flows.simps by metis
qed

lemma save_flows: "flows E s (save_or_return E operation s)"
proof -
  obtain e s' where sv: "sched_save E operation s = (e, s')" by fastforce
  obtain es where es: "run_trace (sc_run s) es (sc_run s')" "trace_starts es = []" using sched_save_trace [OF sv] by blast
  show ?thesis
  proof (cases e)
    case None
    then show ?thesis using sv sched_save_follows by (simp add: save_or_return_def)
  next
    case (Some err)
    have "save_or_return E operation s = Return (Some err) s'" using sv Some by (simp add: save_or_return_def)
    then show ?thesis using quiet_return [OF es sched_save_responses [OF sv]] by simp
  qed
qed

text \<open>Ending a run: cancel what is unfinished, set the status, save.\<close>

lemma ended_trace:
  assumes "transitionWorkflow (cancelUnfinished run t cause) t' status = Inr run1" "saveRun store ctx st run1 operation = (e, run2, st2)"
  shows "\<exists>es. run_trace run es run2 \<and> trace_starts es = []"
proof -
  obtain es where es: "run_trace run1 es run2" "trace_starts es = []" using saveRun_trace [OF assms(2)] by blast
  have "run_trace run ([EvCancel] @ [EvWorkflow status]) run1"
    by (rule run_trace_append [OF run_trace_step run_trace_step]) (auto intro: run_step.intros assms(1))
  from run_trace_append [OF es(1) this] es(2) show ?thesis
    by (intro exI [of _ "([EvCancel] @ [EvWorkflow status]) @ es"]) (simp add: trace_starts_def map_filter_simps)
qed

lemma cancelUnfinished_trace: "\<exists>es. run_trace run es (cancelUnfinished run t cause) \<and> trace_starts es = []"
  by (intro exI [of _ "[EvCancel]"] conjI run_trace_step run_step.cancel) (simp add: trace_starts_def map_filter_simps)

lemma failRun_trace: "failRun store ctx now st run cause = (e, run', st') \<Longrightarrow> \<exists>es. run_trace run es run' \<and> trace_starts es = []"
  by (auto simp: failRun_def Let_def cancelUnfinished_trace split: sum.splits prod.splits option.splits dest: ended_trace)

lemma cancelRun_trace: "cancelRun store ctx now st run cause = (e, run', st') \<Longrightarrow> \<exists>es. run_trace run es run' \<and> trace_starts es = []"
  by (auto simp: cancelRun_def Let_def cancelUnfinished_trace split: sum.splits prod.splits option.splits dest: ended_trace)

lemma stops_flow: "flows E s (sched_fail E now cause s)" "flows E s (sched_cancel E now cause s)"
proof -
  show "flows E s (sched_fail E now cause s)"
    by (auto simp: sched_fail_def simp del: flows.simps split: prod.split dest!: failRun_trace intro: quiet_return)
  show "flows E s (sched_cancel E now cause s)"
    by (auto simp: sched_cancel_def simp del: flows.simps split: prod.split dest!: cancelRun_trace intro: quiet_return)
qed

lemma saved_flows:
  "flows E s (case sched_save E operation s of (Some err, s) \<Rightarrow> sched_fail E now err s | (None, s) \<Rightarrow> f s)"
  if "\<And>s'. sched_save E operation s = (None, s') \<Longrightarrow> flows E s' (f s')"
proof -
  obtain e s' where sv: "sched_save E operation s = (e, s')" by fastforce
  obtain es where tr: "run_trace (sc_run s) es (sc_run s')" "trace_starts es = []" using sched_save_trace [OF sv] by blast
  show ?thesis
  proof (cases e)
    case None
    then show ?thesis using that sv follows_flows [OF sched_save_follows] by simp
  next
    case (Some err)
    have "flows E s' (sched_fail E now err s')" by (rule stops_flow)
    then show ?thesis using trace_return [OF tr sched_save_responses [OF sv]] sv Some
      by (cases "sched_fail E now err s'") (simp_all add: sched_stops del: flows.simps)
  qed
qed

section \<open>The pieces of the loop\<close>

lemma mark_loop_trace:
  "mark_loop now ts run ready = (r, run') \<Longrightarrow> \<exists>es. run_trace run es run' \<and> trace_starts es = []"
proof (induction now ts run ready rule: mark_loop.induct)
  case (2 now task rest run ready)
  show ?case
  proof (cases "taskStatus run (td_ID task)")
    case (Inr status)
    show ?thesis
    proof (cases "status = TaskRunPending \<and> (\<exists>run1. transitionTask run (now 0) (td_ID task) TaskRunReady '''' None = Inr run1)")
      case True
      then obtain run1 where t: "status = TaskRunPending" "transitionTask run (now 0) (td_ID task) TaskRunReady '''' None = Inr run1" by blast
      obtain es where es: "run_trace run1 es run'" "trace_starts es = []"
        using "2.IH"(2) [OF Inr _ t(2)] "2.prems" Inr t by auto
      have "run_trace run [EvReady (td_ID task)] run1" using Inr t by (auto intro: run_trace_step run_step.ready)
      from run_trace_append [OF es(1) this] show ?thesis
        using es(2) by (intro exI [of _ "[EvReady (td_ID task)] @ es"]) (simp add: trace_starts_def map_filter_simps)
    next
      case False
      then show ?thesis
        using "2.IH"(1) [OF Inr] "2.prems" Inr by (auto simp: idle_trace split: if_splits sum.splits)
    qed
  qed (use "2.prems" in \<open>auto simp: idle_trace\<close>)
qed (auto simp: idle_trace)

lemma markNewReady_trace:
  "markNewReady now run definition completed = (r, run') \<Longrightarrow> \<exists>es. run_trace run es run' \<and> trace_starts es = []"
  by (auto simp: markNewReady_def idle_trace split: sum.splits dest: mark_loop_trace)

lemma view_return: "same_view s s' \<Longrightarrow> flows E s (Return e s')"
  using view_follows [of s s'] unfolding follows_def flows.simps starts_handed_out_def by metis

lemma view_flows: "\<lbrakk>same_view s s1; flows E s1 m\<rbrakk> \<Longrightarrow> flows E s m"
  by (rule follows_flows [OF view_follows])

lemma fold_recovery_frame:
  "fold (apply_recovery E) rs (s, lf) = (s', lf') \<Longrightarrow>
   sc_run s' = sc_run s \<and> sc_store s' = sc_store s \<and> sc_responses s' = sc_responses s"
proof (induction rs arbitrary: s lf)
  case (Cons r rs)
  obtain s1 lf1 where one: "apply_recovery E r (s, lf) = (s1, lf1)" by fastforce
  then have "sc_run s1 = sc_run s \<and> sc_store s1 = sc_store s \<and> sc_responses s1 = sc_responses s"
    by (auto simp: apply_recovery_def Let_def split: if_splits option.splits)
  then show ?case using Cons one by simp
qed simp

lemma release_flows: "flows E s (release_recovered E rs s)"
proof (induction rs arbitrary: s)
  case (Cons r rs)
  obtain e s1 where a: "acknowledgePendingClaims E (mget_or [] (sc_pendingClaims s) (lr_AttemptID r)) s = (e, s1)" by fastforce
  note v = same_view_pending [OF a]
  show ?case
  proof (cases e)
    case None
    let ?s2 = "s1\<lparr>sc_pendingClaims := mdel (lr_AttemptID r) (sc_pendingClaims s1)\<rparr>"
    have "same_view s ?s2" using v by (simp add: same_view_def)
    then show ?thesis using view_flows Cons.IH [of ?s2] a None by simp
  qed (use v a view_return in simp)
qed (simp add: view_follows)

lemma loop_recover_flows: "flows E s (loop_recover E now s)"
proof -
  obtain rs run1 where r: "recoverExpiredLeases (sc_run s) (now 0) = (rs, run1)" by fastforce
  obtain ts run2 where p: "promoteDueRetries run1 (now 1) = (ts, run2)" by fastforce
  obtain s1 lf where f: "fold (apply_recovery E) rs (s\<lparr>sc_run := run2\<rparr>, None) = (s1, lf)" by fastforce
  have "run_trace (sc_run s) ([EvRecover rs] @ [EvPromote ts]) run2"
    by (rule run_trace_append [OF run_trace_step run_trace_step]) (auto intro: run_step.intros r p)
  moreover have "sc_run (fold apply_promotion ts s1) = run2" "sc_responses (fold apply_promotion ts s1) = sc_responses s"
      "sc_store (fold apply_promotion ts s1) = sc_store s"
    using fold_recovery_frame [OF f] by (simp_all add: fold_promotion_frame)
  ultimately have start: "follows E s (fold apply_promotion ts s1)"
    by (intro quiet_follows [of _ "[EvRecover rs] @ [EvPromote ts]"]) (simp_all add: trace_starts_def map_filter_simps)
  show ?thesis unfolding loop_recover_def r p f prod.case Let_def
    by (rule follows_flows [OF start], intro flows_then)
      (auto simp: view_follows intro: saved_flows release_flows stops_flow split: option.split)
qed

lemma loop_complete_flows: "flows E s (loop_complete E now s)"
proof (cases "transitionWorkflow (sc_run s) (now 0) WorkflowRunSucceeded")
  case (Inl err)
  then show ?thesis by (simp add: loop_complete_def stops_flow view_follows)
next
  case (Inr run)
  obtain e s' where sv: "sched_save E ''complete workflow run'' (s\<lparr>sc_run := run\<rparr>) = (e, s')" by fastforce
  have "run_trace (sc_run s) [EvWorkflow WorkflowRunSucceeded] run" using Inr by (auto intro: run_trace_step run_step.flow)
  moreover obtain es where es: "run_trace run es (sc_run s')" "trace_starts es = []" using sched_save_trace [OF sv] by auto
  ultimately have "run_trace (sc_run s) ([EvWorkflow WorkflowRunSucceeded] @ es) (sc_run s')" by (intro run_trace_append)
  then have "flows E s (Return e' s')" for e'
    by (rule quiet_return) (use es(2) sched_save_responses [OF sv] in \<open>simp_all add: trace_starts_def map_filter_simps\<close>)
  then show ?thesis
    using Inr sv view_follows [OF same_view_refl, of E s] by (cases e) (auto simp: loop_complete_def simp del: flows.simps(2))
qed

lemma view_Continue: "same_view s s' \<Longrightarrow> flows E s (Continue s')"
  by (simp add: view_follows)

lemmas view_intros = view_Continue view_return

lemma run_trace_definition: "run_trace run es run' \<Longrightarrow> run_definition run' = run_definition run"
  by (induction rule: run_trace.induct) (simp_all add: run_step_id)

lemma run_trace_run_id: "run_trace run es run' \<Longrightarrow> run_id run' = run_id run"
  by (induction rule: run_trace.induct) (simp_all add: run_step_id)

lemma publish_flows: "flows E s (publish_loop E ctx ks s)"
proof (induction ks arbitrary: s)
  case (Cons k ks)
  have same: "flows E s (publish_loop E ctx ks s')" if "same_view s s'" for s' using view_flows [OF that] Cons.IH by blast
  show ?case
    by (auto simp: Let_def same_view_def no_jobs_def simp del: flows.simps intro!: same view_intros split: option.split sum.split prod.split)
qed (simp add: view_follows)

lemma loop_head_flows: "flows E s (loop_head E ctxErr ctx now s)"
proof (cases ctxErr)
  case None
  have "flows E s1 (loop_stalled E now' s1)" for s1 :: "('a, 'b, 'c, 'd) sched" and now' and E :: "('a, 'b, 'c, 'd) Engine"
    by (simp add: loop_stalled_def stops_flow view_follows)
  then show ?thesis unfolding loop_head_def None publishReadyTasks_def option.case
    by (intro flows_then loop_recover_flows loop_complete_flows publish_flows)
qed (simp add: loop_head_def stops_flow)

lemma lease_claim_flows:
  assumes "run_inv (sc_run s)"
  shows "flows E s (lease_claim E now claim k task s)"
proof (cases "startTaskAttempt (sc_run s) (now 0) k (wc_workerID claim) (cf_leaseDuration (en_config E))")
  case (Inl err)
  then show ?thesis by (simp add: lease_claim_def stops_flow)
next
  case (Inr p)
  then obtain a run where st: "startTaskAttempt (sc_run s) (now 0) k (wc_workerID claim) (cf_leaseDuration (en_config E)) = Inr (a, run)"
    by (cases p) simp
  obtain e s2 where sv: "sched_save E ''lease delivered task'' (s\<lparr>sc_run := run\<rparr>) = (e, s2)" by fastforce
  obtain es where es: "run_trace run es (sc_run s2)" "trace_starts es = []" "sc_responses s2 = sc_responses s"
    using sched_save_trace [OF sv] sched_save_responses [OF sv] by auto
  have start: "run_trace (sc_run s) [EvStart k a (wc_workerID claim)] run" using st by (auto intro: run_trace_step run_step.start)
  note tr = run_trace_append [OF es(1) start]
  have "k \<in> set (task_ids (run_definition (sc_run s)))"
    using start_moves(2) [OF st assms] run_inv_ids [OF assms, of k] by simp
  moreover have "run_definition (sc_run s2) = run_definition (sc_run s)"
    using start_moves(1) [OF st assms] run_trace_definition [OF es(1)] by (simp add: moves_def)
  ultimately have ID: "td_ID (requireDefinition (taskDefinitionsByID (run_definition (sc_run s2))) k) = k" using definitions_ID by simp
  show ?thesis
  proof (cases e)
    case None
    have "saves E (sc_run s, sc_store s) (sc_run s2, sc_store s2)"
      using saves_trans [OF trace_saves [OF start] sched_save_saves [OF sv [unfolded None], simplified]] .
    then show ?thesis using tr es(2,3) ID unfolding lease_claim_def st sum.case prod.case save_or_return_def sv None option.case
      by (simp add: follows_def Let_def)
        (intro exI [of _ "EvStart k a (wc_workerID claim) # es"],
         simp add: trace_starts_def job_starts_def map_filter_simps cloneTaskDefinition_def)
  next
    case (Some err)
    have "starts_handed_out (Some err) (trace_starts ([EvStart k a (wc_workerID claim)] @ es)) (job_starts [])"
      using es(2) by (simp add: starts_handed_out_def trace_starts_def map_filter_simps)
    then have "flows E s (Return (Some err) s2)" using tr es(3) unfolding flows.simps by (metis append_Nil2)
    then show ?thesis using Some unfolding lease_claim_def st sum.case prod.case save_or_return_def sv by simp
  qed
qed

lemma handle_claim_flows:
  assumes "run_inv (sc_run s)"
  shows "flows E s (handle_claim E now claim s)"
proof -
  have stale: "flows E s (stale_claim E claim s)"
    by (auto simp: stale_claim_def Let_def same_view_def no_jobs_def simp del: flows.simps intro!: view_intros split: prod.split option.split)
  have ack: "same_view s s'" if "acknowledgeDelivery E d s = (e, s')" for d e s' using that by (rule same_view_ack)
  have reject: "flows E s (reject_claim E claim operation err s)" for operation err
    by (auto simp: reject_claim_def simp del: flows.simps intro!: view_intros same_view_trans [OF ack same_view_respond] split: prod.split)
  have settle: "flows E s (settle_claim E claim s)"
    by (auto simp: settle_claim_def simp del: flows.simps intro!: view_intros intro: same_view_trans [OF ack same_view_respond] ack split: prod.split option.split)
  have pending: "flows E s (Continue (s\<lparr>sc_pendingClaims := p\<rparr>))" for p
    by (rule view_Continue) (simp add: same_view_def no_jobs_def)
  show ?thesis
    unfolding handle_claim_def Let_def
    by (auto intro: stale reject settle pending lease_claim_flows [OF assms] simp del: flows.simps split: sum.split option.split)
qed

lemma handle_heartbeat_flows: "flows E s (handle_heartbeat E now w s)"
proof -
  have beat: "flows E s (then_flow (save_or_return E operation (s\<lparr>sc_run := run\<rparr>)) f)"
    if "recordWorkerHeartbeat (sc_run s) (now 0) w d = Inr run" "\<And>s1. flows E s1 (f s1)" for run d f operation
  proof -
    have "run_trace (sc_run s) [EvHeartbeat w] run" using that(1) by (auto intro: run_trace_step run_step.heartbeat)
    then have "follows E s (s\<lparr>sc_run := run\<rparr>)"
      by (intro quiet_follows [of _ "[EvHeartbeat w]"]) (simp_all add: trace_starts_def map_filter_simps)
    then show ?thesis by (rule follows_flows) (intro flows_then save_flows that(2))
  qed
  show ?thesis unfolding handle_heartbeat_def
    by (auto simp: same_view_def no_jobs_def simp del: flows.simps intro!: stops_flow beat view_intros split: option.split sum.split prod.split)
qed

lemma settle_result_flows: "flows E s (settle_result E now result lf s)"
proof -
  obtain e s1 where a: "acknowledgeDelivery E (Some (rs_delivery result)) s = (e, s1)" by fastforce
  obtain e2 s2 where b: "acknowledgePendingClaims E (mget_or [] (sc_pendingClaims s1) (rs_attemptID result)) s1 = (e2, s2)" by fastforce
  let ?s3 = "s2\<lparr>sc_pendingClaims := mdel (rs_attemptID result) (sc_pendingClaims s2)\<rparr>"
  note v = same_view_ack [OF a] same_view_trans [OF same_view_ack [OF a] same_view_pending [OF b]]
  have v3: "same_view s ?s3" using v(2) by (simp add: same_view_def)
  have "flows E s (case lf of None \<Rightarrow> Continue ?s3 | Some cause \<Rightarrow> sched_fail E now cause ?s3)"
    by (cases lf) (auto simp del: flows.simps intro: view_intros v3 view_flows [OF v3] stops_flow)
  then show ?thesis unfolding settle_result_def a b
    by (cases e; cases e2) (simp_all add: b Let_def view_return v del: flows.simps)
qed

lemma record_outcome_flows: "flows E s (record_outcome E now result outcome s)"
proof (cases outcome)
  case CompletionSucceeded
  let ?s1 = "s\<lparr>sc_completed := mput (rs_taskID result) () (sc_completed s)\<rparr>"
  obtain r run where m: "markNewReady (\<lambda>i. now (i + 2)) (sc_run s) (run_definition (sc_run s)) (sc_completed ?s1) = (r, run)" by fastforce
  obtain es where es: "run_trace (sc_run s) es run" "trace_starts es = []" using markNewReady_trace [OF m] by blast
  have fol: "follows E s (?s1\<lparr>sc_run := run\<rparr>)" "follows E s (add_ready new (?s1\<lparr>sc_run := run\<rparr>))" for new
    using es by (auto intro!: quiet_follows [of _ es] simp: add_ready_def)
  show ?thesis using m unfolding CompletionSucceeded record_outcome_def Let_def
    by (cases r) (auto simp: m simp del: flows.simps intro: follows_flows [OF fol(1)] follows_flows [OF fol(2)] stops_flow save_flows)
next
  case CompletionRetryScheduled
  have "flows E s (save_or_return E operation s1)" if "sc_run s1 = sc_run s" "sc_store s1 = sc_store s" "sc_responses s1 = sc_responses s" for operation s1
    using that by (intro flows_same [OF save_flows]) simp_all
  then show ?thesis unfolding CompletionRetryScheduled record_outcome_def
    by (auto simp del: flows.simps split: option.split)
qed (auto simp: record_outcome_def same_view_def no_jobs_def simp del: flows.simps intro: view_Continue save_flows)

lemma handle_result_flows: "flows E s (handle_result E ctxErr now result s)"
proof (cases ctxErr)
  case None
  let ?s1 = "s\<lparr>sc_activeDeliveries := mdel (rs_workerID result) (sc_activeDeliveries s), sc_inFlight := mdel (rs_attemptID result) (sc_inFlight s)\<rparr>"
  have v: "same_view s ?s1" by (simp add: same_view_def no_jobs_def)
  show ?thesis
  proof (cases "completeTaskAttempt (sc_run s) (now 0) (rs_taskID result) (rs_taskRunID result) (rs_workerID result)
                     (rs_attemptID result) (rs_output result) (rs_err result)")
    case (Inl err)
    then show ?thesis using view_flows [OF v stops_flow(1)] by (simp add: handle_result_def None Let_def)
  next
    case (Inr p)
    then obtain outcome run where c: "completeTaskAttempt (sc_run s) (now 0) (rs_taskID result) (rs_taskRunID result) (rs_workerID result)
                     (rs_attemptID result) (rs_output result) (rs_err result) = Inr (outcome, run)" by (cases p) simp
    let ?es = "[EvComplete (rs_taskID result) (rs_attemptID result) outcome]"
    have "run_trace (sc_run s) ?es run" using c by (auto intro: run_trace_step run_step.complete)
    then have "follows E s (?s1\<lparr>sc_run := run\<rparr>)" by (intro quiet_follows [of _ ?es]) (simp_all add: trace_starts_def map_filter_simps)
    then have "flows E s (then_flow (record_outcome E (\<lambda>i. now (i + 3)) result outcome (?s1\<lparr>sc_run := run\<rparr>))
        (settle_result E (\<lambda>i. now (i + 1)) result (terminal_failure (run_id run) result outcome)))"
      by (rule follows_flows) (intro flows_then record_outcome_flows settle_result_flows)
    then show ?thesis using c by (simp add: handle_result_def None Let_def)
  qed
qed (simp add: handle_result_def stops_flow)

lemma handle_event_flows: "run_inv (sc_run s) \<Longrightarrow> flows E s (handle_event E ctxErr now ev s)"
  by (cases ev) (auto simp: handle_claim_flows handle_heartbeat_flows handle_result_flows stops_flow handle_lost_def handle_broker_error_def
      same_view_def no_jobs_def simp del: flows.simps intro!: view_intros)

lemma follows_inv: "\<lbrakk>follows E s s'; run_inv (sc_run s)\<rbrakk> \<Longrightarrow> run_inv (sc_run s')"
  unfolding follows_def using run_trace_inv by blast

lemma loop_iteration_flows:
  assumes "run_inv (sc_run s)"
  shows "flows E s (loop_iteration E it s)"
proof -
  have ev: "flows E s1 (handle_event E ctxErr now e (s1\<lparr>sc_broker := b\<rparr>))" if "run_inv (sc_run s1)" for s1 ctxErr now e b
    by (rule flows_same [OF handle_event_flows]) (simp_all add: that)
  show ?thesis unfolding loop_iteration_def
    by (intro flows_then loop_head_flows ev) (rule follows_inv [OF _ assms])
qed

lemma iteration_definition:
  assumes "run_inv (sc_run s)" "loop_iteration E it s = Continue s'"
  shows "run_definition (sc_run s') = run_definition (sc_run s)"
  using loop_iteration_flows [OF assms(1), of E it] run_trace_definition by (auto simp: assms(2) follows_def)

lemma schedule_loop_flows: "run_inv (sc_run s) \<Longrightarrow> flows E s (schedule_loop E its s)"
proof (induction its arbitrary: s)
  case (Cons it its)
  show ?case unfolding schedule_loop.simps
    by (rule flows_then [OF loop_iteration_flows [OF Cons.prems]]) (intro Cons.IH, rule follows_inv [OF _ Cons.prems])
qed (simp add: view_follows)

section \<open>A whole execution\<close>

lemma prepare_flows:
  fixes E :: "('st, 'br, 'd, 'h) Engine"
  obtains s0 where "sc_run s0 = run" "sc_store s0 = st" "sc_responses s0 = []" "flows E s0 (prepare_sched E now handlers run st br)"
proof -
  let ?c = "completedTaskIDs run"
  define s0 :: "('st, 'br, 'd, 'h) sched" where "s0 = add_ready (existingReadyTasks run (run_definition run))
    \<lparr>sc_run = run, sc_store = st, sc_broker = br, sc_handlers = handlers, sc_completed = ?c, sc_ready = [],
     sc_workers = [], sc_currentBySlot = [], sc_generations = [], sc_spawned = [], sc_inFlight = [],
     sc_activeDeliveries = [], sc_pendingClaims = [], sc_published = [], sc_responses = []\<rparr>"
  obtain r run1 where m: "markNewReady (\<lambda>i. now (i + 2)) run (run_definition run) ?c = (r, run1)" by fastforce
  obtain es where es: "run_trace run es run1" "trace_starts es = []" using markNewReady_trace [OF m] by blast
  have f0: "sc_run s0 = run" "sc_store s0 = st" "sc_responses s0 = []" "sc_completed s0 = ?c" by (simp_all add: s0_def add_ready_def)
  have fol: "follows E s0 (s0\<lparr>sc_run := run1\<rparr>)" "follows E s0 (add_ready new (s0\<lparr>sc_run := run1\<rparr>))" for new
    using es by (auto intro!: quiet_follows [of _ es] simp: add_ready_def f0)
  have spawn: "flows E s (let s = fold (\<lambda>slot. spawnWorker E slot) slots s in Continue (s\<lparr>sc_inFlight := initial_inFlight (sc_run s)\<rparr>))" for s slots
    unfolding Let_def by (rule view_Continue) (simp add: same_view_def no_jobs_def fold_spawn_frame)
  have "flows E s0 (prepare_sched E now handlers run st br)"
  proof (cases r)
    case (Inl err)
    then show ?thesis unfolding prepare_sched_def Let_def s0_def [symmetric] f0(4) m prod.case
      using follows_flows [OF fol(1) stops_flow(1)] by simp
  next
    case (Inr new)
    have "flows E (add_ready new (s0\<lparr>sc_run := run1\<rparr>)) (prepare_sched E now handlers run st br)"
      unfolding prepare_sched_def Let_def s0_def [symmetric] f0(4) m prod.case Inr sum.case
      by (intro flows_then spawn [unfolded Let_def])
        (auto simp del: flows.simps intro: saved_flows [where f = Continue, OF view_Continue [OF same_view_refl]] view_Continue [OF same_view_refl])
    then show ?thesis by (rule follows_flows [OF fol(2)])
  qed
  then show thesis by (rule that [OF f0(1-3)])
qed

lemma executeBrokerRun_flows:
  fixes E :: "('st, 'br, 'd, 'h) Engine"
  assumes "run_inv run"
  obtains s0 where "sc_run s0 = run" "sc_store s0 = st" "sc_responses s0 = []" "flows E s0 (executeBrokerRun E now its handlers run st br)"
proof -
  obtain s0 where s0: "sc_run s0 = run" "sc_store s0 = st" "sc_responses s0 = []" "flows E s0 (prepare_sched E now handlers run st br)"
    by (rule prepare_flows)
  have "flows E s0 (executeBrokerRun E now its handlers run st br)" unfolding executeBrokerRun_def
    by (intro flows_then s0(4) schedule_loop_flows, rule follows_inv, assumption, simp add: s0(1) assms)
  then show thesis by (rule that [OF s0(1-3)])
qed

text \<open>What \<open>Execute\<close> does before it schedules.\<close>

lemma Execute_steps:
  assumes "Execute E ctx ctxErr now its runID definition st br = Scheduling flow"
  obtains run0 stw y stc run1 handlers run2 st2 where "newWorkflowRun runID definition (now 0) = Inr run0"
    "st_SaveWorkflow (en_store E) st durability (run_definition run0) = (None, stw)"
    "st_CreateRun (en_store E) stw durability (Snapshot run0) = (Inr y, stc)"
    "transitionWorkflow (setPersistedVersion run0 (ws_Version y)) (now 1) WorkflowRunRunning = Inr run1"
    "saveRun (en_store E) durability stc run1 ''start workflow run'' = (None, run2, st2)"
    "resolveHandlers (en_registry E) (run_definition run0) = Inr handlers"
    "flow = executeBrokerRun E (\<lambda>i. now (i + 2)) its handlers run2 st2 br"
  using assms
  by (auto simp: Execute_def finished_run_def Let_def applyPersistedVersion_def
      split: if_splits sum.splits prod.splits option.splits)

lemma started_trace:
  assumes "transitionWorkflow (setPersistedVersion run0 v) now WorkflowRunRunning = Inr run1"
    "saveRun store durability st run1 operation = (None, run2, st2)"
  shows "\<exists>es. run_trace run0 es run2 \<and> trace_starts es = []"
proof -
  obtain es where es: "run_trace run1 es run2" "trace_starts es = []" using saveRun_trace [OF assms(2)] by blast
  have "run_trace run0 ([EvPersist v] @ [EvWorkflow WorkflowRunRunning]) run1"
    by (rule run_trace_append [OF run_trace_step run_trace_step]) (auto intro: run_step.intros assms(1))
  from run_trace_append [OF es(1) this] es(2) show ?thesis
    by (intro exI [of _ "([EvPersist v] @ [EvWorkflow WorkflowRunRunning]) @ es"]) (simp add: trace_starts_def map_filter_simps)
qed

lemma saveRun_saves:
  assumes "saveRun (en_store E) durability st run operation = (None, run', st')"
  shows "saves E (run, st) (run', st')"
  using assms unfolding saves_def by (rule saveRun_NoneE) (auto simp: saving_step_def)

lemma execution_flows:
  fixes E :: "('st, 'br, 'd, 'h) Engine"
  assumes "Execute E ctx ctxErr now its runID definition st br = Scheduling flow" "0 < now 0"
  obtains run0 stw y stc es s0 where "newWorkflowRun runID definition (now 0) = Inr run0"
    "st_SaveWorkflow (en_store E) st durability (run_definition run0) = (None, stw)"
    "st_CreateRun (en_store E) stw durability (Snapshot run0) = (Inr y, stc)" "saves E (setPersistedVersion run0 (ws_Version y), stc) (sc_run s0, sc_store s0)"
    "run_trace run0 es (sc_run s0)" "trace_starts es = []" "sc_responses s0 = []" "flows E s0 flow"
proof -
  obtain run0 stw y stc run1 handlers run2 st2 where x: "newWorkflowRun runID definition (now 0) = Inr run0"
      "st_SaveWorkflow (en_store E) st durability (run_definition run0) = (None, stw)"
      "st_CreateRun (en_store E) stw durability (Snapshot run0) = (Inr y, stc)"
      "transitionWorkflow (setPersistedVersion run0 (ws_Version y)) (now 1) WorkflowRunRunning = Inr run1"
      "saveRun (en_store E) durability stc run1 ''start workflow run'' = (None, run2, st2)"
      "resolveHandlers (en_registry E) (run_definition run0) = Inr handlers"
      "flow = executeBrokerRun E (\<lambda>i. now (i + 2)) its handlers run2 st2 br"
    using assms(1) by (rule Execute_steps)
  obtain es where es: "run_trace run0 es run2" "trace_starts es = []" using started_trace [OF x(4,5)] by blast
  have "run_inv run2" by (rule run_trace_inv [OF es(1) newWorkflowRun_inv [OF x(1) assms(2)]])
  then obtain s0 :: "('st, 'br, 'd, 'h) sched" where s0: "sc_run s0 = run2" "sc_store s0 = st2" "sc_responses s0 = []" "flows E s0 flow"
    unfolding x(7) by (rule executeBrokerRun_flows)
  have "run_trace (setPersistedVersion run0 (ws_Version y)) [EvWorkflow WorkflowRunRunning] run1"
    using x(4) by (auto intro: run_trace_step run_step.intros)
  from saves_trans [OF trace_saves [OF this] saveRun_saves [OF x(5)]]
  show thesis by (intro that [OF x(1-3) _ _ es(2) s0(3,4)]) (simp_all add: s0 es)
qed

text \<open>The run of a scheduler that waits is the new run after operations whose starts are the jobs handed out.\<close>

lemma execution_trace:
  assumes "Execute E ctx ctxErr now its runID definition st br = Scheduling (Continue s)" "0 < now 0"
  obtains run0 es where "newWorkflowRun runID definition (now 0) = Inr run0" "run_trace run0 es (sc_run s)"
    "trace_starts es = job_starts (sc_responses s)"
proof -
  obtain run0 es s0 where x: "newWorkflowRun runID definition (now 0) = Inr run0" "run_trace run0 es (sc_run s0)" "trace_starts es = []"
      "sc_responses s0 = []" "flows E s0 (Continue s)"
    using assms by (rule execution_flows)
  then obtain es' rs where y: "run_trace (sc_run s0) es' (sc_run s)" "sc_responses s = sc_responses s0 @ rs" "job_starts rs = trace_starts es'"
    by (auto simp: follows_def)
  show thesis by (rule that [OF x(1) run_trace_append [OF y(1) x(2)]]) (simp add: x y)
qed

section \<open>The attempts of a trace\<close>

lemma run_step_count:
  assumes "run_step run e run'" "mget (run_tasks run) k = Some t"
  shows "\<exists>t'. mget (run_tasks run') k = Some t' \<and> tr_AttemptCount t' = tr_AttemptCount t + (if \<exists>a w. e = EvStart k a w then 1 else 0)"
  using assms(1)
proof (cases rule: run_step.cases)
  case (ready tid now)
  then show ?thesis using assms(2) by (auto simp: taskStatus_Inr_iff transitionTask_def Let_def go_map)
next
  case (start now tid w d a)
  from start(2) show ?thesis
    by (rule startTaskAttempt_InrE) (use assms(2) start(1) in \<open>auto simp: go_map start_task_run_def Let_def\<close>)
next
  case (complete now tid tr w a out err outcome)
  from complete(2) show ?thesis
    by (cases rule: completeTaskAttempt_InrE) (use assms(2) complete(1) in \<open>auto simp: go_map dest: complete_task_run_fields(3)\<close>)
next
  case (recover now rs)
  then have "mget (run_tasks run') k = Some (recovered_task_run run (nextTimestampLocked run now) k t)"
    using assms(2) by (auto simp: recoverExpiredLeases_def Let_def go_map)
  then show ?thesis using recover(1)
    by (auto simp: recovered_task_run_def split: option.split dest: recover_task_run_fields(3))
next
  case (heartbeat now w d)
  from heartbeat(2) show ?thesis by (rule recordWorkerHeartbeat_InrE) (use assms(2) heartbeat(1) in \<open>simp add: go_map\<close>)
qed (use assms(2) in \<open>auto simp: transitionWorkflow_def cancelUnfinished_def Let_def go_map cancel_task_run_def
      promoteDueRetries_def promote_task_run_def setPersistedVersion_def split: if_splits\<close>)

text \<open>The starts of a task are its attempts, numbered from one.\<close>

definition numbered :: "RunID \<Rightarrow> TaskID \<Rightarrow> nat \<Rightarrow> (TaskID \<times> AttemptID) list" where
  "numbered runID k n = map (\<lambda>i. (k, AttemptIDFor (TaskRunIDFor runID k) (int i))) [1..<Suc n]"

lemma numbered_Suc: "numbered runID k (Suc n) = numbered runID k n @ [(k, AttemptIDFor (TaskRunIDFor runID k) (int (Suc n)))]"
  by (simp add: numbered_def)

lemma trace_starts_numbered:
  assumes "run_trace run es run'" "\<forall>k t. mget (run_tasks run) k = Some t \<longrightarrow> tr_AttemptCount t = 0" "mget (run_tasks run) k \<noteq> None"
  shows "\<exists>t. mget (run_tasks run') k = Some t \<and> 0 \<le> tr_AttemptCount t \<and>
    filter (\<lambda>p. fst p = k) (trace_starts es) = numbered (run_id run) k (nat (tr_AttemptCount t)) \<and> run_id run' = run_id run"
  using assms
proof (induction rule: run_trace.induct)
  case (trace_nil run)
  then obtain t where "mget (run_tasks run) k = Some t" "tr_AttemptCount t = 0" by auto
  then show ?case by (simp add: numbered_def)
next
  case (trace_snoc run es run' e run'')
  obtain t where t: "mget (run_tasks run') k = Some t" "0 \<le> tr_AttemptCount t" "run_id run' = run_id run"
      "filter (\<lambda>p. fst p = k) (trace_starts es) = numbered (run_id run) k (nat (tr_AttemptCount t))"
    using trace_snoc.IH trace_snoc.prems by blast
  obtain t' where t': "mget (run_tasks run'') k = Some t'"
      "tr_AttemptCount t' = tr_AttemptCount t + (if \<exists>a w. e = EvStart k a w then 1 else 0)"
    using run_step_count [OF trace_snoc.hyps(2) t(1)] by blast
  have id: "run_id run'' = run_id run" using run_step_id(1) [OF trace_snoc.hyps(2)] t(3) by simp
  show ?case
  proof (cases "\<exists>a w. e = EvStart k a w")
    case True
    then obtain a w where e: "e = EvStart k a w" by blast
    obtain now d where "startTaskAttempt run' now k w d = Inr (a, run'')" using trace_snoc.hyps(2) unfolding e by (cases rule: run_step.cases) auto
    then have "a = AttemptIDFor (TaskRunIDFor (run_id run) k) (tr_AttemptCount t + 1)"
      by (rule startTaskAttempt_InrE) (use t(1,3) in simp)
    moreover have "nat (tr_AttemptCount t') = Suc (nat (tr_AttemptCount t))" using t(2) t'(2) True by simp
    moreover have "trace_starts [e] = [(k, a)]" by (simp add: e trace_starts_def map_filter_simps)
    ultimately show ?thesis using t(2,4) t' id True by (simp add: numbered_Suc)
  next
    case False
    then have "filter (\<lambda>p. fst p = k) (trace_starts [e]) = []"
      by (auto simp: trace_starts_def map_filter_simps split: run_event.splits)
    then show ?thesis using t t' id False by simp
  qed
qed

lemma scheduling_kept:
  assumes "Execute E ctx ctxErr now its runID definition st br = Scheduling (Continue s)" "0 < now 0"
  obtains s0 run st1 where "kept E s0 s" "sched_inv s" "saveRun (en_store E) durability st1 run ''start workflow run'' = (None, sc_run s0, sc_store s0)"
proof -
  obtain handlers run run' st1 st2 where x: "live_inv run'"
      "saveRun (en_store E) durability st1 run ''start workflow run'' = (None, run', st2)"
      "executeBrokerRun E (\<lambda>i. now (i + 2)) its handlers run' st2 br = Continue s"
    using Execute_SchedulingE [OF assms] by metis
  then obtain s1 where s1: "prepare_sched E (\<lambda>i. now (i + 2)) handlers run' st2 br = Continue s1" "schedule_loop E its s1 = Continue s"
    by (auto simp: executeBrokerRun_def then_flow_Continue)
  obtain s0 where s0: "sc_run s0 = run'" "sc_store s0 = st2" "step_ok E s0 s1" using x(1) s1(1) by (rule prepare_sched_ok)
  have k: "sched_inv s \<and> kept E s1 s" using schedule_loop_Continue [OF _ s1(2)] s0(3) by (simp add: step_ok_def)
  then have "kept E s0 s" using s0(3) kept_trans by (auto simp: step_ok_def)
  then show thesis using that k x(2) s0(1,2) by blast
qed

lemma prepare_sched_error: "prepare_sched E now handlers run st br \<noteq> Return None s"
  by (auto simp: prepare_sched_def Let_def then_flow_Return split: prod.splits sum.splits option.splits if_splits)

lemma execution_done:
  assumes "Execute E ctx ctxErr now its runID definition st br = Scheduling (Return None s)" "0 < now 0"
  obtains s1 run now' where "sched_inv s1" "run_definition (sc_run s1) = cloneDefinition definition" "run_id (sc_run s1) = runID"
    "length (mkeys (sc_completed s1)) = length (wd_Tasks (run_definition (sc_run s1)))"
    "transitionWorkflow (sc_run s1) now' WorkflowRunSucceeded = Inr run"
    "sched_save E ''complete workflow run'' (s1\<lparr>sc_run := run\<rparr>) = (None, s)"
proof -
  obtain handlers run run' st1 st2 where x: "live_inv run'" "executeBrokerRun E (\<lambda>i. now (i + 2)) its handlers run' st2 br = Return None s"
    using Execute_SchedulingE [OF assms] by metis
  then obtain s2 where s2: "prepare_sched E (\<lambda>i. now (i + 2)) handlers run' st2 br = Continue s2" "schedule_loop E its s2 = Return None s"
    by (auto simp: executeBrokerRun_def then_flow_Return prepare_sched_error)
  have "sched_inv s2" using prepare_sched_ok [OF x(1) s2(1)] unfolding step_ok_def by metis
  then obtain s1 run now' where y: "sched_inv s1" "length (mkeys (sc_completed s1)) = length (wd_Tasks (run_definition (sc_run s1)))"
      "transitionWorkflow (sc_run s1) now' WorkflowRunSucceeded = Inr run" "sched_save E ''complete workflow run'' (s1\<lparr>sc_run := run\<rparr>) = (None, s)"
    using schedule_loop_done [OF _ s2(2)] by metis
  obtain v st' where "s = s1\<lparr>sc_run := setPersistedVersion run v, sc_store := st'\<rparr>" using y(4) by (rule sched_save_NoneE) simp
  then have same: "run_definition (sc_run s) = run_definition (sc_run s1)" "run_id (sc_run s) = run_id (sc_run s1)"
    using y(3) by (auto simp: transitionWorkflow_def setPersistedVersion_def split: if_splits)
  obtain run0 es s0 where z: "newWorkflowRun runID definition (now 0) = Inr run0" "run_trace run0 es (sc_run s0)" "flows E s0 (Return None s)"
    using assms by (rule execution_flows)
  then obtain es' where "run_trace run0 (es @ es') (sc_run s)" using run_trace_append [of "sc_run s0" _ "sc_run s" run0 es] by auto
  note tr = run_trace_definition [OF this] run_trace_run_id [OF this]
  have "run_definition run0 = cloneDefinition definition" "run_id run0 = runID" using z(1) by (auto elim: newWorkflowRun_InrE)
  then show thesis using that y same tr by simp
qed

lemma trace_starts_known:
  assumes "run_trace run es run'" "p \<in> set (trace_starts es)"
  shows "mget (run_tasks run) (fst p) \<noteq> None"
proof -
  have "mkeys (run_tasks run') = mkeys (run_tasks run) \<and> (\<forall>p \<in> set (trace_starts es). fst p \<in> set (mkeys (run_tasks run)))"
    using assms(1)
  proof (induction rule: run_trace.induct)
    case (trace_snoc run es run' e run'')
    have "fst p \<in> set (mkeys (run_tasks run'))" if p: "p \<in> set (trace_starts [e])" for p
    proof -
      obtain a w where e: "e = EvStart (fst p) a w" using p by (auto simp: trace_starts_def map_filter_simps split: run_event.splits)
      obtain now d where "startTaskAttempt run' now (fst p) w d = Inr (a, run'')" using trace_snoc.hyps(2) unfolding e by (cases rule: run_step.cases) auto
      then have "mhas (run_tasks run') (fst p)" by (rule startTaskAttempt_InrE) (simp add: mhas_def)
      then show ?thesis by (simp add: mhas_mkeys)
    qed
    then show ?case using trace_snoc.IH run_step_id(4) [OF trace_snoc.hyps(2)] by auto
  qed simp
  then show ?thesis using assms(2) by (simp add: mhas_mkeys [symmetric] mhas_def)
qed

lemma one_key: "\<lbrakk>distinct ks; x \<in> set ks\<rbrakk> \<Longrightarrow> (\<Sum>k\<leftarrow>ks. of_bool (x = k)) = (1::nat)"
proof (induction ks)
  case (Cons k ks)
  have "(\<Sum>k\<leftarrow>ks. of_bool (x = k)) = (0::nat)" if "x \<notin> set ks" using that by (induction ks) auto
  then show ?case using Cons by auto
qed simp

lemma length_by_key:
  "\<lbrakk>distinct ks; \<forall>p \<in> set ps. fst p \<in> set ks\<rbrakk> \<Longrightarrow> length ps = (\<Sum>k\<leftarrow>ks. length (filter (\<lambda>p. fst p = k) ps))"
proof (induction ps)
  case (Cons p ps)
  have "(\<Sum>k\<leftarrow>ks. length (filter (\<lambda>p. fst p = k) (p # ps))) = (\<Sum>k\<leftarrow>ks. of_bool (fst p = k) + length (filter (\<lambda>p. fst p = k) ps))"
    by (intro arg_cong [of _ _ sum_list] map_cong) simp_all
  also have "\<dots> = (\<Sum>k\<leftarrow>ks. of_bool (fst p = k)) + length ps" using Cons by (simp add: sum_list_addf)
  also have "(\<Sum>k\<leftarrow>ks. of_bool (fst p = k)) = (1::nat)" using Cons.prems one_key [of ks "fst p"] by simp
  finally show ?case by simp
qed (simp add: sum_list_0)

lemma distinct_by_key:
  assumes "\<And>k. distinct (filter (\<lambda>p. fst p = k) ps)"
  shows "distinct ps"
  using assms
proof (induction ps)
  case (Cons p ps)
  have "distinct (filter (\<lambda>q. fst q = k) ps)" for k using Cons.prems [of k] by (auto split: if_splits)
  moreover have "p \<notin> set ps" using Cons.prems [of "fst p"] by auto
  ultimately show ?case using Cons.IH by simp
qed simp

text \<open>From a run without attempts: no attempt is started twice, and a task not more often than its policy allows.\<close>

lemma starts_bounded:
  assumes "run_trace run es run'" "run_inv run" "\<forall>k t. mget (run_tasks run) k = Some t \<longrightarrow> tr_AttemptCount t = 0"
  shows "distinct (map snd (trace_starts es))"
    "length (trace_starts es) \<le> (\<Sum>k\<leftarrow>mkeys (run_tasks run). nat (EffectiveMaxAttempts (retryPolicyLocked run' k)))"
proof -
  let ?n = "\<lambda>k. numbered (run_id run) k"
  have num: "\<exists>n. filter (\<lambda>p. fst p = k) (trace_starts es) = ?n k n \<and> n \<le> nat (EffectiveMaxAttempts (retryPolicyLocked run' k))" for k
  proof (cases "mget (run_tasks run) k")
    case None
    then have "filter (\<lambda>p. fst p = k) (trace_starts es) = []" unfolding filter_empty_conv using trace_starts_known [OF assms(1)] by blast
    then show ?thesis by (intro exI [of _ 0]) (simp add: numbered_def)
  next
    case (Some t0)
    then obtain t where t: "mget (run_tasks run') k = Some t" "filter (\<lambda>p. fst p = k) (trace_starts es) = ?n k (nat (tr_AttemptCount t))"
      using trace_starts_numbered [OF assms(1,3), of k] by blast
    have "tr_AttemptCount t \<le> EffectiveMaxAttempts (retryPolicyLocked run' k)"
      using run_invD(9) [OF run_trace_inv [OF assms(1,2)] t(1)] by (auto simp: task_inv_def Let_def)
    then show ?thesis using t(2) by (intro exI [of _ "nat (tr_AttemptCount t)"]) (simp add: nat_mono)
  qed
  have "distinct (?n k n)" for k n by (auto simp: numbered_def distinct_map inj_on_def)
  then have "distinct (filter (\<lambda>p. fst p = k) (trace_starts es))" for k using num [of k] by metis
  then have "distinct (trace_starts es)" by (rule distinct_by_key)
  moreover have form: "\<exists>i. p = (fst p, AttemptIDFor (TaskRunIDFor (run_id run) (fst p)) i)" if "p \<in> set (trace_starts es)" for p
  proof -
    obtain n where "filter (\<lambda>q. fst q = fst p) (trace_starts es) = ?n (fst p) n" using num by blast
    moreover have "p \<in> set (filter (\<lambda>q. fst q = fst p) (trace_starts es))" using that by simp
    ultimately have "p \<in> set (?n (fst p) n)" by simp
    then show ?thesis by (auto simp: numbered_def)
  qed
  have "inj_on snd (set (trace_starts es))"
  proof (rule inj_onI)
    fix p q assume pq: "p \<in> set (trace_starts es)" "q \<in> set (trace_starts es)" "snd p = snd q"
    obtain i j where "p = (fst p, AttemptIDFor (TaskRunIDFor (run_id run) (fst p)) i)" "q = (fst q, AttemptIDFor (TaskRunIDFor (run_id run) (fst q)) j)"
      using form [OF pq(1)] form [OF pq(2)] by blast
    then show "p = q" using pq(3) by (metis AttemptIDFor_inj TaskRunIDFor_inj snd_conv)
  qed
  ultimately show "distinct (map snd (trace_starts es))" by (simp add: distinct_map)
  have "length (trace_starts es) = (\<Sum>k\<leftarrow>mkeys (run_tasks run). length (filter (\<lambda>p. fst p = k) (trace_starts es)))"
  proof (rule length_by_key)
    show "distinct (mkeys (run_tasks run))" using run_invD(6) [OF assms(2)] by (simp add: wf_map_def mkeys_def)
    show "\<forall>p \<in> set (trace_starts es). fst p \<in> set (mkeys (run_tasks run))"
      using trace_starts_known [OF assms(1)] unfolding mhas_mkeys [symmetric] mhas_def by blast
  qed
  also have "\<dots> \<le> (\<Sum>k\<leftarrow>mkeys (run_tasks run). nat (EffectiveMaxAttempts (retryPolicyLocked run' k)))"
  proof (rule sum_list_mono)
    fix k
    obtain n where "filter (\<lambda>p. fst p = k) (trace_starts es) = ?n k n" "n \<le> nat (EffectiveMaxAttempts (retryPolicyLocked run' k))" using num by blast
    then show "length (filter (\<lambda>p. fst p = k) (trace_starts es)) \<le> nat (EffectiveMaxAttempts (retryPolicyLocked run' k))" by (simp add: numbered_def)
  qed
  finally show "length (trace_starts es) \<le> (\<Sum>k\<leftarrow>mkeys (run_tasks run). nat (EffectiveMaxAttempts (retryPolicyLocked run' k)))" .
qed

end
