(* ===== verification/FF_Execution.thy ===== *)
theory FF_Execution
  imports FF_Driver FF_BrokerSystem
begin

text \<open>
  What an execution of a workflow guarantees. The contract that the engine expects of its store is a locale, which
  the file store of \<open>internal/persistence/file_store.go\<close> interprets; the engine is then run on the file store and on
  the in-memory broker.
\<close>

section \<open>The contract of a store\<close>

definition synced :: "'st Store \<Rightarrow> 'st \<Rightarrow> WorkflowRun \<Rightarrow> bool" where
  "synced store st run \<longleftrightarrow> st_LoadRun store st durability (run_id run) = Inr (Some (Snapshot run))"

lemma clone_ID: "wd_ID (cloneDefinition d) = wd_ID d"
  by (simp add: cloneDefinition_def)

lemma Snapshot_version: "Snapshot (setPersistedVersion run v) = (Snapshot run)\<lparr>ws_Version := v\<rparr>"
  by (simp add: Snapshot_def setPersistedVersion_def sortedTasksLocked_def sortedWorkersLocked_def)

text \<open>A successful \<open>SaveRun\<close> returns what it was given under the next version, and \<open>LoadRun\<close> finds it.\<close>

locale run_store =
  fixes store :: "'st Store"
  assumes save_stores: "st_SaveRun store st durability x = (Inr y, st') \<Longrightarrow>
    y = x\<lparr>ws_Version := ws_Version x + 1\<rparr> \<and> st_LoadRun store st' durability (ws_ID x) = Inr (Some y)"
begin

lemma saveRun_synced:
  assumes "saveRun store durability st run operation = (None, run', st')"
  shows "synced store st' run'"
proof -
  obtain y where y: "st_SaveRun store st durability (Snapshot run) = (Inr y, st')" "run' = setPersistedVersion run (ws_Version y)"
    using assms by (rule saveRun_NoneE)
  from save_stores [OF y(1)] show ?thesis
    by (simp add: synced_def y(2) Snapshot_version) (simp add: Snapshot_def setPersistedVersion_def)
qed

lemma kept_synced:
  assumes "kept E s s'" "en_store E = store" "synced store (sc_store s) (sc_run s)"
  shows "synced store (sc_store s') (sc_run s')"
  using assms(1) unfolding kept_def
proof (elim disjE exE conjE)
  fix operation s2 s3
  assume sv: "sched_save E operation s2 = (None, s3)" and eq: "sc_run s' = sc_run s3" "sc_store s' = sc_store s3"
  have "saveRun store durability (sc_store s2) (sc_run s2) operation = (None, sc_run s3, sc_store s3)"
    using sv by (auto simp: sched_save_def assms(2) split: prod.splits)
  then show ?thesis unfolding eq by (rule saveRun_synced)
qed (use assms(3) in simp)

text \<open>Whenever the scheduler waits for an event, the run it works on is the run in the store.\<close>

lemma scheduling_synced:
  assumes "Execute E ctx ctxErr now its runID definition st br = Scheduling (Continue s)" "0 < now 0" "en_store E = store"
  shows "synced store (sc_store s) (sc_run s)"
proof -
  obtain s0 run st1 where "kept E s0 s" "saveRun store durability st1 run ''start workflow run'' = (None, sc_run s0, sc_store s0)"
    using scheduling_kept [OF assms(1,2)] unfolding assms(3) by metis
  then show ?thesis using kept_synced [OF _ assms(3)] saveRun_synced by blast
qed

end

text \<open>A store also checks what it saves, keeps a workflow once it is saved, and does not touch it for a run.\<close>

locale workflow_store = run_store +
  assumes save_checks: "st_SaveRun store st durability x = (Inr y, st') \<Longrightarrow> snapshot_Validate x = Inr ()"
    and save_keeps: "st_SaveRun store st durability x = (Inr y, st') \<Longrightarrow> st_LoadWorkflow store st' durability w = st_LoadWorkflow store st durability w"
    and create_keeps: "st_CreateRun store st durability x = (Inr y, st') \<Longrightarrow> st_LoadWorkflow store st' durability w = st_LoadWorkflow store st durability w"
    and workflow_stored: "st_SaveWorkflow store st durability (cloneDefinition d) = (None, st') \<Longrightarrow>
      st_LoadWorkflow store st' durability (wd_ID d) = Inr (Some (cloneDefinition d))"
begin

lemma saves_keep:
  assumes "saves E p p'" "en_store E = store"
  shows "st_LoadWorkflow store (snd p') durability w = st_LoadWorkflow store (snd p) durability w"
  using assms(1) unfolding saves_def assms(2)
proof (induction rule: rtranclp_induct)
  case (step p1 p2)
  then show ?case using save_keeps [of "snd p1" "Snapshot (fst p1)" _ "snd p2" w] by (auto simp: saving_step_def assms(2))
qed simp

lemma scheduling_workflow:
  assumes "Execute E ctx ctxErr now its runID definition st br = Scheduling (Continue s)" "0 < now 0" "en_store E = store"
  shows "st_LoadWorkflow store (sc_store s) durability (wd_ID definition) = Inr (Some (cloneDefinition definition))"
proof -
  obtain run0 stw y stc s0 where x: "newWorkflowRun runID definition (now 0) = Inr run0"
      "st_SaveWorkflow store st durability (run_definition run0) = (None, stw)" "st_CreateRun store stw durability (Snapshot run0) = (Inr y, stc)"
      "saves E (setPersistedVersion run0 (ws_Version y), stc) (sc_run s0, sc_store s0)" "flows E s0 (Continue s)"
    using execution_flows [OF assms(1,2)] unfolding assms(3) by metis
  have "run_definition run0 = cloneDefinition definition" using x(1) by (rule newWorkflowRun_InrE) simp
  then have "st_LoadWorkflow store stw durability (wd_ID definition) = Inr (Some (cloneDefinition definition))"
    using x(2) workflow_stored by simp
  moreover have "saves E (setPersistedVersion run0 (ws_Version y), stc) (sc_run s, sc_store s)"
    using x(4,5) saves_trans by (auto simp: follows_def)
  ultimately show ?thesis using saves_keep [OF _ assms(3)] create_keeps [OF x(3)] by fastforce
qed

lemma scheduling_checked:
  assumes "Execute E ctx ctxErr now its runID definition st br = Scheduling (Continue s)" "0 < now 0" "en_store E = store"
  shows "snapshot_Validate (Snapshot (sc_run s)) = Inr ()"
proof -
  have checked: "snapshot_Validate (Snapshot run') = Inr ()" if "saveRun store durability st1 run operation = (None, run', st')" for st1 run operation run' st'
    using that by (rule saveRun_NoneE) (auto simp: Snapshot_version snapshot_Validate_version dest: save_checks)
  obtain s0 run st1 where x: "kept E s0 s" "saveRun store durability st1 run ''start workflow run'' = (None, sc_run s0, sc_store s0)"
    using scheduling_kept [OF assms(1,2)] unfolding assms(3) by metis
  from x(1) show ?thesis unfolding kept_def
  proof (elim disjE exE conjE)
    fix operation s2 s3
    assume sv: "sched_save E operation s2 = (None, s3)" and eq: "sc_run s = sc_run s3"
    have "saveRun store durability (sc_store s2) (sc_run s2) operation = (None, sc_run s3, sc_store s3)"
      using sv by (auto simp: sched_save_def assms(3) split: prod.splits)
    then show ?thesis unfolding eq by (rule checked)
  qed (use checked [OF x(2)] in simp)
qed

end

section \<open>The file store and the in-memory broker as parts of the engine\<close>

text \<open>The state of the store carries what the system calls of the coming appends answer; after those that are
  listed they succeed.\<close>

type_synonym file_state = "FileStore \<times> append_io list"

definition next_io :: "append_io list \<Rightarrow> append_io" where
  "next_io ios = (case ios of [] \<Rightarrow> good_io | io # _ \<Rightarrow> io)"

definition on_file :: "(append_io \<Rightarrow> FileStore \<Rightarrow> 'a \<times> FileStore) \<Rightarrow> file_state \<Rightarrow> 'a \<times> file_state" where
  "on_file f st = (case f (next_io (snd st)) (fst st) of (a, store) \<Rightarrow> (a, store, tl (snd st)))"

definition file_Store :: "journal_codec \<Rightarrow> file_state Store" where
  "file_Store codec =
     \<lparr>st_SaveWorkflow = (\<lambda>st ctx definition. on_file (\<lambda>io store. SaveWorkflow codec io ctx ctx store definition) st),
      st_LoadWorkflow = (\<lambda>st ctx workflowID. LoadWorkflow (fst st) ctx workflowID),
      st_CreateRun = (\<lambda>st ctx snapshot. on_file (\<lambda>io store. CreateRun codec io ctx ctx store snapshot) st),
      st_SaveRun = (\<lambda>st ctx snapshot. on_file (\<lambda>io store. SaveRun codec io ctx ctx store snapshot) st),
      st_LoadRun = (\<lambda>st ctx runID. LoadRun (fst st) ctx runID)\<rparr>"

definition memory_Broker :: "(InMemoryBroker, memoryDelivery) Broker" where
  "memory_Broker =
     \<lparr>bk_Publish = memory_Publish, bk_Ack = memory_Ack, bk_Nack = memory_Nack,
      bk_Progress = (\<lambda>br ctx delivery. (memory_Progress br ctx delivery, br)), bk_Message = md_message\<rparr>"

lemma store_run_workflows: "store_run codec io ctx store operation v x = (Inr y, store') \<Longrightarrow> fs_workflows store' = fs_workflows store"
  by (auto simp: store_run_def commit_def Let_def split: sum.splits option.splits prod.splits elim!: appendRecord_cases)

interpretation file_runs: run_store "file_Store codec" for codec
proof unfold_locales
  fix st st' x y
  assume sv: "st_SaveRun (file_Store codec) st durability x = (Inr y, st')"
  then have "SaveRun codec (next_io (snd st)) durability durability (fst st) x = (Inr y, fst st')"
    by (auto simp: file_Store_def on_file_def split: prod.splits)
  from SaveRun_saved [OF this]
  show "y = x\<lparr>ws_Version := ws_Version x + 1\<rparr> \<and> st_LoadRun (file_Store codec) st' durability (ws_ID x) = Inr (Some y)"
    by (simp add: file_Store_def LoadRun_def durability_def store_contextError_def checkE_def bindE_def)
qed

interpretation file_workflows: workflow_store "file_Store codec" for codec
proof unfold_locales
  fix st st' x y w
  assume sv: "st_SaveRun (file_Store codec) st durability x = (Inr y, st')"
  then have s: "SaveRun codec (next_io (snd st)) durability durability (fst st) x = (Inr y, fst st')"
    by (auto simp: file_Store_def on_file_def split: prod.splits)
  then show "snapshot_Validate x = Inr ()"
    by (auto simp: SaveRun_def bindE_Inr_iff split: sum.splits)
  show "st_LoadWorkflow (file_Store codec) st' durability w = st_LoadWorkflow (file_Store codec) st durability w"
    using s by (auto simp: file_Store_def LoadWorkflow_def SaveRun_def dest: store_run_workflows split: sum.splits option.splits if_splits)
next
  fix st st' x y w
  assume "st_CreateRun (file_Store codec) st durability x = (Inr y, st')"
  then have "CreateRun codec (next_io (snd st)) durability durability (fst st) x = (Inr y, fst st')"
    by (auto simp: file_Store_def on_file_def split: prod.splits)
  then show "st_LoadWorkflow (file_Store codec) st' durability w = st_LoadWorkflow (file_Store codec) st durability w"
    by (auto simp: file_Store_def LoadWorkflow_def CreateRun_def dest: store_run_workflows split: sum.splits option.splits if_splits)
next
  fix st st' d
  assume "st_SaveWorkflow (file_Store codec) st durability (cloneDefinition d) = (None, st')"
  then have "SaveWorkflow codec (next_io (snd st)) durability durability (fst st) (cloneDefinition d) = (None, fst st')"
    by (auto simp: file_Store_def on_file_def split: prod.splits)
  then have "mget (fs_workflows (fst st')) (wd_ID d) = Some (cloneDefinition d)"
    by (auto simp: SaveWorkflow_def Let_def commit_def fs_cloneDefinition_eq clone_ID split: sum.splits option.splits if_splits prod.splits)
      (drule sym, simp add: go_map)
  then show "st_LoadWorkflow (file_Store codec) st' durability (wd_ID d) = Inr (Some (cloneDefinition d))"
    by (simp add: file_Store_def LoadWorkflow_def durability_def store_contextError_def checkE_def bindE_def fs_cloneDefinition_eq)
qed

section \<open>Properties of an execution\<close>

lemma execution_inv:
  assumes "Execute E ctx ctxErr now its runID definition st br = Scheduling (Continue s)" "0 < now 0"
  shows "sched_inv s" "run_id (sc_run s) = runID" "run_definition (sc_run s) = cloneDefinition definition"
proof -
  obtain run0 es where x: "newWorkflowRun runID definition (now 0) = Inr run0" "run_trace run0 es (sc_run s)"
    using assms by (rule execution_trace)
  have "run_id run0 = runID" "run_definition run0 = cloneDefinition definition" using x(1) by (auto elim: newWorkflowRun_InrE)
  then show "run_id (sc_run s) = runID" "run_definition (sc_run s) = cloneDefinition definition"
    using run_trace_run_id [OF x(2)] run_trace_definition [OF x(2)] by simp_all
  obtain s0 where "kept E s0 s" "sched_inv s" using assms by (rule scheduling_kept)
  then show "sched_inv s" by simp
qed

text \<open>C1: a worker is given a job only when every dependency of its task has succeeded, and the job is the attempt as
  which the task is running.\<close>

theorem dependencies_first:
  assumes "Execute E ctx ctxErr now its runID definition st br = Scheduling (Continue s)" "0 < now 0"
    "loop_iteration E it s = Continue s'" "sc_responses s' = sc_responses s @ rs" "(channel, Some job) \<in> set rs"
    "k = td_ID (rq_Task (tj_request job))"
  shows "(\<forall>d \<in> set (deps_of definition k). status_of (sc_run s') d = Some TaskRunSucceeded) \<and>
    (\<exists>task. mget (run_tasks (sc_run s')) k = Some task \<and> tr_Status task = TaskRunRunning \<and>
       tr_CurrentAttemptID task = rq_AttemptID (tj_request job))"
proof -
  note ok = loop_iteration_ok [OF execution_inv(1) [OF assms(1,2)] assms(3)]
  have "\<not> quiet s s'" using assms(4,5) by (force simp: quiet_def no_jobs_def)
  then obtain s1 where s1: "quiet s s1" "handed s1 s'" using ok(3) by blast
  obtain qs c job' where q: "rs = qs @ [(c, Some job')]" "\<forall>r \<in> set qs. snd r = None" and
      h: "deps_done (sc_run s') (td_ID (rq_Task (tj_request job')))"
      "\<exists>task. mget (run_tasks (sc_run s')) (td_ID (rq_Task (tj_request job'))) = Some task \<and> tr_Status task = TaskRunRunning \<and>
         tr_CurrentAttemptID task = rq_AttemptID (tj_request job')"
    using s1 assms(4) unfolding quiet_def handed_def no_jobs_def by auto
  have "job' = job" using assms(5) q by (force simp: q(1))
  then have "deps_done (sc_run s') k \<and> (\<exists>task. mget (run_tasks (sc_run s')) k = Some task \<and> tr_Status task = TaskRunRunning \<and>
       tr_CurrentAttemptID task = rq_AttemptID (tj_request job))"
    using h unfolding assms(6) by blast
  moreover have "run_definition (sc_run s') = cloneDefinition definition"
    using iteration_definition [OF _ assms(3)] execution_inv [OF assms(1,2)] sched_inv_run by metis
  ultimately show ?thesis by (simp add: deps_done_def deps_of_clone)
qed

text \<open>C4: the scheduler never stalls. In every state that it reaches, once it has recovered leases, found the run
  incomplete and published, something is ready or running, or a retry is due later.\<close>

theorem never_stalls:
  assumes "Execute E ctx ctxErr now its runID definition st br = Scheduling (Continue s)" "0 < now 0"
    "loop_recover E now1 s = Continue s1" "loop_complete E now2 s1 = Continue s2" "publishReadyTasks E ctx' s2 = Continue s3"
  shows "\<not> stalled s3"
proof -
  have "sched_inv s1" using loop_recover_ok [OF execution_inv(1) [OF assms(1,2)] assms(3)] by (simp add: step_ok_def)
  moreover have "s2 = s1" "length (mkeys (sc_completed s1)) \<noteq> length (wd_Tasks (run_definition (sc_run s1)))"
    using loop_complete_Continue [OF assms(4)] by simp_all
  moreover have "same_view s2 s3" using assms(5) unfolding publishReadyTasks_def by (rule publish_loop_view)
  ultimately show ?thesis using same_view_inv by (intro not_stalled) (auto simp: same_view_def)
qed

text \<open>C5: nothing is lost in a crash. Whenever the scheduler waits, the store holds the run exactly as the scheduler
  has it.\<close>

theorem run_persisted:
  assumes "Execute E ctx ctxErr now its runID definition st br = Scheduling (Continue s)" "0 < now 0" "en_store E = file_Store codec"
  shows "LoadRun (fst (sc_store s)) (Context None) runID = Inr (Some (Snapshot (sc_run s)))"
  using file_runs.scheduling_synced [OF assms] execution_inv(2) [OF assms(1,2)]
  by (simp add: synced_def file_Store_def durability_def)

text \<open>C6: an execution that returns no error has succeeded: every task of the workflow and the run itself have
  succeeded, and the store holds that run.\<close>

theorem success_complete:
  assumes "Execute E ctx ctxErr now its runID definition st br = Scheduling (Return None s)" "0 < now 0" "en_store E = file_Store codec"
  shows "run_status (sc_run s) = WorkflowRunSucceeded \<and>
    (\<forall>k \<in> set (task_ids definition). status_of (sc_run s) k = Some TaskRunSucceeded) \<and>
    LoadRun (fst (sc_store s)) (Context None) runID = Inr (Some (Snapshot (sc_run s)))"
proof -
  obtain s1 run now' where x: "sched_inv s1" "run_definition (sc_run s1) = cloneDefinition definition" "run_id (sc_run s1) = runID"
      "length (mkeys (sc_completed s1)) = length (wd_Tasks (run_definition (sc_run s1)))"
      "transitionWorkflow (sc_run s1) now' WorkflowRunSucceeded = Inr run"
      "sched_save E ''complete workflow run'' (s1\<lparr>sc_run := run\<rparr>) = (None, s)"
    using assms(1,2) by (rule execution_done)
  have run: "run_status run = WorkflowRunSucceeded" "run_tasks run = run_tasks (sc_run s1)" "run_id run = run_id (sc_run s1)"
    using x(5) by (auto simp: transitionWorkflow_def split: if_splits)
  have sv: "saveRun (file_Store codec) durability (sc_store s1) run ''complete workflow run'' = (None, sc_run s, sc_store s)"
    using x(6) by (auto simp: sched_save_def assms(3) split: prod.splits)
  then obtain v where v: "sc_run s = setPersistedVersion run v" by (rule saveRun_NoneE)
  have "synced (file_Store codec) (sc_store s) (sc_run s)" using sv by (rule file_runs.saveRun_synced)
  moreover have "status_of (sc_run s) k = Some TaskRunSucceeded" if "k \<in> set (task_ids definition)" for k
    using all_completed [OF x(1,4)] that run(2) by (simp add: v x(2) status_of_def setPersistedVersion_def)
  ultimately show ?thesis using run x(3) by (simp add: v synced_def file_Store_def durability_def setPersistedVersion_def)
qed

lemma terminal_state_none:
  "(\<forall>t \<in> set ts. tr_Status t \<notin> {TaskRunFailed, TaskRunCanceled}) \<Longrightarrow> terminal_state_loop ts False = None"
  by (induction ts) simp_all

lemma live_not_terminal:
  assumes "live_inv run"
  shows "terminal_state_loop (sortedTasksLocked run) False = None"
proof (rule terminal_state_none, rule ballI)
  fix t assume "t \<in> set (sortedTasksLocked run)"
  then have "status_of run (tr_TaskID t) = Some (tr_Status t)"
    using set_sortedTasks [of run t] assms by (simp add: live_inv_def status_of_def)
  then show "tr_Status t \<notin> {TaskRunFailed, TaskRunCanceled}" using assms unfolding live_inv_def by fastforce
qed


text \<open>C3: the work of a run ends. Whatever happens to workers, leases and messages, and however long the scheduler
  runs, no attempt is handed out twice, and all jobs together are at most the attempts that the retry policies of
  the tasks allow.\<close>

theorem jobs_bounded:
  assumes "Execute E ctx ctxErr now its runID definition st br = Scheduling (Continue s)" "0 < now 0"
  shows "distinct (map snd (job_starts (sc_responses s))) \<and>
    length (job_starts (sc_responses s)) \<le> (\<Sum>k\<leftarrow>task_ids definition. nat (EffectiveMaxAttempts (retryPolicyLocked (sc_run s) k)))"
proof -
  obtain run0 es where x: "newWorkflowRun runID definition (now 0) = Inr run0" "run_trace run0 es (sc_run s)"
      "trace_starts es = job_starts (sc_responses s)"
    using assms by (rule execution_trace)
  have fresh: "\<forall>k t. mget (run_tasks run0) k = Some t \<longrightarrow> tr_AttemptCount t = 0" "mkeys (run_tasks run0) = task_ids definition"
    using x(1) by (auto elim!: newWorkflowRun_InrE simp: new_task_run_def mkeys_def comp_def dest!: map_of_SomeD)
  show ?thesis using starts_bounded [OF x(2) newWorkflowRun_inv [OF x(1) assms(2)] fresh(1)] unfolding x(3) fresh(2) by blast
qed

section \<open>Recovery from the journal\<close>

text \<open>As long as the engine goes on, its file store goes through successful operations only.\<close>

lemma file_save_reach:
  assumes "st_SaveRun (file_Store codec) st durability x = (Inr y, st')" "store_reach codec UNIV (fst st)"
  shows "store_reach codec UNIV (fst st')"
proof -
  have "op_run codec (next_io (snd st)) durability durability (fst st) (OpSaveRun x) = (None, fst st')"
    using assms(1) by (auto simp: file_Store_def on_file_def split: prod.splits)
  from reach_op [OF assms(2) this] show ?thesis by simp
qed

lemma saves_reach:
  assumes "saves E p p'" "en_store E = file_Store codec" "store_reach codec UNIV (fst (snd p))"
  shows "store_reach codec UNIV (fst (snd p'))"
  using assms(1) unfolding saves_def
proof (induction rule: rtranclp_induct)
  case (step p1 p2)
  then show ?case using file_save_reach [of codec "snd p1" "Snapshot (fst p1)" _ "snd p2"] by (auto simp: saving_step_def assms(2))
qed (rule assms(3))

lemma execution_reach:
  assumes "Execute E ctx ctxErr now its runID definition st br = Scheduling (Continue s)" "0 < now 0" "en_store E = file_Store codec"
    "store_reach codec UNIV (fst st)"
  shows "store_reach codec UNIV (fst (sc_store s))"
proof -
  obtain run0 stw y stc s0 where x: "st_SaveWorkflow (file_Store codec) st durability (run_definition run0) = (None, stw)"
      "st_CreateRun (file_Store codec) stw durability (Snapshot run0) = (Inr y, stc)"
      "saves E (setPersistedVersion run0 (ws_Version y), stc) (sc_run s0, sc_store s0)" "flows E s0 (Continue s)"
    using execution_flows [OF assms(1,2)] unfolding assms(3) by metis
  have "op_run codec (next_io (snd st)) durability durability (fst st) (OpSaveWorkflow (run_definition run0)) = (None, fst stw)"
    using x(1) by (auto simp: file_Store_def on_file_def split: prod.splits)
  from reach_op [OF assms(4) this] have "store_reach codec UNIV (fst stw)" by simp
  moreover have "op_run codec (next_io (snd stw)) durability durability (fst stw) (OpCreateRun (Snapshot run0)) = (None, fst stc)"
    using x(2) by (auto simp: file_Store_def on_file_def split: prod.splits)
  from reach_op [OF calculation this] have "store_reach codec UNIV (fst stc)" by simp
  moreover have "saves E (setPersistedVersion run0 (ws_Version y), stc) (sc_run s, sc_store s)"
    using x(3,4) saves_trans by (auto simp: follows_def)
  ultimately show ?thesis using saves_reach [OF _ assms(3), of "(setPersistedVersion run0 (ws_Version y), stc)" "(sc_run s, sc_store s)"] by simp
qed

lemma recover_waiting:
  assumes "Execute E ctx ctxErr now its runID definition st br = Scheduling (Continue s)" "0 < now 0" "en_store E = file_Store codec"
    "en_store E' = file_Store codec" "resolveHandlers (en_registry E') (cloneDefinition definition) = Inr handlers"
  shows "\<exists>run. Recover E' (Context None) None now' its' runID (fst (sc_store s), ios) br' =
      Scheduling (executeBrokerRun E' now' its' handlers run (fst (sc_store s), ios) br') \<and>
    mget (run_tasks run) = mget (run_tasks (sc_run s)) \<and> mget (run_workers run) = mget (run_workers (sc_run s)) \<and>
    run_definition run = run_definition (sc_run s) \<and> Snapshot run = Snapshot (sc_run s)"
proof -
  note inv = execution_inv [OF assms(1,2)]
  have run: "run_inv (sc_run s)" "run_status (sc_run s) = WorkflowRunRunning" "validRunID runID"
    using inv run_invD(1) [OF sched_inv_run [OF inv(1)]] by (auto simp: sched_inv_def live_inv_def validRunID_def)
  have load: "st_LoadRun (file_Store codec) (fst (sc_store s), ios) (Context None) runID = Inr (Some (Snapshot (sc_run s)))"
      "st_LoadWorkflow (file_Store codec) (fst (sc_store s), ios) (Context None) (wd_ID (run_definition (sc_run s))) = Inr (Some (cloneDefinition definition))"
    using file_runs.scheduling_synced [OF assms(1-3)] file_workflows.scheduling_workflow [OF assms(1-3)]
    by (simp_all add: synced_def inv durability_def Snapshot_def clone_ID file_Store_def)
  obtain run where r: "restoreWorkflowRun (Snapshot (sc_run s)) (cloneDefinition definition) = Inr run"
      "mget (run_tasks run) = mget (run_tasks (sc_run s))" "mget (run_workers run) = mget (run_workers (sc_run s))"
      "run_definition run = run_definition (sc_run s)" "run_status run = WorkflowRunRunning" "Snapshot run = Snapshot (sc_run s)"
    using restored_run [OF run(1) file_workflows.scheduling_checked [OF assms(1-3)]] run(2) unfolding inv(3) by metis
  have "recoveredTerminalTaskState run = None"
    using live_not_terminal [of "sc_run s"] inv(1) r(6) by (simp add: recoveredTerminalTaskState_def sched_inv_def Snapshot_def)
  then have "Recover E' (Context None) None now' its' runID (fst (sc_store s), ios) br' =
      Scheduling (executeBrokerRun E' now' its' handlers run (fst (sc_store s), ios) br')"
    using run(3) r(1,5) assms(5) by (simp add: Recover_def recover_run_def resume_run_def run_finished_def assms(4) load)
  then show ?thesis using r by blast
qed


end
