(* ===== verification/FF_Events.thy ===== *)
theory FF_Events
  imports FF_Execution "HOL-Library.Product_Lexorder"
begin

text \<open>
  The event streams of \<open>internal/api/events.go\<close>: the events that a change of a run gives rise to, the broker that
  numbers and keeps them per run, the store wrapper through which the engine feeds it, the submission of
  a run to the server, and the loop of \<open>handleRunEvents\<close> that sends the events to a client. Metrics and log lines are left out. A notification channel is the
  number of channels the stream has used before it: a client that waits on channel \<open>n\<close> is woken when the number has
  grown or the broker is closed.
\<close>

section \<open>events.go: data\<close>

definition eventWorkflowStarted :: string where "eventWorkflowStarted = ''workflow_started''"
definition eventTaskReady :: string where "eventTaskReady = ''task_ready''"
definition eventTaskStarted :: string where "eventTaskStarted = ''task_started''"
definition eventTaskSucceeded :: string where "eventTaskSucceeded = ''task_succeeded''"
definition eventTaskFailed :: string where "eventTaskFailed = ''task_failed''"
definition eventTaskCanceled :: string where "eventTaskCanceled = ''task_canceled''"
definition eventRetryScheduled :: string where "eventRetryScheduled = ''retry_scheduled''"
definition eventWorkflowCompleted :: string where "eventWorkflowCompleted = ''workflow_completed''"
definition eventRunSnapshot :: string where "eventRunSnapshot = ''run_snapshot''"

lemmas event_type_defs = eventWorkflowStarted_def eventTaskReady_def eventTaskStarted_def eventTaskSucceeded_def
  eventTaskFailed_def eventTaskCanceled_def eventRetryScheduled_def eventWorkflowCompleted_def eventRunSnapshot_def

record RunEvent =
  ev_Sequence :: u64
  ev_Type :: string
  ev_RunID :: RunID
  ev_WorkflowID :: WorkflowID
  ev_TaskID :: TaskID
  ev_Status :: WorkflowRunStatus
  ev_TaskStatus :: TaskRunStatus
  ev_AttemptID :: AttemptID
  ev_OccurredAt :: Time
  ev_previousTaskStatus :: TaskRunStatus
  ev_workerID :: WorkerID

record runEventStream =
  es_latest :: WorkflowRunSnapshot
  es_events :: "RunEvent list"
  es_notify :: nat

record eventBroker =
  eb_streams :: "(RunID, runEventStream) gomap"
  eb_closed :: bool

definition newEventBroker :: eventBroker where
  "newEventBroker = \<lparr>eb_streams = [], eb_closed = False\<rparr>"

definition zero_event :: RunEvent where
  "zero_event = \<lparr>ev_Sequence = 0, ev_Type = '''', ev_RunID = '''', ev_WorkflowID = '''', ev_TaskID = '''',
     ev_Status = WorkflowRunOther '''', ev_TaskStatus = TaskRunOther '''', ev_AttemptID = '''', ev_OccurredAt = zero_time,
     ev_previousTaskStatus = TaskRunOther '''', ev_workerID = ''''\<rparr>"

section \<open>events.go: the events of a change\<close>

definition terminalWorkflowStatus :: "WorkflowRunStatus \<Rightarrow> bool" where
  "terminalWorkflowStatus status \<longleftrightarrow>
     status = WorkflowRunSucceeded \<or> status = WorkflowRunFailed \<or> status = WorkflowRunCanceled"

fun taskTransitionEvent :: "TaskRunStatus \<Rightarrow> TaskRunStatus \<Rightarrow> string \<times> int" where
  "taskTransitionEvent from TaskRunSucceeded = (eventTaskSucceeded, 1)"
| "taskTransitionEvent from TaskRunFailed = (eventTaskFailed, 1)"
| "taskTransitionEvent from TaskRunCanceled = (eventTaskCanceled, 1)"
| "taskTransitionEvent from TaskRunRetryWaiting = (eventRetryScheduled, 1)"
| "taskTransitionEvent from TaskRunReady = (if from = TaskRunRunning then (eventRetryScheduled, 1) else (eventTaskReady, 2))"
| "taskTransitionEvent from TaskRunRunning = (eventTaskStarted, 3)"
| "taskTransitionEvent from _ = ('''', 0)"

definition transitionWorkerID :: "TaskRun \<Rightarrow> TaskRun \<Rightarrow> WorkerID" where
  "transitionWorkerID previous current =
     (case tr_Lease current of Some lease \<Rightarrow> tl_WorkerID lease
      | None \<Rightarrow> (case tr_Lease previous of Some lease \<Rightarrow> tl_WorkerID lease | None \<Rightarrow> ''''))"

record taskEvent =
  te_priority :: int
  te_event :: RunEvent

text \<open>The body of the loop over the tasks of the current snapshot.\<close>

definition task_event :: "(TaskID, TaskRun) gomap \<Rightarrow> WorkflowRunSnapshot \<Rightarrow> TaskRun \<Rightarrow> taskEvent option" where
  "task_event previousTasks current task =
     (case mget previousTasks (tr_TaskID task) of
        None \<Rightarrow> None
      | Some old \<Rightarrow>
          if tr_Status old = tr_Status task then None
          else let (eventType, priority) = taskTransitionEvent (tr_Status old) (tr_Status task)
               in if eventType = '''' then None
                  else Some \<lparr>te_priority = priority,
                         te_event = zero_event\<lparr>ev_Type := eventType, ev_RunID := ws_ID current, ev_WorkflowID := ws_WorkflowID current,
                           ev_TaskID := tr_TaskID task, ev_TaskStatus := tr_Status task, ev_AttemptID := tr_CurrentAttemptID task,
                           ev_OccurredAt := tr_UpdatedAt task, ev_previousTaskStatus := tr_Status old,
                           ev_workerID := transitionWorkerID old task\<rparr>\<rparr>)"

definition run_status_event :: "string \<Rightarrow> WorkflowRunSnapshot \<Rightarrow> RunEvent" where
  "run_status_event eventType current =
     zero_event\<lparr>ev_Type := eventType, ev_RunID := ws_ID current, ev_WorkflowID := ws_WorkflowID current,
       ev_Status := ws_Status current, ev_OccurredAt := ws_UpdatedAt current\<rparr>"

definition deriveRunEvents :: "WorkflowRunSnapshot \<Rightarrow> WorkflowRunSnapshot \<Rightarrow> RunEvent list" where
  "deriveRunEvents previous current =
     (let previousTasks = fold (\<lambda>task. mput (tr_TaskID task) task) (ws_Tasks previous) [];
          taskEvents = List.map_filter (task_event previousTasks current) (ws_Tasks current)
      in (if ws_Status previous \<noteq> WorkflowRunRunning \<and> ws_Status current = WorkflowRunRunning
          then [run_status_event eventWorkflowStarted current] else []) @
         map te_event (sort_key (\<lambda>t. (te_priority t, ev_TaskID (te_event t))) taskEvents) @
         (if ws_Status previous \<noteq> ws_Status current \<and> terminalWorkflowStatus (ws_Status current)
          then [run_status_event eventWorkflowCompleted current] else []))"

definition cloneRunSnapshot :: "WorkflowRunSnapshot \<Rightarrow> WorkflowRunSnapshot" where
  "cloneRunSnapshot snapshot =
     snapshot\<lparr>ws_Tasks := map (\<lambda>task. case tr_Lease task of None \<Rightarrow> task | Some lease \<Rightarrow> task\<lparr>tr_Lease := Some lease\<rparr>) (ws_Tasks snapshot)\<rparr>"

section \<open>events.go: the broker\<close>

text \<open>The loop that numbers the new events: the numbered events and the stream with them.\<close>

fun number_events :: "RunEvent list \<Rightarrow> RunEvent list \<Rightarrow> RunEvent list \<times> RunEvent list" where
  "number_events stream [] = ([], stream)"
| "number_events stream (event # rest) =
     (let event = event\<lparr>ev_Sequence := of_nat (length stream + 1)\<rparr>;
          (events, stream) = number_events (stream @ [event]) rest
      in (event # events, stream))"

definition observe :: "eventBroker \<Rightarrow> WorkflowRunSnapshot \<Rightarrow> RunEvent list \<times> eventBroker" where
  "observe broker snapshot =
     (if eb_closed broker then ([], broker)
      else case mget (eb_streams broker) (ws_ID snapshot) of
        None \<Rightarrow> ([], broker\<lparr>eb_streams := mput (ws_ID snapshot)
                  \<lparr>es_latest = cloneRunSnapshot snapshot, es_events = [], es_notify = 0\<rparr> (eb_streams broker)\<rparr>)
      | Some stream \<Rightarrow>
          let events = deriveRunEvents (es_latest stream) snapshot;
              stream = stream\<lparr>es_latest := cloneRunSnapshot snapshot\<rparr>
          in if events = [] then ([], broker\<lparr>eb_streams := mput (ws_ID snapshot) stream (eb_streams broker)\<rparr>)
             else let (events, all) = number_events (es_events stream) events;
                      stream = stream\<lparr>es_events := all, es_notify := es_notify stream + 1\<rparr>
                  in (events, broker\<lparr>eb_streams := mput (ws_ID snapshot) stream (eb_streams broker)\<rparr>))"

definition seed :: "eventBroker \<Rightarrow> WorkflowRunSnapshot \<Rightarrow> eventBroker" where
  "seed broker snapshot =
     (if eb_closed broker then broker
      else if mhas (eb_streams broker) (ws_ID snapshot) then broker
      else broker\<lparr>eb_streams := mput (ws_ID snapshot)
             \<lparr>es_latest = cloneRunSnapshot snapshot, es_events = [(run_status_event eventRunSnapshot snapshot)\<lparr>ev_Sequence := 1\<rparr>],
              es_notify = 0\<rparr> (eb_streams broker)\<rparr>)"

text \<open>The events after a sequence number, the channel to wait on (\<open>None\<close>: one that is already closed), whether the
  broker is closed, and whether the run has ended.\<close>

definition eventsAfter :: "eventBroker \<Rightarrow> RunID \<Rightarrow> u64 \<Rightarrow> RunEvent list \<times> nat option \<times> bool \<times> bool" where
  "eventsAfter broker runID sequence =
     (case mget (eb_streams broker) runID of
        None \<Rightarrow> ([], None, eb_closed broker, False)
      | Some stream \<Rightarrow>
          let start = (if sequence < of_nat (length (es_events stream)) then unat sequence else length (es_events stream))
          in (drop start (es_events stream), Some (es_notify stream), eb_closed broker, terminalWorkflowStatus (ws_Status (es_latest stream))))"

definition eventBroker_close :: "eventBroker \<Rightarrow> eventBroker" where
  "eventBroker_close broker = broker\<lparr>eb_closed := True\<rparr>"

section \<open>events.go: the store that feeds the broker\<close>

definition observedStore :: "'st Store \<Rightarrow> ('st \<times> eventBroker) Store" where
  "observedStore delegate =
     \<lparr>st_SaveWorkflow = (\<lambda>(st, broker) ctx definition. case st_SaveWorkflow delegate st ctx definition of (err, st) \<Rightarrow> (err, st, broker)),
      st_LoadWorkflow = (\<lambda>(st, broker) ctx workflowID. st_LoadWorkflow delegate st ctx workflowID),
      st_CreateRun = (\<lambda>(st, broker) ctx snapshot. case st_CreateRun delegate st ctx snapshot of
         (Inl err, st) \<Rightarrow> (Inl err, st, broker)
       | (Inr stored, st) \<Rightarrow> (Inr stored, st, snd (observe broker stored))),
      st_SaveRun = (\<lambda>(st, broker) ctx snapshot. case st_SaveRun delegate st ctx snapshot of
         (Inl err, st) \<Rightarrow> (Inl err, st, broker)
       | (Inr stored, st) \<Rightarrow> (Inr stored, st, snd (observe broker stored))),
      st_LoadRun = (\<lambda>(st, broker) ctx runID. st_LoadRun delegate st ctx runID)\<rparr>"

section \<open>server.go and manager.go: submitting a run\<close>

text \<open>What \<open>handleWorkflowRuns\<close> does once the request is authorised and its run ID is known: load the workflow, create
  the pending run and start it, which is \<open>manager.recover\<close> on a context of its own (\<open>runCtx\<close>; \<open>ctxErr\<close> is its error
  when the engine looks at it).\<close>

definition submit_run ::
  "('st, 'br, 'd, 'h) Engine \<Rightarrow> go_context \<Rightarrow> go_context \<Rightarrow> go_error option \<Rightarrow> (nat \<Rightarrow> Time) \<Rightarrow> ('br, 'd) iteration list \<Rightarrow> WorkflowID \<Rightarrow> RunID
   \<Rightarrow> 'st \<Rightarrow> 'br \<Rightarrow> ('st, 'br, 'd, 'h) engine_result" where
  "submit_run engine ctx runCtx ctxErr now its workflowID runID st br =
     (case st_LoadWorkflow (en_store engine) st ctx workflowID of
        Inl err \<Rightarrow> Finished None (Some err) st
      | Inr None \<Rightarrow> Finished None (Some (WorkflowNotFoundError workflowID)) st
      | Inr (Some definition) \<Rightarrow>
          (case newWorkflowRun runID definition (now 0) of
             Inl err \<Rightarrow> Finished None (Some err) st
           | Inr run \<Rightarrow>
               (case st_CreateRun (en_store engine) st ctx (Snapshot run) of
                  (Inl err, st) \<Rightarrow> Finished None (Some err) st
                | (Inr _, st) \<Rightarrow> Recover engine runCtx ctxErr (\<lambda>i. now (i + 1)) its runID st br)))"

section \<open>server.go: one client\<close>

text \<open>The loop that writes events; \<open>fault\<close> is the index of the write that fails, if one does.\<close>

fun write_events :: "nat option \<Rightarrow> RunEvent list \<Rightarrow> u64 \<Rightarrow> RunEvent list \<times> u64 \<times> bool" where
  "write_events fault [] sequence = ([], sequence, True)"
| "write_events fault (event # rest) sequence =
     (case fault of Some 0 \<Rightarrow> ([], sequence, False)
      | _ \<Rightarrow> (case write_events (map_option (\<lambda>n. n - 1) fault) rest (ev_Sequence event) of
                (written, sequence, ok) \<Rightarrow> (event # written, sequence, ok)))"

text \<open>One round of the loop of \<open>handleRunEvents\<close>: what is written, the new sequence number, and whether the handler
  goes on to wait.\<close>

definition stream_round :: "nat option \<Rightarrow> eventBroker \<Rightarrow> RunID \<Rightarrow> u64 \<Rightarrow> RunEvent list \<times> u64 \<times> bool" where
  "stream_round fault broker runID sequence =
     (case eventsAfter broker runID sequence of
        (events, notify, closed, ended) \<Rightarrow>
          (case write_events fault events sequence of
             (written, sequence, ok) \<Rightarrow> (written, sequence, ok \<and> \<not> ended \<and> \<not> closed)))"

text \<open>What other goroutines do to the broker, and the loop of \<open>handleRunEvents\<close>: each round comes after what has
  happened to the broker since the last one.\<close>

datatype stream_op = Observe WorkflowRunSnapshot | Seed WorkflowRunSnapshot | CloseStreams

fun stream_do :: "stream_op \<Rightarrow> eventBroker \<Rightarrow> eventBroker" where
  "stream_do (Observe snapshot) broker = snd (observe broker snapshot)"
| "stream_do (Seed snapshot) broker = seed broker snapshot"
| "stream_do CloseStreams broker = eventBroker_close broker"

fun stream_session ::
  "RunID \<Rightarrow> (stream_op list \<times> nat option) list \<Rightarrow> eventBroker \<Rightarrow> u64 \<Rightarrow> RunEvent list \<times> u64 \<times> eventBroker" where
  "stream_session runID [] broker sequence = ([], sequence, broker)"
| "stream_session runID ((ops, fault) # rounds) broker sequence =
     (let broker = fold stream_do ops broker
      in (case stream_round fault broker runID sequence of
            (written, sequence, goes) \<Rightarrow>
              if goes then (case stream_session runID rounds broker sequence of
                              (later, sequence, broker) \<Rightarrow> (written @ later, sequence, broker))
              else (written, sequence, broker)))"

section \<open>Replaying events\<close>

text \<open>What a client knows that applies the events to what it knew before: the status of a task and of the run.\<close>

definition workflow_event :: "RunEvent \<Rightarrow> bool" where
  "workflow_event event \<longleftrightarrow> ev_Type event \<in> {eventWorkflowStarted, eventWorkflowCompleted, eventRunSnapshot}"

definition replay_task :: "TaskID \<Rightarrow> RunEvent list \<Rightarrow> TaskRunStatus option \<Rightarrow> TaskRunStatus option" where
  "replay_task k events = fold (\<lambda>e status. if \<not> workflow_event e \<and> ev_TaskID e = k then Some (ev_TaskStatus e) else status) events"

definition replay_run :: "RunEvent list \<Rightarrow> WorkflowRunStatus \<Rightarrow> WorkflowRunStatus" where
  "replay_run events = fold (\<lambda>e status. if workflow_event e then ev_Status e else status) events"

definition snapshot_tasks :: "WorkflowRunSnapshot \<Rightarrow> (TaskID, TaskRun) gomap" where
  "snapshot_tasks x = map (\<lambda>t. (tr_TaskID t, t)) (ws_Tasks x)"

definition snapshot_status :: "WorkflowRunSnapshot \<Rightarrow> TaskID \<Rightarrow> TaskRunStatus option" where
  "snapshot_status x k = map_option tr_Status (mget (snapshot_tasks x) k)"

lemma replay_append [simp]:
  "replay_task k (es @ es') s = replay_task k es' (replay_task k es s)" "replay_run (es @ es') r = replay_run es' (replay_run es r)"
  by (simp_all add: replay_task_def replay_run_def)

lemma replay_Nil [simp]: "replay_task k [] s = s" "replay_run [] r = r"
  by (simp_all add: replay_task_def replay_run_def)

lemma replay_task_unique:
  "(\<forall>e \<in> set es. \<not> workflow_event e \<and> ev_TaskID e = k \<longrightarrow> ev_TaskStatus e = v) \<Longrightarrow>
   replay_task k es s = (if \<exists>e \<in> set es. \<not> workflow_event e \<and> ev_TaskID e = k then Some v else s)"
  by (induction es arbitrary: s) (auto simp: replay_task_def)

lemma replay_run_quiet: "(\<forall>e \<in> set es. \<not> workflow_event e) \<Longrightarrow> replay_run es r = r"
  by (induction es) (auto simp: replay_run_def)

lemma cloneRunSnapshot_eq [simp]: "cloneRunSnapshot x = x"
proof -
  have "(case tr_Lease t of None \<Rightarrow> t | Some lease \<Rightarrow> t\<lparr>tr_Lease := Some lease\<rparr>) = t" for t :: TaskRun
    by (cases t) (simp split: option.split)
  then show ?thesis by (simp add: cloneRunSnapshot_def)
qed

lemma run_status_event_simps [simp]:
  "workflow_event (run_status_event eventWorkflowStarted x)" "workflow_event (run_status_event eventWorkflowCompleted x)"
  "ev_Status (run_status_event ty x) = ws_Status x"
  by (simp_all add: run_status_event_def workflow_event_def zero_event_def)

text \<open>An event of a task tells its new status, and every change to a status other than pending has one.\<close>

definition announced :: "TaskRunStatus \<Rightarrow> bool" where
  "announced status \<longleftrightarrow> task_status_valid status \<and> status \<noteq> TaskRunPending"

lemma transition_announced: "fst (taskTransitionEvent a b) = '''' \<longleftrightarrow> \<not> announced b"
  by (cases b) (simp_all add: announced_def event_type_defs)

lemma transition_task_type:
  "announced b \<Longrightarrow> fst (taskTransitionEvent a b) \<notin> {eventWorkflowStarted, eventWorkflowCompleted, eventRunSnapshot}"
  by (cases b) (simp_all add: announced_def event_type_defs)

lemma task_event_None:
  "task_event m x t = None \<longleftrightarrow>
   (case mget m (tr_TaskID t) of None \<Rightarrow> True | Some old \<Rightarrow> tr_Status old = tr_Status t \<or> \<not> announced (tr_Status t))"
  by (simp add: task_event_def case_prod_unfold Let_def transition_announced split: option.split)

lemma task_event_Some:
  assumes "task_event m x t = Some e"
  shows "\<not> workflow_event (te_event e)" "ev_TaskID (te_event e) = tr_TaskID t" "ev_TaskStatus (te_event e) = tr_Status t"
    "announced (tr_Status t)" "\<exists>old. mget m (tr_TaskID t) = Some old \<and> tr_Status old \<noteq> tr_Status t"
proof -
  obtain old where old: "mget m (tr_TaskID t) = Some old" "tr_Status old \<noteq> tr_Status t" "announced (tr_Status t)"
    using assms task_event_None [of m x t] by (auto split: option.splits)
  then show "announced (tr_Status t)" "\<exists>old. mget m (tr_TaskID t) = Some old \<and> tr_Status old \<noteq> tr_Status t" by blast+
  note ty = transition_task_type [OF old(3), of "tr_Status old"]
  have "ev_Type (te_event e) = fst (taskTransitionEvent (tr_Status old) (tr_Status t)) \<and> ev_TaskID (te_event e) = tr_TaskID t \<and>
      ev_TaskStatus (te_event e) = tr_Status t"
    using assms old unfolding task_event_def case_prod_unfold Let_def by (auto simp: transition_announced)
  then show "\<not> workflow_event (te_event e)" "ev_TaskID (te_event e) = tr_TaskID t" "ev_TaskStatus (te_event e) = tr_Status t"
    using ty unfolding workflow_event_def by simp_all
qed

definition advances :: "WorkflowRunSnapshot \<Rightarrow> WorkflowRunSnapshot \<Rightarrow> bool" where
  "advances x y \<longleftrightarrow> distinct (map tr_TaskID (ws_Tasks x)) \<and> distinct (map tr_TaskID (ws_Tasks y)) \<and>
     tr_TaskID ` set (ws_Tasks x) = tr_TaskID ` set (ws_Tasks y) \<and>
     (\<forall>k s. snapshot_status y k = Some s \<longrightarrow> snapshot_status x k = Some s \<or> announced s) \<and>
     (ws_Status y = ws_Status x \<or> ws_Status y = WorkflowRunRunning \<or> terminalWorkflowStatus (ws_Status y))"

lemma previous_tasks:
  "distinct (map tr_TaskID (ws_Tasks x)) \<Longrightarrow> fold (\<lambda>task. mput (tr_TaskID task) task) (ws_Tasks x) [] = snapshot_tasks x"
  using fold_mput_distinct [of tr_TaskID "ws_Tasks x" "[]" "\<lambda>t. t"] by (simp add: snapshot_tasks_def)

lemma snapshot_tasks_Some:
  "distinct (map tr_TaskID (ws_Tasks x)) \<Longrightarrow> mget (snapshot_tasks x) k = Some t \<longleftrightarrow> t \<in> set (ws_Tasks x) \<and> tr_TaskID t = k"
  unfolding snapshot_tasks_def by (subst mget_Some_iff) (auto simp: wf_map_def comp_def)

lemma set_deriveRunEvents:
  assumes "distinct (map tr_TaskID (ws_Tasks x))"
  shows "e \<in> set (deriveRunEvents x y) \<and> \<not> workflow_event e \<longleftrightarrow>
    (\<exists>t e'. t \<in> set (ws_Tasks y) \<and> task_event (snapshot_tasks x) y t = Some e' \<and> e = te_event e')"
proof -
  have "e \<in> set (deriveRunEvents x y) \<and> \<not> workflow_event e \<longleftrightarrow>
      (\<exists>e' \<in> set (List.map_filter (task_event (snapshot_tasks x) y) (ws_Tasks y)). e = te_event e') \<and> \<not> workflow_event e"
    unfolding deriveRunEvents_def previous_tasks [OF assms] Let_def by auto
  then show ?thesis unfolding Bex_def in_map_filter using task_event_Some(1) by blast
qed

lemma derive_task:
  assumes "advances x y"
  shows "replay_task k (deriveRunEvents x y) (snapshot_status x k) = snapshot_status y k"
proof -
  have d: "distinct (map tr_TaskID (ws_Tasks x))" "distinct (map tr_TaskID (ws_Tasks y))"
      "tr_TaskID ` set (ws_Tasks x) = tr_TaskID ` set (ws_Tasks y)"
    and adv: "snapshot_status y k = Some s \<Longrightarrow> snapshot_status x k = Some s \<or> announced s" for s
    using assms by (simp_all add: advances_def)
  note inx = snapshot_tasks_Some [OF d(1)] and iny = snapshot_tasks_Some [OF d(2)]
  have ev: "\<exists>t e'. t \<in> set (ws_Tasks y) \<and> task_event (snapshot_tasks x) y t = Some e' \<and> e = te_event e'"
    if "e \<in> set (deriveRunEvents x y)" "\<not> workflow_event e" for e
    using that set_deriveRunEvents [OF d(1)] by blast
  have val: "ev_TaskStatus e = s" if m: "e \<in> set (deriveRunEvents x y)" "\<not> workflow_event e" "ev_TaskID e = k" "snapshot_status y k = Some s" for e s
  proof -
    obtain t e' where t: "t \<in> set (ws_Tasks y)" "task_event (snapshot_tasks x) y t = Some e'" "e = te_event e'" using ev [OF m(1,2)] by blast
    then have "mget (snapshot_tasks y) k = Some t" using task_event_Some(2) [OF t(2)] m(3) iny by simp
    then show ?thesis using task_event_Some(3) [OF t(2)] m(4) t(3) by (simp add: snapshot_status_def)
  qed
  show ?thesis
  proof (cases "snapshot_status y k")
    case None
    then have "mget (snapshot_tasks y) k = None" by (simp add: snapshot_status_def)
    then have no: "k \<notin> tr_TaskID ` set (ws_Tasks y)" using iny [of k] by auto
    then have "mget (snapshot_tasks x) k = None" unfolding d(3) [symmetric] by (metis inx image_eqI option.exhaust)
    moreover have "\<not> (\<exists>e \<in> set (deriveRunEvents x y). \<not> workflow_event e \<and> ev_TaskID e = k)"
      using ev no task_event_Some(2) by (metis image_eqI)
    ultimately show ?thesis using None by (subst replay_task_unique [where v = TaskRunPending]) (auto simp: snapshot_status_def)
  next
    case (Some s)
    then obtain t where t: "t \<in> set (ws_Tasks y)" "tr_TaskID t = k" "tr_Status t = s"
      using iny [of k] by (auto simp: snapshot_status_def)
    have "\<exists>e \<in> set (deriveRunEvents x y). \<not> workflow_event e \<and> ev_TaskID e = k" if "snapshot_status x k \<noteq> Some s"
    proof -
      have "k \<in> tr_TaskID ` set (ws_Tasks x)" using t(1,2) unfolding d(3) by auto
      then obtain old where old: "mget (snapshot_tasks x) k = Some old" using inx [of k] by auto
      moreover have "announced s" using adv [OF Some] that by blast
      ultimately have "task_event (snapshot_tasks x) y t \<noteq> None"
        unfolding task_event_None using that t by (auto simp: snapshot_status_def)
      then obtain e where e: "task_event (snapshot_tasks x) y t = Some e" by blast
      then have "te_event e \<in> set (deriveRunEvents x y) \<and> \<not> workflow_event (te_event e)"
        using set_deriveRunEvents [OF d(1)] t(1) by blast
      then show ?thesis using task_event_Some(2) [OF e] t(2) by blast
    qed
    then show ?thesis using replay_task_unique [of "deriveRunEvents x y" k s] val [OF _ _ _ Some] Some by metis
  qed
qed

lemma derive_run:
  assumes "advances x y"
  shows "replay_run (deriveRunEvents x y) (ws_Status x) = ws_Status y"
proof -
  have mid: "replay_run (map te_event (sort_key f (List.map_filter (task_event m y) ts))) r = r" for f :: "taskEvent \<Rightarrow> int \<times> string" and m ts r
    by (rule replay_run_quiet) (auto simp: List.map_filter_def dest: task_event_Some(1))
  have "ws_Status y = ws_Status x \<or> ws_Status y = WorkflowRunRunning \<or> terminalWorkflowStatus (ws_Status y)"
    using assms by (simp add: advances_def)
  then show ?thesis
    unfolding deriveRunEvents_def Let_def by (auto simp: mid) (auto simp: replay_run_def terminalWorkflowStatus_def)
qed

section \<open>The snapshots of a run\<close>

lemma task_filed: "\<lbrakk>run_inv run; (k, t) \<in> set (run_tasks run)\<rbrakk> \<Longrightarrow> tr_TaskID t = k"
proof -
  assume inv: "run_inv run" and "(k, t) \<in> set (run_tasks run)"
  then have "mget (run_tasks run) k = Some t" using mget_Some_iff [OF run_invD(6) [OF inv]] by blast
  from run_invD(9) [OF inv this] show ?thesis by (simp add: task_inv_def Let_def)
qed

lemma Snapshot_status: "run_inv run \<Longrightarrow> snapshot_status (Snapshot run) k = status_of run k"
proof -
  assume inv: "run_inv run"
  have "mget (map (\<lambda>t. (tr_TaskID t, t)) (sort_key tr_TaskID (mvals (run_tasks run)))) = mget (run_tasks run)"
    by (rule map_of_sorted [OF run_invD(6) [OF inv] task_filed [OF inv]])
  then show ?thesis by (simp add: snapshot_status_def snapshot_tasks_def Snapshot_def sortedTasksLocked_def status_of_def)
qed

lemma Snapshot_ids:
  assumes "run_inv run"
  shows "distinct (map tr_TaskID (ws_Tasks (Snapshot run)))" "tr_TaskID ` set (ws_Tasks (Snapshot run)) = set (mkeys (run_tasks run))"
proof -
  have ids: "map tr_TaskID (mvals (run_tasks run)) = mkeys (run_tasks run)"
    using task_filed [OF assms] by (auto simp: mvals_def mkeys_def)
  have "mset (map tr_TaskID (ws_Tasks (Snapshot run))) = mset (mkeys (run_tasks run))"
    unfolding ids [symmetric] by (simp add: Snapshot_def sortedTasksLocked_def)
  moreover have "distinct (mkeys (run_tasks run))" using run_invD(6) [OF assms] by (simp add: wf_map_def mkeys_def)
  ultimately show "distinct (map tr_TaskID (ws_Tasks (Snapshot run)))" by (metis mset_eq_imp_distinct_iff)
  show "tr_TaskID ` set (ws_Tasks (Snapshot run)) = set (mkeys (run_tasks run))"
    unfolding ids [symmetric] by (simp add: Snapshot_def sortedTasksLocked_def)
qed

lemma edge_announced: "lifecycle_edge a b \<Longrightarrow> announced b"
  by (cases a) (auto simp: announced_def)

lemma run_trace_announced:
  "\<lbrakk>run_trace run es run'; status_of run' k = Some s\<rbrakk> \<Longrightarrow> status_of run k = Some s \<or> announced s"
proof (induction arbitrary: s rule: run_trace.induct)
  case (trace_snoc run es run' e run'')
  obtain t where t: "mget (run_tasks run') k = Some t"
    using run_step_keys [OF trace_snoc.hyps(2)] trace_snoc.prems mhas_mkeys [of "run_tasks run'" k] mhas_mkeys [of "run_tasks run''" k]
    by (auto simp: status_of_def mhas_def)
  obtain t' where t': "mget (run_tasks run'') k = Some t'" "task_advance t t'" using run_step_task [OF trace_snoc.hyps(2) t] .
  then have "tr_Status t' = s" using trace_snoc.prems by (simp add: status_of_def)
  then have "tr_Status t = s \<or> announced s" using t'(2) edge_announced by (auto simp: task_advance_def)
  then show ?case using trace_snoc.IH [of s] t by (auto simp: status_of_def)
qed simp

lemma run_step_run_status:
  assumes "run_step run e run'"
  shows "run_status run' = run_status run \<or> run_status run' = WorkflowRunRunning \<or> terminalWorkflowStatus (run_status run')"
proof -
  have legal: "legalWorkflowTransition a b \<Longrightarrow> b = WorkflowRunRunning \<or> terminalWorkflowStatus b" for a b
    by (cases a) (auto simp: terminalWorkflowStatus_def)
  from assms show ?thesis
  proof (cases rule: run_step.cases)
    case (complete now tid tr w a out err outcome)
    from complete(2) show ?thesis by (rule completeTaskAttempt_InrE) auto
  next
    case (flow now s)
    then show ?thesis by (auto simp: transitionWorkflow_def split: if_splits dest: legal)
  qed (auto simp: transitionTask_def cancelUnfinished_def recordWorkerHeartbeat_def startTaskAttempt_def
        recoverExpiredLeases_def promoteDueRetries_def setPersistedVersion_def Let_def split: option.splits if_splits)
qed

lemma run_trace_run_status:
  "run_trace run es run' \<Longrightarrow>
   run_status run' = run_status run \<or> run_status run' = WorkflowRunRunning \<or> terminalWorkflowStatus (run_status run')"
proof (induction rule: run_trace.induct)
  case (trace_snoc run es run' e run'')
  then show ?case using run_step_run_status [OF trace_snoc.hyps(2)] by metis
qed simp

lemma run_trace_advances:
  assumes "run_trace run es run'" "run_inv run"
  shows "advances (Snapshot run) (Snapshot run')"
proof -
  have inv: "run_inv run'" using assms by (rule run_trace_inv)
  have "set (mkeys (run_tasks run')) = set (mkeys (run_tasks run))"
    using run_invD(7) [OF inv] run_invD(7) [OF assms(2)] run_trace_definition [OF assms(1)] by simp
  moreover have "ws_Status (Snapshot r) = run_status r" for r by (simp add: Snapshot_def)
  ultimately show ?thesis unfolding advances_def Snapshot_status [OF inv] Snapshot_status [OF assms(2)]
    using Snapshot_ids [OF assms(2)] Snapshot_ids [OF inv] run_trace_announced [OF assms(1)] run_trace_run_status [OF assms(1)] by simp
qed

section \<open>Streams\<close>

definition numbered_events :: "RunEvent list \<Rightarrow> bool" where
  "numbered_events events \<longleftrightarrow> map ev_Sequence events = map (\<lambda>i. of_nat (i + 1)) [0..<length events]"

lemma numbered_append:
  "numbered_events (es @ [e]) \<longleftrightarrow> numbered_events es \<and> ev_Sequence e = of_nat (length es + 1)"
  by (auto simp: numbered_events_def)

lemma numbered_nth: "\<lbrakk>numbered_events es; i < length es\<rbrakk> \<Longrightarrow> ev_Sequence (es ! i) = of_nat (i + 1)"
  unfolding numbered_events_def by (metis (no_types, lifting) length_map nth_map nth_upt add_0)

lemma number_events_spec:
  "number_events stream es = (ns, all) \<Longrightarrow>
   all = stream @ ns \<and> length ns = length es \<and> (numbered_events stream \<longrightarrow> numbered_events all) \<and>
   (\<forall>k s. replay_task k ns s = replay_task k es s) \<and> (\<forall>r. replay_run ns r = replay_run es r)"
proof (induction stream es arbitrary: ns all rule: number_events.induct)
  case (2 stream e rest)
  let ?e = "e\<lparr>ev_Sequence := of_nat (length stream + 1)\<rparr>"
  obtain ns' where ns': "number_events (stream @ [?e]) rest = (ns', all)" "ns = ?e # ns'"
    using "2.prems" by (auto simp: Let_def split: prod.splits)
  have "workflow_event ?e = workflow_event e" by (simp add: workflow_event_def)
  then show ?case using "2.IH" [OF HOL.refl ns'(1)] ns'(2)
    by (auto simp: numbered_append replay_task_def replay_run_def)
qed simp

lemma observe_closed [simp]: "eb_closed (snd (observe broker x)) = eb_closed broker"
  by (simp add: observe_def Let_def split: option.split prod.split)

lemma observe_latest:
  assumes "\<not> eb_closed broker"
  shows "\<exists>stream. mget (eb_streams (snd (observe broker x))) (ws_ID x) = Some stream \<and> es_latest stream = x"
  using assms by (auto simp: observe_def Let_def go_map split: option.split prod.split)

lemma observe_next:
  assumes "\<not> eb_closed broker" "mget (eb_streams broker) (ws_ID x) = Some stream"
  shows "\<exists>stream' ns. mget (eb_streams (snd (observe broker x))) (ws_ID x) = Some stream' \<and> es_latest stream' = x \<and>
    es_events stream' = es_events stream @ ns \<and> (numbered_events (es_events stream) \<longrightarrow> numbered_events (es_events stream')) \<and>
    (\<forall>k s. replay_task k ns s = replay_task k (deriveRunEvents (es_latest stream) x) s) \<and>
    (\<forall>r. replay_run ns r = replay_run (deriveRunEvents (es_latest stream) x) r)"
proof (cases "deriveRunEvents (es_latest stream) x = []")
  case True
  then show ?thesis using assms by (simp add: observe_def go_map)
next
  case False
  obtain ns all where "number_events (es_events stream) (deriveRunEvents (es_latest stream) x) = (ns, all)" by fastforce
  then show ?thesis using assms False number_events_spec by (fastforce simp: observe_def go_map)
qed

text \<open>The stream of a run tells what has happened to it since \<open>run0\<close>, up to the last time it was saved.\<close>

definition stream_tells :: "WorkflowRun \<Rightarrow> eventBroker \<Rightarrow> WorkflowRun \<Rightarrow> bool" where
  "stream_tells run0 broker run \<longleftrightarrow> \<not> eb_closed broker \<and>
     (\<exists>stream r es. mget (eb_streams broker) (run_id run) = Some stream \<and> es_latest stream = Snapshot r \<and> run_inv r \<and> run_trace r es run \<and>
        numbered_events (es_events stream) \<and> (\<forall>k. replay_task k (es_events stream) (status_of run0 k) = status_of r k) \<and>
        replay_run (es_events stream) (run_status run0) = run_status r)"

lemma tells_step: "\<lbrakk>stream_tells run0 broker run; run_step run e run'\<rbrakk> \<Longrightarrow> stream_tells run0 broker run'"
proof -
  assume t: "stream_tells run0 broker run" and st: "run_step run e run'"
  have "run_id run' = run_id run" using run_trace_run_id [OF run_trace_step [OF st]] .
  moreover have "run_trace r (es @ [e]) run'" if "run_trace r es run" for r es using that st by (rule run_trace.trace_snoc)
  ultimately show ?thesis using t unfolding stream_tells_def by (metis (no_types, lifting))
qed

lemma tells_observe:
  assumes "stream_tells run0 broker run"
  shows "stream_tells run0 (snd (observe broker (Snapshot run))) run"
proof -
  obtain stream r es where x: "\<not> eb_closed broker" "mget (eb_streams broker) (run_id run) = Some stream" "es_latest stream = Snapshot r"
      "run_inv r" "run_trace r es run" "numbered_events (es_events stream)"
      "\<forall>k. replay_task k (es_events stream) (status_of run0 k) = status_of r k" "replay_run (es_events stream) (run_status run0) = run_status r"
    using assms unfolding stream_tells_def by blast
  have inv: "run_inv run" using x(5,4) by (rule run_trace_inv)
  note adv = run_trace_advances [OF x(5,4)]
  have eq: "ws_ID (Snapshot run) = run_id run" "ws_Status (Snapshot run) = run_status run" "ws_Status (Snapshot r) = run_status r"
    by (simp_all add: Snapshot_def)
  obtain stream' ns where n: "mget (eb_streams (snd (observe broker (Snapshot run)))) (run_id run) = Some stream'" "es_latest stream' = Snapshot run"
      "es_events stream' = es_events stream @ ns" "numbered_events (es_events stream')"
      "\<forall>k s. replay_task k ns s = replay_task k (deriveRunEvents (Snapshot r) (Snapshot run)) s"
      "\<forall>s. replay_run ns s = replay_run (deriveRunEvents (Snapshot r) (Snapshot run)) s"
    using observe_next [of broker "Snapshot run" stream] x(1-3,6) unfolding eq by metis
  have "replay_task k (es_events stream') (status_of run0 k) = status_of run k" for k
    using derive_task [OF adv, of k] x(7) n(5) unfolding Snapshot_status [OF inv] Snapshot_status [OF x(4)] n(3) by simp
  moreover have "replay_run (es_events stream') (run_status run0) = run_status run"
    using derive_run [OF adv] x(8) n(6) unfolding n(3) eq by simp
  ultimately show ?thesis unfolding stream_tells_def using x(1) n(1,2,4) inv run_trace.trace_nil by auto
qed

section \<open>A run that was just created, restored\<close>

lemma run_inv_cong:
  assumes "run_inv run" "wf_map (run_tasks run')" "wf_map (run_workers run')"
    "mget (run_tasks run') = mget (run_tasks run)" "mget (run_workers run') = mget (run_workers run)"
    "run_id run' = run_id run" "run_definition run' = run_definition run" "run_status run' = run_status run"
    "run_createdAt run' = run_createdAt run" "run_updatedAt run' = run_updatedAt run"
  shows "run_inv run'"
proof -
  have "set (mkeys (run_tasks run')) = set (mkeys (run_tasks run))"
    using mhas_mkeys [of "run_tasks run'"] mhas_mkeys [of "run_tasks run"] assms(4) by (auto simp: mhas_def)
  moreover have "task_inv run' = task_inv run" by (simp add: task_inv_def retryPolicyLocked_def assms fun_eq_iff)
  moreover have "run_leases run' = run_leases run" by (simp add: run_leases_def assms fun_eq_iff)
  ultimately show ?thesis using assms by (simp add: run_inv_def mhas_def)
qed

lemma restored_inv:
  assumes "run_inv run" "restoreWorkflowRun (Snapshot run) (run_definition run) = Inr run'"
  shows "run_inv run' \<and> Snapshot run' = Snapshot run \<and> status_of run' = status_of run \<and> run_status run' = run_status run \<and>
    run_id run' = run_id run"
proof -
  have valid: "snapshot_Validate (Snapshot run) = Inr ()"
    using restore_succeeds_iff [of "Snapshot run" "run_definition run"] assms(2) by simp
  have run': "run' = run\<lparr>run_tasks := map (\<lambda>t. (tr_TaskID t, t)) (sort_key tr_TaskID (mvals (run_tasks run))),
             run_workers := map (\<lambda>w. (wh_WorkerID w, w)) (sort_key wh_WorkerID (mvals (run_workers run)))\<rparr>"
    using restore_Snapshot [OF assms(1) valid] assms(2) by simp
  have r: "mget (run_tasks run') = mget (run_tasks run)" "mget (run_workers run') = mget (run_workers run)" "Snapshot run' = Snapshot run"
    using restored_run [OF assms(1) valid] assms(2) by auto
  have "wf_map (run_tasks run')"
    using Snapshot_ids(1) [OF assms(1)] by (simp add: run' wf_map_def comp_def Snapshot_def sortedTasksLocked_def)
  moreover have "map wh_WorkerID (mvals (run_workers run)) = mkeys (run_workers run)"
    using run_invD(10) [OF assms(1)] run_invD(8) [OF assms(1)] by (auto simp: mvals_def mkeys_def mget_Some_iff)
  then have "mset (map wh_WorkerID (sort_key wh_WorkerID (mvals (run_workers run)))) = mset (mkeys (run_workers run))"
    by (metis mset_map mset_sort)
  then have "wf_map (run_workers run')"
    using run_invD(8) [OF assms(1)] mset_eq_imp_distinct_iff by (fastforce simp: run' wf_map_def comp_def mkeys_def)
  ultimately have "run_inv run'" by (intro run_inv_cong [OF assms(1) _ _ r(1,2)]) (simp_all add: run')
  then show ?thesis using r by (simp add: run' status_of_def fun_eq_iff)
qed

lemma live_start:
  assumes "run_inv run" "\<And>k x. status_of run k = Some x \<Longrightarrow> x = TaskRunPending" "transitionWorkflow run t WorkflowRunRunning = Inr run1"
  shows "live_inv (setPersistedVersion run1 v)"
proof -
  have inv: "run_inv (setPersistedVersion run1 v)"
    by (rule run_step_inv [OF run_step.persist run_step_inv [OF run_step.flow [OF assms(3)] assms(1)]])
  have "run_tasks run1 = run_tasks run" "run_status run1 = WorkflowRunRunning"
    using assms(3) by (auto simp: transitionWorkflow_def split: if_splits)
  then show ?thesis using inv assms(2) unfolding live_inv_def by (auto simp: setPersistedVersion_def status_of_def)
qed

lemma executeBrokerRun_kept:
  assumes "live_inv run" "executeBrokerRun E now its handlers run st br = Continue s"
  shows "\<exists>s0. kept E s0 s \<and> sc_run s0 = run \<and> sc_store s0 = st"
proof -
  obtain s1 where s1: "prepare_sched E now handlers run st br = Continue s1" "schedule_loop E its s1 = Continue s"
    using assms(2) by (auto simp: executeBrokerRun_def then_flow_Continue)
  obtain s0 where s0: "sc_run s0 = run" "sc_store s0 = st" "step_ok E s0 s1" using assms(1) s1(1) by (rule prepare_sched_ok)
  have "sched_inv s \<and> kept E s1 s" using schedule_loop_Continue [OF _ s1(2)] s0(3) by (simp add: step_ok_def)
  then have "kept E s0 s" using s0(3) kept_trans by (auto simp: step_ok_def)
  then show ?thesis using s0(1,2) by blast
qed

lemma Recover_pending:
  assumes "Recover E ctx ctxErr now its runID st br = Scheduling flow"
  obtains x "definition" run where "st_LoadRun (en_store E) st ctx runID = Inr (Some x)"
    "st_LoadWorkflow (en_store E) st ctx (ws_WorkflowID x) = Inr (Some definition)" "restoreWorkflowRun x definition = Inr run"
    "run_status run = WorkflowRunPending \<Longrightarrow> \<exists>run1 run2 st2 handlers. transitionWorkflow run (now 0) WorkflowRunRunning = Inr run1 \<and>
       saveRun (en_store E) durability st run1 ''start recovered workflow run'' = (None, run2, st2) \<and>
       flow = executeBrokerRun E (\<lambda>i. now (i + 1)) its handlers run2 st2 br"
proof -
  obtain x "definition" run where x: "st_LoadRun (en_store E) st ctx runID = Inr (Some x)"
    "st_LoadWorkflow (en_store E) st ctx (ws_WorkflowID x) = Inr (Some definition)" "restoreWorkflowRun x definition = Inr run"
    "recover_run E ctxErr now its definition run st br = Scheduling flow"
    using assms by (auto simp: Recover_def split: if_splits sum.splits option.splits)
  show thesis
    by (rule that [OF x(1-3)])
      (use x(4) in \<open>auto simp: recover_run_def resume_run_def finished_run_def Let_def split: if_splits sum.splits option.splits prod.splits\<close>)
qed

section \<open>The engine on an observed store\<close>

lemma observedStore_save:
  assumes "st_SaveRun (observedStore store) p ctx x = (Inr y, p')"
  shows "st_SaveRun store (fst p) ctx x = (Inr y, fst p') \<and> snd p' = snd (observe (snd p) y)"
  using assms by (cases p) (auto simp: observedStore_def split: prod.splits sum.splits)

lemma observedStore_create:
  assumes "st_CreateRun (observedStore store) p ctx x = (Inr y, p')"
  shows "st_CreateRun store (fst p) ctx x = (Inr y, fst p') \<and> snd p' = snd (observe (snd p) y)"
  using assms by (cases p) (auto simp: observedStore_def split: prod.splits sum.splits)

lemma observedStore_other:
  "st_LoadRun (observedStore store) p ctx r = st_LoadRun store (fst p) ctx r"
  "st_LoadWorkflow (observedStore store) p ctx w = st_LoadWorkflow store (fst p) ctx w"
  "st_SaveWorkflow (observedStore store) p ctx d = (e, p') \<longleftrightarrow> st_SaveWorkflow store (fst p) ctx d = (e, fst p') \<and> snd p' = snd p"
  by (cases p; cases p'; auto simp: observedStore_def split: prod.splits)+

text \<open>The wrapper keeps every promise of the store that it wraps.\<close>

lemma observed_workflow_store:
  assumes "workflow_store store"
  shows "workflow_store (observedStore store)"
proof -
  note run = workflow_store.axioms(1) [OF assms]
  show ?thesis
    by unfold_locales
      (auto dest!: observedStore_save observedStore_create simp: observedStore_other
         dest: run_store.save_stores [OF run] workflow_store.save_checks [OF assms] workflow_store.save_keeps [OF assms]
           workflow_store.create_keeps [OF assms] workflow_store.workflow_stored [OF assms])
qed

interpretation observed_files: workflow_store "observedStore (file_Store codec)" for codec
  by (rule observed_workflow_store) unfold_locales

text \<open>A new run is stored as it is, under its first version.\<close>

locale recording_store = workflow_store +
  assumes create_stores: "st_CreateRun store st ctx x = (Inr y, st') \<Longrightarrow> y = x\<lparr>ws_Version := 1\<rparr>"
begin

lemma save_snapshot:
  assumes "st_SaveRun store st durability (Snapshot run) = (Inr y, st')"
  shows "y = Snapshot (setPersistedVersion run (ws_Version y))"
  using save_stores [OF assms] by (auto simp: Snapshot_version)

lemma saves_tells:
  assumes "saves E p p'" "en_store E = observedStore store" "stream_tells run0 (snd (snd p)) (fst p)"
  shows "stream_tells run0 (snd (snd p')) (fst p')"
  using assms(1) unfolding saves_def
proof (induction rule: rtranclp_induct)
  case base
  show ?case by (rule assms(3))
next
  case (step p1 p2)
  from step.hyps(2) show ?case unfolding saving_step_def
  proof (elim disjE exE conjE)
    fix e assume "run_step (fst p1) e (fst p2)" "snd p2 = snd p1"
    then show ?thesis using tells_step [OF step.IH] by simp
  next
    fix y assume y: "st_SaveRun (en_store E) (snd p1) durability (Snapshot (fst p1)) = (Inr y, snd p2)"
      "fst p2 = setPersistedVersion (fst p1) (ws_Version y)"
    note sv = observedStore_save [OF y(1) [unfolded assms(2)]]
    have "stream_tells run0 (snd (snd p1)) (fst p2)" unfolding y(2) by (rule tells_step [OF step.IH run_step.persist])
    from tells_observe [OF this] show ?thesis using sv save_snapshot [of _ "fst p1" y] y(2) by metis
  qed
qed

lemma saveRun_latest:
  assumes "saveRun (observedStore store) durability p run operation = (None, run', p')" "\<not> eb_closed (snd p')"
  shows "\<exists>stream. mget (eb_streams (snd p')) (run_id run') = Some stream \<and> es_latest stream = Snapshot run'"
proof -
  obtain y where y: "st_SaveRun (observedStore store) p durability (Snapshot run) = (Inr y, p')" "run' = setPersistedVersion run (ws_Version y)"
    using assms(1) by (rule saveRun_NoneE)
  note sv = observedStore_save [OF y(1)]
  have "y = Snapshot run'" using save_snapshot sv y(2) by blast
  moreover have "ws_ID (Snapshot run') = run_id run'" by (simp add: Snapshot_def)
  ultimately show ?thesis using observe_latest [of "snd p" y] sv assms(2) by auto
qed

lemma kept_latest:
  assumes "kept E s0 s" "en_store E = observedStore store" "\<not> eb_closed (snd (sc_store s))"
    "saveRun (observedStore store) durability p run operation = (None, sc_run s0, sc_store s0)"
  shows "\<exists>stream. mget (eb_streams (snd (sc_store s))) (run_id (sc_run s)) = Some stream \<and> es_latest stream = Snapshot (sc_run s)"
  using assms(1) unfolding kept_def
proof (elim disjE exE conjE)
  assume "sc_run s = sc_run s0" "sc_store s = sc_store s0"
  then show ?thesis using saveRun_latest [OF assms(4)] assms(3) by simp
next
  fix operation s2 s3
  assume sv: "sched_save E operation s2 = (None, s3)" and eq: "sc_run s = sc_run s3" "sc_store s = sc_store s3"
  have "saveRun (observedStore store) durability (sc_store s2) (sc_run s2) operation = (None, sc_run s3, sc_store s3)"
    using sv by (auto simp: sched_save_def assms(2) split: prod.splits)
  then show ?thesis using saveRun_latest assms(3) unfolding eq by blast
qed

text \<open>A run that was created and then restored: the stream begins with it.\<close>

lemma created_tells:
  assumes "st_CreateRun (observedStore store) p ctx (Snapshot run0) = (Inr y, p')" "Snapshot run = y" "run_inv run"
    "status_of run = status_of run0" "run_status run = run_status run0" "\<not> eb_closed (snd p)" "mget (eb_streams (snd p)) (run_id run) = None"
  shows "stream_tells run0 (snd p') run"
proof -
  note cr = observedStore_create [OF assms(1)]
  have id: "ws_ID y = run_id run" unfolding assms(2) [symmetric] by (simp add: Snapshot_def)
  have "mget (eb_streams (snd p')) (run_id run) = Some \<lparr>es_latest = Snapshot run, es_events = [], es_notify = 0\<rparr>"
    unfolding assms(2) using cr assms(6,7) by (simp add: observe_def go_map id)
  then show ?thesis unfolding stream_tells_def using assms(3-6) cr run_trace.trace_nil [of run]
    by (auto simp: numbered_events_def)
qed

text \<open>Whenever the scheduler waits that such a run was given to, the events tell the state of its run.\<close>

lemma scheduling_tells:
  fixes E :: "('a \<times> eventBroker, 'br, 'd, 'h) Engine"
  assumes "stream_tells run0 (snd p) run" "transitionWorkflow run t WorkflowRunRunning = Inr run1"
    "saveRun (observedStore store) durability p run1 operation = (None, run2, p2)" "live_inv run2"
    "executeBrokerRun E now its handlers run2 p2 br = Continue s" "en_store E = observedStore store"
  shows "\<exists>stream. mget (eb_streams (snd (sc_store s))) (run_id run) = Some stream \<and>
    (\<forall>k. replay_task k (es_events stream) (status_of run0 k) = status_of (sc_run s) k) \<and>
    replay_run (es_events stream) (run_status run0) = run_status (sc_run s)"
proof -
  have inv2: "run_inv run2" using assms(4) by (simp add: live_inv_def)
  obtain s0 :: "('a \<times> eventBroker, 'br, 'd, 'h) sched" where s0: "sc_run s0 = run2" "sc_store s0 = p2" "flows E s0 (Continue s)"
    using executeBrokerRun_flows [OF inv2, of p2 E now its handlers br] unfolding assms(5) by metis
  have first: "run_trace run [EvWorkflow WorkflowRunRunning] run1" using assms(2) by (auto intro: run_trace_step run_step.flow)
  have "saves E (run, p) (run2, p2)"
    using saves_trans [OF trace_saves [OF first] saveRun_saves [of E p run1 operation run2 p2]] assms(3,6) by simp
  then have "saves E (run, p) (sc_run s, sc_store s)" using s0 saves_trans by (auto simp: follows_def)
  from saves_tells [OF this assms(6)] assms(1) have tells: "stream_tells run0 (snd (sc_store s)) (sc_run s)" by simp
  obtain es where es: "run_trace run2 es (sc_run s)" using s0 by (auto simp: follows_def)
  have "run_id run1 = run_id run" using run_trace_run_id [OF first] .
  moreover have "run_id run2 = run_id run1" using assms(3) by (rule saveRun_NoneE) (simp add: setPersistedVersion_def)
  ultimately have rid: "run_id (sc_run s) = run_id run" using run_trace_run_id [OF es] by simp
  obtain s1 where k: "kept E s1 s" "sc_run s1 = run2" "sc_store s1 = p2" using executeBrokerRun_kept [OF assms(4,5)] by blast
  obtain stream where stream: "mget (eb_streams (snd (sc_store s))) (run_id run) = Some stream" "es_latest stream = Snapshot (sc_run s)"
    using kept_latest [OF k(1) assms(6), of p run1 operation] assms(3) k(2,3) tells rid unfolding stream_tells_def by auto
  obtain r where r: "Snapshot r = Snapshot (sc_run s)" "run_inv r"
      "\<forall>k. replay_task k (es_events stream) (status_of run0 k) = status_of r k"
      "replay_run (es_events stream) (run_status run0) = run_status r"
    using tells stream unfolding stream_tells_def rid by auto
  have "run_inv (sc_run s)" using es inv2 by (rule run_trace_inv)
  then have "status_of r = status_of (sc_run s)" using Snapshot_status r(1,2) by (metis ext)
  moreover have "run_status r = run_status (sc_run s)" using r(1) by (simp add: Snapshot_def)
  ultimately show ?thesis using stream(1) r(3,4) by auto
qed

end

interpretation recorded_files: recording_store "file_Store codec" for codec
proof unfold_locales
  fix st ctx st' x y
  assume "st_CreateRun (file_Store codec) st ctx x = (Inr y, st')"
  then show "y = x\<lparr>ws_Version := 1\<rparr>"
    by (auto simp: file_Store_def on_file_def CreateRun_def store_run_def Let_def split: prod.splits sum.splits option.splits if_splits)
qed

section \<open>What a client is sent\<close>

definition stream_events :: "eventBroker \<Rightarrow> RunID \<Rightarrow> RunEvent list" where
  "stream_events broker runID = (case mget (eb_streams broker) runID of None \<Rightarrow> [] | Some stream \<Rightarrow> es_events stream)"

lemma stream_do_grows:
  "\<exists>ns. stream_events (stream_do op broker) runID = stream_events broker runID @ ns \<and>
     (numbered_events (stream_events broker runID) \<longrightarrow> numbered_events (stream_events (stream_do op broker) runID))"
proof (cases op)
  case (Observe x)
  show ?thesis
  proof (cases "eb_closed broker \<or> mget (eb_streams broker) (ws_ID x) = None")
    case True
    then show ?thesis by (auto simp: Observe observe_def stream_events_def go_map)
  next
    case False
    then obtain stream where s: "\<not> eb_closed broker" "mget (eb_streams broker) (ws_ID x) = Some stream" by blast
    have "mget (eb_streams (snd (observe broker x))) r = mget (eb_streams broker) r" if "r \<noteq> ws_ID x" for r
      using that s by (simp add: observe_def Let_def go_map split: prod.split)
    then show ?thesis using observe_next [OF s] s(2) by (cases "runID = ws_ID x") (auto simp: Observe stream_events_def)
  qed
next
  case (Seed x)
  then show ?thesis by (auto simp: seed_def stream_events_def mhas_def go_map numbered_events_def split: option.split)
qed (simp add: eventBroker_close_def stream_events_def)

lemma stream_ops_grow:
  "\<exists>ns. stream_events (fold stream_do ops broker) runID = stream_events broker runID @ ns \<and>
     (numbered_events (stream_events broker runID) \<longrightarrow> numbered_events (stream_events (fold stream_do ops broker) runID))"
proof (induction ops arbitrary: broker)
  case (Cons op ops)
  from Cons.IH [of "stream_do op broker"] stream_do_grows [of op broker runID] show ?case by force
qed simp

lemma write_events_spec:
  "write_events fault evs q = (w, q', ok) \<Longrightarrow>
   \<exists>m \<le> length evs. w = take m evs \<and> q' = (if m = 0 then q else ev_Sequence (evs ! (m - 1))) \<and> (ok \<longrightarrow> m = length evs) \<and> (fault = None \<longrightarrow> ok)"
proof (induction evs arbitrary: fault q w q' ok)
  case (Cons e rest)
  show ?case
  proof (cases "fault = Some 0")
    case True
    then show ?thesis using Cons.prems by auto
  next
    case False
    let ?fault = "map_option (\<lambda>n. n - 1) fault"
    have "write_events fault (e # rest) q = (case write_events ?fault rest (ev_Sequence e) of (written, sequence, ok) \<Rightarrow> (e # written, sequence, ok))"
      using False by (simp split: option.split nat.split)
    then obtain w1 where w1: "write_events ?fault rest (ev_Sequence e) = (w1, q', ok)" "w = e # w1"
      using Cons.prems by (auto split: prod.splits)
    from Cons.IH [OF w1(1)]
    obtain m where "m \<le> length rest" "w1 = take m rest" "q' = (if m = 0 then ev_Sequence e else ev_Sequence (rest ! (m - 1)))"
      "ok \<longrightarrow> m = length rest" "fault = None \<longrightarrow> ok" by auto
    then show ?thesis using w1(2) by (intro exI [of _ "Suc m"]) (simp add: nth_Cons')
  qed
qed simp

lemma unat_u64: "n < 2 ^ 64 \<Longrightarrow> unat (of_nat n :: u64) = n"
  by (simp add: unat_of_nat)

lemma stream_round_spec:
  assumes "stream_round fault broker runID q = (w, q', goes)" "numbered_events (stream_events broker runID)"
    "unat q \<le> length (stream_events broker runID)" "length (stream_events broker runID) < 2 ^ 64"
  shows "unat q \<le> unat q' \<and> unat q' \<le> length (stream_events broker runID) \<and>
    w = take (unat q' - unat q) (drop (unat q) (stream_events broker runID)) \<and>
    (fault = None \<or> goes \<longrightarrow> unat q' = length (stream_events broker runID))"
proof -
  let ?es = "stream_events broker runID"
  obtain n c e where after: "eventsAfter broker runID q = (drop (unat q) ?es, n, c, e)"
  proof -
    have "q < of_nat (length ?es) \<longleftrightarrow> unat q < length ?es" using unat_u64 [OF assms(4)] by (simp add: word_less_nat_alt)
    then show thesis using that assms(3) by (auto simp: eventsAfter_def stream_events_def Let_def split: option.splits)
  qed
  obtain ok where wr: "write_events fault (drop (unat q) ?es) q = (w, q', ok)" "goes \<longrightarrow> ok"
    using assms(1) by (auto simp: stream_round_def after split: prod.splits)
  obtain m where m: "m \<le> length ?es - unat q" "w = take m (drop (unat q) ?es)"
      "q' = (if m = 0 then q else ev_Sequence (drop (unat q) ?es ! (m - 1)))" "ok \<longrightarrow> m = length ?es - unat q" "fault = None \<longrightarrow> ok"
    using write_events_spec [OF wr(1)] by auto
  have "unat q' = unat q + m"
  proof (cases m)
    case (Suc j)
    then have "q' = of_nat (unat q + m)" using m(1,3) numbered_nth [OF assms(2), of "unat q + j"] assms(3) by simp
    moreover have "unat q + m < 2 ^ 64" using m(1) assms(3,4) by linarith
    ultimately show ?thesis using unat_u64 by blast
  qed (use m in simp)
  then show ?thesis using m wr(2) assms(3) by auto
qed

text \<open>A client that comes with a number beyond the end of the stream, as after a restart of the server, is sent nothing
  until the stream has outgrown that number, and never the events before it.\<close>

lemma stale_cursor_silent:
  assumes "length (stream_events broker runID) \<le> unat q" "length (stream_events broker runID) < 2 ^ 64"
  shows "fst (stream_round fault broker runID q) = []"
proof -
  have "\<not> q < of_nat (length (stream_events broker runID))" using assms unat_u64 by (simp add: word_less_nat_alt)
  then have "fst (eventsAfter broker runID q) = []"
    by (auto simp: eventsAfter_def stream_events_def Let_def split: option.splits)
  then show ?thesis by (auto simp: stream_round_def split: prod.split)
qed

lemma session_grows:
  "stream_session runID rounds broker q = (w, q', broker') \<Longrightarrow>
   \<exists>ns. stream_events broker' runID = stream_events broker runID @ ns \<and>
     (numbered_events (stream_events broker runID) \<longrightarrow> numbered_events (stream_events broker' runID))"
proof (induction runID rounds broker q arbitrary: w q' broker' rule: stream_session.induct)
  case (2 runID ops fault rounds broker q)
  obtain ns where ns: "stream_events (fold stream_do ops broker) runID = stream_events broker runID @ ns"
      "numbered_events (stream_events broker runID) \<longrightarrow> numbered_events (stream_events (fold stream_do ops broker) runID)"
    using stream_ops_grow by blast
  obtain w1 q1 goes where r: "stream_round fault (fold stream_do ops broker) runID q = (w1, q1, goes)" by (metis prod_cases3)
  show ?case
  proof (cases goes)
    case True
    obtain w2 where "stream_session runID rounds (fold stream_do ops broker) q1 = (w2, q', broker')"
      using "2.prems" True r by (auto split: prod.splits)
    from "2.IH" [OF HOL.refl r [symmetric] HOL.refl True this] show ?thesis using ns by auto
  qed (use "2.prems" r ns in auto)
qed simp

lemma session_exact:
  assumes "stream_session runID rounds broker q = (w, q', broker')" "numbered_events (stream_events broker runID)"
    "unat q \<le> length (stream_events broker runID)" "length (stream_events broker' runID) < 2 ^ 64"
  shows "unat q \<le> unat q' \<and> unat q' \<le> length (stream_events broker' runID) \<and>
    w = take (unat q' - unat q) (drop (unat q) (stream_events broker' runID)) \<and>
    (rounds \<noteq> [] \<and> (\<forall>r \<in> set rounds. snd r = None) \<longrightarrow> unat q' = length (stream_events broker' runID))"
  using assms
proof (induction runID rounds broker q arbitrary: w q' broker' rule: stream_session.induct)
  case (2 runID ops fault rounds broker q)
  let ?b = "fold stream_do ops broker"
  obtain ns where ns: "stream_events ?b runID = stream_events broker runID @ ns" "numbered_events (stream_events ?b runID)"
    using stream_ops_grow "2.prems"(2) by blast
  obtain w1 q1 goes where r: "stream_round fault ?b runID q = (w1, q1, goes)" by (metis prod_cases3)
  show ?case
  proof (cases goes)
    case True
    obtain w2 where s: "stream_session runID rounds ?b q1 = (w2, q', broker')" "w = w1 @ w2"
      using "2.prems"(1) True r by (auto split: prod.splits)
    obtain ms where ms: "stream_events broker' runID = stream_events ?b runID @ ms" using session_grows [OF s(1)] by blast
    have one: "unat q \<le> unat q1" "unat q1 = length (stream_events ?b runID)" "w1 = take (unat q1 - unat q) (drop (unat q) (stream_events ?b runID))"
      using stream_round_spec [OF r ns(2)] ns(1) ms "2.prems"(3,4) True by auto
    have two: "unat q1 \<le> unat q'" "unat q' \<le> length (stream_events broker' runID)"
        "w2 = take (unat q' - unat q1) (drop (unat q1) (stream_events broker' runID))"
        "rounds \<noteq> [] \<and> (\<forall>r \<in> set rounds. snd r = None) \<longrightarrow> unat q' = length (stream_events broker' runID)"
      using "2.IH" [OF HOL.refl r [symmetric] HOL.refl True s(1) ns(2)] one(2) "2.prems"(4) by auto
    have "w1 = take (unat q1 - unat q) (drop (unat q) (stream_events broker' runID))" using one(2,3) by (simp add: ms)
    then have "w = take (unat q' - unat q) (drop (unat q) (stream_events broker' runID))"
      using s(2) two(1,3) one(1) take_add [of "unat q1 - unat q" "unat q' - unat q1" "drop (unat q) (stream_events broker' runID)"] by simp
    moreover have "unat q' = length (stream_events broker' runID)" if "rounds = []" using that s(1) one(2) by simp
    ultimately show ?thesis using two one(1) by auto
  next
    case False
    then have "w = w1" "q' = q1" "broker' = ?b" using "2.prems"(1) r by auto
    then show ?thesis using stream_round_spec [OF r ns(2)] ns(1) "2.prems"(3,4) by auto
  qed
qed simp

text \<open>C9: clients miss nothing and see nothing twice. Whatever the runs do while a client is connected, what it is sent
  is, in order, exactly the part of the stream of its run between the sequence number it came with and the one it has
  reached, which is the number of the last event it was sent; and unless a write fails it has reached the end of the
  stream. A client that reconnects with that number goes on where it stopped.\<close>

theorem events_exactly_once:
  assumes "broker = fold stream_do ops newEventBroker" "stream_session runID rounds broker q = (w, q', broker')"
    "unat q \<le> length (stream_events broker runID)" "length (stream_events broker' runID) < 2 ^ 64"
  shows "unat q \<le> unat q' \<and> unat q' \<le> length (stream_events broker' runID) \<and>
    w = take (unat q' - unat q) (drop (unat q) (stream_events broker' runID)) \<and>
    (w \<noteq> [] \<longrightarrow> ev_Sequence (last w) = q') \<and>
    (rounds \<noteq> [] \<and> (\<forall>r \<in> set rounds. snd r = None) \<longrightarrow> w = drop (unat q) (stream_events broker' runID))"
proof -
  have num: "numbered_events (stream_events broker runID)"
    using stream_ops_grow [of ops newEventBroker runID] by (auto simp: assms(1) newEventBroker_def stream_events_def numbered_events_def)
  note ex = session_exact [OF assms(2) num assms(3,4)]
  have num': "numbered_events (stream_events broker' runID)" using session_grows [OF assms(2)] num by blast
  have "ev_Sequence (last w) = q'" if "w \<noteq> []"
  proof -
    have lt: "unat q < unat q'" using that ex by (cases "unat q' - unat q") auto
    have "last w = stream_events broker' runID ! (unat q' - 1)"
      using that ex lt by (auto simp: last_conv_nth)
    moreover have "unat q' - 1 < length (stream_events broker' runID)" using lt ex by linarith
    ultimately have "ev_Sequence (last w) = of_nat (unat q' - 1 + 1)" using numbered_nth [OF num'] by metis
    then show ?thesis using lt by simp
  qed
  then show ?thesis using ex by auto
qed

definition demo_session :: "RunEvent list \<times> u64 \<times> eventBroker" where
  "demo_session = stream_session ''r'' [([Observe (Snapshot demo_running), Observe (Snapshot demo_ready)], None)]
     (fold stream_do [Observe (Snapshot demo_new)] newEventBroker) 0"

lemma demo_session_events:
  "case demo_session of (w, q', broker) \<Rightarrow>
     map ev_Type w = [eventWorkflowStarted, eventTaskReady, eventTaskReady] \<and> length (stream_events broker ''r'') = 3"
  by code_simp

theorem events_exactly_once_witness:
  "case demo_session of (w, q', broker) \<Rightarrow>
     map ev_Type w = [eventWorkflowStarted, eventTaskReady, eventTaskReady] \<and> w = stream_events broker ''r'' \<and> ev_Sequence (last w) = q'"
proof -
  obtain w q' broker where x: "demo_session = (w, q', broker)" by (rule prod_cases3)
  have y: "map ev_Type w = [eventWorkflowStarted, eventTaskReady, eventTaskReady]" "length (stream_events broker ''r'') = 3"
    using demo_session_events by (simp_all add: x)
  show ?thesis using events_exactly_once [OF HOL.refl x [unfolded demo_session_def]] y by (auto simp: x)
qed

lemma file_created:
  assumes "st_CreateRun (file_Store codec) st ctx x = (Inr y, st')"
  shows "y = x\<lparr>ws_Version := 1\<rparr>" "st_LoadRun (file_Store codec) st' ctx' (ws_ID x) = Inr (Some z) \<Longrightarrow> z = y"
    "st_LoadWorkflow (file_Store codec) st' ctx' w = Inr (Some d) \<Longrightarrow> mget (fs_workflows (fst st)) w = Some d' \<Longrightarrow> d = fs_cloneDefinition d'"
proof -
  have "CreateRun codec (next_io (snd st)) ctx ctx (fst st) x = (Inr y, fst st')"
    using assms by (auto simp: file_Store_def on_file_def split: prod.splits)
  then have c: "store_run codec (next_io (snd st)) ctx (fst st) operationCreateRun 1 x = (Inr y, fst st')"
    by (auto simp: CreateRun_def split: sum.splits if_splits)
  then show y: "y = x\<lparr>ws_Version := 1\<rparr>"
    by (auto simp: store_run_def Let_def split: prod.splits sum.splits option.splits)
  have "mget (fs_runs (fst st')) (ws_ID x) = Some y"
    using c by (auto simp: store_run_def commit_def Let_def split: sum.splits option.splits prod.splits) (drule sym, simp add: go_map)
  then show "st_LoadRun (file_Store codec) st' ctx' (ws_ID x) = Inr (Some z) \<Longrightarrow> z = y"
    by (auto simp: file_Store_def LoadRun_def bindE_Inr_iff)
  show "st_LoadWorkflow (file_Store codec) st' ctx' w = Inr (Some d) \<Longrightarrow> mget (fs_workflows (fst st)) w = Some d' \<Longrightarrow> d = fs_cloneDefinition d'"
    using store_run_workflows [OF c] by (auto simp: file_Store_def LoadWorkflow_def bindE_Inr_iff)
qed

text \<open>A submitted run whose scheduler waits: the run that was created, as \<open>Recover\<close> restores it and starts it.\<close>

lemma submitted_run:
  assumes "submit_run E ctx runCtx ctxErr now its workflowID runID p br = Scheduling flow" "0 < now 0"
    "en_store E = observedStore (file_Store codec)" "store_wf (fst (fst p))"
  obtains "definition" run0 y p1 run run1 run2 p2 handlers where "mget (fs_workflows (fst (fst p))) workflowID = Some definition"
    "newWorkflowRun runID definition (now 0) = Inr run0" "st_CreateRun (en_store E) p ctx (Snapshot run0) = (Inr y, p1)"
    "Snapshot run = y" "run_inv run" "status_of run = status_of run0" "run_status run = run_status run0" "run_id run = runID"
    "transitionWorkflow run (now 1) WorkflowRunRunning = Inr run1" "live_inv run2"
    "saveRun (en_store E) durability p1 run1 ''start recovered workflow run'' = (None, run2, p2)"
    "flow = executeBrokerRun E (\<lambda>i. now (i + 2)) its handlers run2 p2 br"
proof -
  obtain "definition" run0 y p1 where s: "st_LoadWorkflow (en_store E) p ctx workflowID = Inr (Some definition)"
      "newWorkflowRun runID definition (now 0) = Inr run0" "st_CreateRun (en_store E) p ctx (Snapshot run0) = (Inr y, p1)"
      "Recover E runCtx ctxErr (\<lambda>i. now (i + 1)) its runID p1 br = Scheduling flow"
    using assms(1) by (auto simp: submit_run_def split: sum.splits option.splits prod.splits)
  obtain d where d: "mget (fs_workflows (fst (fst p))) workflowID = Some d" "definition = fs_cloneDefinition d"
    using s(1) by (auto simp: assms(3) observedStore_other file_Store_def LoadWorkflow_def bindE_Inr_iff)
  have "wd_ID d = workflowID" "fs_cloneDefinition d = d" using assms(4) d(1) unfolding store_wf_def workflows_wf_def by blast+
  then have def: "definition = d" "wd_ID d = workflowID" "cloneDefinition d = d" using d(2) by (simp_all add: fs_cloneDefinition_eq)
  have run0: "run_inv run0" "run_id run0 = runID" "run_definition run0 = definition" "run_status run0 = WorkflowRunPending"
      "\<And>k x. status_of run0 k = Some x \<Longrightarrow> x = TaskRunPending"
    using newWorkflowRun_inv [OF s(2) assms(2)] s(2) def
    by (auto elim!: newWorkflowRun_InrE simp: status_of_def new_task_run_def simp del: map_of_map_keys dest!: map_of_SomeD)
  note cr = observedStore_create [OF s(3) [unfolded assms(3)], THEN conjunct1]
  let ?run1 = "setPersistedVersion run0 1"
  have inv1: "run_inv ?run1" by (rule run_step_inv [OF run_step.persist run0(1)])
  have y: "y = Snapshot ?run1" using file_created(1) [OF cr] by (simp add: Snapshot_version)
  have ids: "ws_ID (Snapshot run0) = runID" "ws_WorkflowID y = workflowID"
    by (simp_all add: y Snapshot_def setPersistedVersion_def run0 def)
  obtain x d1 run where r: "st_LoadRun (file_Store codec) (fst p1) runCtx runID = Inr (Some x)"
      "st_LoadWorkflow (file_Store codec) (fst p1) runCtx (ws_WorkflowID x) = Inr (Some d1)" "restoreWorkflowRun x d1 = Inr run"
      "run_status run = WorkflowRunPending \<Longrightarrow> \<exists>run1 run2 st2 handlers. transitionWorkflow run (now 1) WorkflowRunRunning = Inr run1 \<and>
         saveRun (en_store E) durability p1 run1 ''start recovered workflow run'' = (None, run2, st2) \<and>
         flow = executeBrokerRun E (\<lambda>i. now (i + 2)) its handlers run2 st2 br"
    using s(4) by (rule Recover_pending) (simp add: assms(3) observedStore_other)
  have x: "x = y" using file_created(2) [OF cr] r(1) ids(1) by simp
  have "d1 = d" using file_created(3) [OF cr _ d(1)] r(2) def ids(2) by (simp add: x fs_cloneDefinition_eq)
  then have "restoreWorkflowRun (Snapshot ?run1) (run_definition ?run1) = Inr run"
    using r(3) by (simp add: x y run0 def setPersistedVersion_def)
  note q = restored_inv [OF inv1 this]
  have same: "status_of ?run1 = status_of run0" "run_status ?run1 = run_status run0" "run_id ?run1 = run_id run0"
    by (simp_all add: status_of_def setPersistedVersion_def fun_eq_iff)
  obtain run1 run2 p2 handlers where z: "transitionWorkflow run (now 1) WorkflowRunRunning = Inr run1"
      "saveRun (en_store E) durability p1 run1 ''start recovered workflow run'' = (None, run2, p2)"
      "flow = executeBrokerRun E (\<lambda>i. now (i + 2)) its handlers run2 p2 br"
    using r(4) q same run0(4) by auto
  obtain v where "run2 = setPersistedVersion run1 v" using z(2) by (rule saveRun_NoneE)
  then have "live_inv run2" using live_start [of run "now 1" run1 v] q same run0(5) z(1) by auto
  then show thesis using that [OF d(1)] s(2,3) q same z y run0(2) def(1) by metis
qed

text \<open>C8: the events tell the state of a run. Let a run be submitted to a server whose broker is open and has no stream
  for the run yet, on a well-formed file store. Whenever the scheduler of that run waits, a client that applies the
  events of the stream to a run in which everything is pending knows the status of every task and of the run. The
  statement is about the process to which the run was submitted: the history of the events is in memory only, and
  after a restart the stream of the run begins anew.\<close>

theorem events_tell_run:
  assumes "submit_run E ctx runCtx ctxErr now its workflowID runID p br = Scheduling (Continue s)" "0 < now 0"
    "en_store E = observedStore (file_Store codec)" "store_wf (fst (fst p))" "\<not> eb_closed (snd p)"
    "mget (eb_streams (snd p)) runID = None" "mget (fs_workflows (fst (fst p))) workflowID = Some definition"
  shows "replay_run (stream_events (snd (sc_store s)) runID) WorkflowRunPending = run_status (sc_run s) \<and>
    (\<forall>k \<in> set (task_ids definition).
       replay_task k (stream_events (snd (sc_store s)) runID) (Some TaskRunPending) = status_of (sc_run s) k)"
proof -
  obtain run0 y p1 run run1 run2 p2 handlers where r:
    "newWorkflowRun runID definition (now 0) = Inr run0" "st_CreateRun (observedStore (file_Store codec)) p ctx (Snapshot run0) = (Inr y, p1)"
    "Snapshot run = y" "run_inv run" "status_of run = status_of run0" "run_status run = run_status run0" "run_id run = runID"
    "transitionWorkflow run (now 1) WorkflowRunRunning = Inr run1" "live_inv run2"
    "saveRun (observedStore (file_Store codec)) durability p1 run1 ''start recovered workflow run'' = (None, run2, p2)"
    "executeBrokerRun E (\<lambda>i. now (i + 2)) its handlers run2 p2 br = Continue s"
    using submitted_run [OF assms(1-4)] unfolding assms(3,7) by (metis option.inject)
  have "stream_tells run0 (snd p1) run"
    using recorded_files.created_tells [OF r(2-6)] assms(5,6) r(7) by simp
  from recorded_files.scheduling_tells [OF this r(8,10,9,11) assms(3)]
  obtain stream where x: "mget (eb_streams (snd (sc_store s))) runID = Some stream"
      "\<forall>k. replay_task k (es_events stream) (status_of run0 k) = status_of (sc_run s) k"
      "replay_run (es_events stream) (run_status run0) = run_status (sc_run s)"
    unfolding r(7) by blast
  have "run_status run0 = WorkflowRunPending" "\<forall>k \<in> set (task_ids definition). status_of run0 k = Some TaskRunPending"
    using r(1) by (auto elim!: newWorkflowRun_InrE simp: status_of_def map_of_map_restrict new_task_run_def)
  then show ?thesis using x by (metis option.simps(5) stream_events_def)
qed

end
