(* ===== verification/FF_Trial.thy ===== *)
theory FF_Trial
  imports FF_Events
begin

text \<open>
  A concrete execution: a workflow of two tasks, the second depending on the first, run by one worker on the file
  store and on the in-memory broker until it succeeds. The properties of an execution are applied to its states.
\<close>

definition chain_workflow :: WorkflowDefinition where
  "chain_workflow = \<lparr>wd_ID = ''w'', wd_Tasks = [example_task ''a'' [], example_task ''b'' [''a'']]\<rparr>"

text \<open>A dispatch is written as its task; the other identities follow from it in a run without retries.\<close>

definition trial_codec :: dispatch_codec where
  "trial_codec = \<lparr>dc_marshal = \<lambda>d. Inr (dp_TaskID d),
     dc_unmarshal = \<lambda>body. Inr \<lparr>dp_RunID = ''r'', dp_TaskID = body, dp_TaskRunID = TaskRunIDFor ''r'' body,
       dp_AttemptID = AttemptIDFor (TaskRunIDFor ''r'' body) 1\<rparr>,
     dc_sha256_hex = \<lambda>_. ''0'', dc_inject = \<lambda>_. []\<rparr>"

definition trial_engine :: "(file_state, InMemoryBroker, memoryDelivery, unit) Engine" where
  "trial_engine = \<lparr>en_workerCount = 1, en_registry = [(''echo'', ())], en_store = file_Store number_codec,
     en_config = \<lparr>cf_clock = Some (), cf_leaseDuration = 1000, cf_heartbeatInterval = 100, cf_workerNamespace = ''w'',
       cf_taskBroker = Some (), cf_instrumentation = Some ()\<rparr>,
     en_broker = memory_Broker, en_codec = trial_codec\<rparr>"

definition trial_key :: memorySubscriptionKey where
  "trial_key = (''forgeflow-run-0'', ''run-0'')"

definition trial_worker :: WorkerID where
  "trial_worker = ''w/r/slot-1/generation-1''"

definition trial_delivery :: "TaskID \<Rightarrow> memoryDelivery" where
  "trial_delivery k = \<lparr>md_key = trial_key,
     md_message = \<lparr>tm_ID = AttemptIDFor (TaskRunIDFor ''r'' k) 1, tm_Topic = ''run-0'', tm_Body = k, tm_Headers = Some []\<rparr>, md_count = 1\<rparr>"

definition trial_step :: "Time \<Rightarrow> (InMemoryBroker \<Rightarrow> InMemoryBroker) \<Rightarrow> memoryDelivery sched_event \<Rightarrow> (InMemoryBroker, memoryDelivery) iteration" where
  "trial_step t workers event = \<lparr>it_ctxErr = None, it_publishContext = Context None, it_resultErr = None, it_headNow = (\<lambda>_. t),
     it_workers = workers, it_eventNow = (\<lambda>_. t), it_event = event\<rparr>"

definition trial_claim :: "Time \<Rightarrow> TaskID \<Rightarrow> (InMemoryBroker, memoryDelivery) iteration" where
  "trial_claim t k = trial_step t (\<lambda>br. snd (receive_round br trial_key))
     (ClaimEvent \<lparr>wc_workerID = trial_worker, wc_slot = 1, wc_delivery = trial_delivery k, wc_response = 0\<rparr>)"

definition trial_result :: "Time \<Rightarrow> TaskID \<Rightarrow> (InMemoryBroker, memoryDelivery) iteration" where
  "trial_result t k = trial_step t (\<lambda>br. br)
     (ResultEvent \<lparr>rs_taskID = k, rs_taskRunID = TaskRunIDFor ''r'' k, rs_workerID = trial_worker,
       rs_attemptID = AttemptIDFor (TaskRunIDFor ''r'' k) 1, rs_output = ''out'', rs_err = None, rs_delivery = trial_delivery k\<rparr>)"

definition trial :: "(InMemoryBroker, memoryDelivery) iteration list \<Rightarrow> (file_state, InMemoryBroker, memoryDelivery, unit) engine_result" where
  "trial its = Execute trial_engine (Context None) None (\<lambda>i. 10 + int i) its ''r'' chain_workflow (empty_store [], []) NewInMemoryBroker"

text \<open>The trial up to the claim of the second task, that claim, and the rest.\<close>

fun waits :: "('st, 'br, 'd, 'h) engine_result \<Rightarrow> ('st, 'br, 'd, 'h) sched option" where
  "waits (Scheduling (Continue s)) = Some s"
| "waits _ = None"

fun goes_on :: "'s flow \<Rightarrow> 's option" where
  "goes_on (Continue s) = Some s"
| "goes_on (Return _ _) = None"

fun succeeds :: "'s flow \<Rightarrow> bool" where
  "succeeds (Return None _) \<longleftrightarrow> True"
| "succeeds _ \<longleftrightarrow> False"

lemma trial_path:
  "case waits (trial [trial_claim 20 ''a'', trial_result 30 ''a'']) of None \<Rightarrow> False
   | Some s \<Rightarrow>
      (case goes_on (loop_iteration trial_engine (trial_claim 40 ''b'') s) of None \<Rightarrow> False
       | Some s' \<Rightarrow> job_starts (drop (length (sc_responses s)) (sc_responses s')) = [(''b'', ''1:r:b:attempt:1'')] \<and>
           succeeds (schedule_loop trial_engine [trial_result 50 ''b'', trial_step 60 (\<lambda>br. br) TimerEvent] s'))"
  by code_simp

section \<open>Its states\<close>

lemma waits_Some: "waits r = Some s \<longleftrightarrow> r = Scheduling (Continue s)"
  by (cases r rule: waits.cases) auto

lemma goes_on_Some: "goes_on f = Some s \<longleftrightarrow> f = Continue s"
  by (cases f) auto

lemma succeeds_iff: "succeeds f \<longleftrightarrow> (\<exists>s. f = Return None s)"
  by (cases f rule: succeeds.cases) auto

lemma then_flow_assoc: "then_flow (then_flow m f) g = then_flow m (\<lambda>s. then_flow (f s) g)"
  by (cases m) simp_all

lemma schedule_loop_append: "schedule_loop E (its @ its') s = then_flow (schedule_loop E its s) (schedule_loop E its')"
proof (induction its arbitrary: s)
  case (Cons it its)
  then have "schedule_loop E (its @ its') = (\<lambda>s. then_flow (schedule_loop E its s) (schedule_loop E its'))" by (simp add: fun_eq_iff)
  then show ?case by (simp add: then_flow_assoc)
qed simp

lemma Execute_append:
  assumes "Execute E ctx ctxErr now its runID definition st br = Scheduling flow"
  shows "Execute E ctx ctxErr now (its @ its') runID definition st br = Scheduling (then_flow flow (schedule_loop E its'))"
proof -
  have "executeBrokerRun E now' (its @ its') handlers run st' br = then_flow (executeBrokerRun E now' its handlers run st' br) (schedule_loop E its')"
    for now' handlers run st'
    unfolding executeBrokerRun_def then_flow_assoc by (rule arg_cong [of _ _ "then_flow _"]) (simp add: fun_eq_iff schedule_loop_append)
  then show ?thesis using assms
    by (auto simp: Execute_def finished_run_def Let_def split: if_splits sum.splits prod.splits option.splits)
qed

lemma job_starts_member:
  assumes "(k, a) \<in> set (job_starts rs)"
  shows "\<exists>c job. (c, Some job) \<in> set rs \<and> k = td_ID (rq_Task (tj_request job)) \<and> a = rq_AttemptID (tj_request job)"
proof -
  obtain c x where "(c, x) \<in> set rs" "map_option (\<lambda>job. (td_ID (rq_Task (tj_request job)), rq_AttemptID (tj_request job))) x = Some (k, a)"
    using assms unfolding job_starts_def in_map_filter by auto
  then show ?thesis by auto
qed

lemma trial_states:
  obtains s s' rs s'' where "trial [trial_claim 20 ''a'', trial_result 30 ''a''] = Scheduling (Continue s)"
    "loop_iteration trial_engine (trial_claim 40 ''b'') s = Continue s'" "sc_responses s' = sc_responses s @ rs"
    "(''b'', ''1:r:b:attempt:1'') \<in> set (job_starts rs)"
    "schedule_loop trial_engine [trial_result 50 ''b'', trial_step 60 (\<lambda>br. br) TimerEvent] s' = Return None s''"
proof -
  obtain s s' where x: "trial [trial_claim 20 ''a'', trial_result 30 ''a''] = Scheduling (Continue s)"
      "loop_iteration trial_engine (trial_claim 40 ''b'') s = Continue s'"
      "job_starts (drop (length (sc_responses s)) (sc_responses s')) = [(''b'', ''1:r:b:attempt:1'')]"
      "succeeds (schedule_loop trial_engine [trial_result 50 ''b'', trial_step 60 (\<lambda>br. br) TimerEvent] s')"
    using trial_path by (auto simp: waits_Some goes_on_Some split: option.splits)
  have inv: "sched_inv s" using x(1) unfolding trial_def by (rule execution_inv) simp
  have "\<exists>rs. sc_responses s' = sc_responses s @ rs"
    using loop_iteration_ok(3) [OF inv x(2)] unfolding quiet_def handed_def by (metis append.assoc)
  then obtain rs where rs: "sc_responses s' = sc_responses s @ rs" by blast
  show thesis using that [OF x(1,2) rs] x(3,4) rs by (auto simp: succeeds_iff)
qed

lemmas trial_run = trial_states [unfolded trial_def]

section \<open>The properties, applied\<close>

theorem dependencies_first_witness:
  "\<exists>s s' rs. trial [trial_claim 20 ''a'', trial_result 30 ''a''] = Scheduling (Continue s) \<and>
     loop_iteration trial_engine (trial_claim 40 ''b'') s = Continue s' \<and> sc_responses s' = sc_responses s @ rs \<and>
     (''b'', ''1:r:b:attempt:1'') \<in> set (job_starts rs) \<and> status_of (sc_run s') ''a'' = Some TaskRunSucceeded"
proof -
  obtain s s' rs where x: "trial [trial_claim 20 ''a'', trial_result 30 ''a''] = Scheduling (Continue s)"
      "loop_iteration trial_engine (trial_claim 40 ''b'') s = Continue s'" "sc_responses s' = sc_responses s @ rs"
      "(''b'', ''1:r:b:attempt:1'') \<in> set (job_starts rs)"
    by (rule trial_states)
  obtain c job where job: "(c, Some job) \<in> set rs" "''b'' = td_ID (rq_Task (tj_request job))" using job_starts_member [OF x(4)] by blast
  have "''a'' \<in> set (deps_of chain_workflow ''b'')" by code_simp
  then have "status_of (sc_run s') ''a'' = Some TaskRunSucceeded"
    using dependencies_first [OF x(1) [unfolded trial_def] _ x(2,3) job] by simp
  then show ?thesis using x by blast
qed

theorem never_stalls_witness:
  "\<exists>s s3. trial [trial_claim 20 ''a'', trial_result 30 ''a''] = Scheduling (Continue s) \<and>
     then_flow (then_flow (loop_recover trial_engine (\<lambda>_. 40) s) (loop_complete trial_engine (\<lambda>_. 40)))
       (publishReadyTasks trial_engine (Context None)) = Continue s3 \<and> \<not> stalled s3"
proof -
  obtain s s' where x: "trial [trial_claim 20 ''a'', trial_result 30 ''a''] = Scheduling (Continue s)"
      "loop_iteration trial_engine (trial_claim 40 ''b'') s = Continue s'"
    by (rule trial_states)
  obtain s1 s2 s3 where y: "loop_recover trial_engine (\<lambda>_. 40) s = Continue s1" "loop_complete trial_engine (\<lambda>_. 40) s1 = Continue s2"
      "publishReadyTasks trial_engine (Context None) s2 = Continue s3"
    using x(2) by (auto simp: loop_iteration_def loop_head_def then_flow_Continue trial_claim_def trial_step_def)
  have "\<not> stalled s3" by (rule never_stalls [OF x(1) [unfolded trial_def] _ y]) simp
  then show ?thesis using x(1) y by (intro exI [of _ s] exI [of _ s3]) simp
qed

theorem run_persisted_witness:
  "\<exists>s. trial [trial_claim 20 ''a'', trial_result 30 ''a''] = Scheduling (Continue s) \<and>
     LoadRun (fst (sc_store s)) (Context None) ''r'' = Inr (Some (Snapshot (sc_run s)))"
proof -
  obtain s where x: "trial [trial_claim 20 ''a'', trial_result 30 ''a''] = Scheduling (Continue s)" by (rule trial_states)
  have "LoadRun (fst (sc_store s)) (Context None) ''r'' = Inr (Some (Snapshot (sc_run s)))"
    by (rule run_persisted [OF x [unfolded trial_def]]) (simp_all add: trial_engine_def)
  then show ?thesis using x by blast
qed

theorem success_complete_witness:
  "\<exists>s. trial [trial_claim 20 ''a'', trial_result 30 ''a'', trial_claim 40 ''b'', trial_result 50 ''b'', trial_step 60 (\<lambda>br. br) TimerEvent] =
       Scheduling (Return None s) \<and>
     run_status (sc_run s) = WorkflowRunSucceeded \<and> status_of (sc_run s) ''b'' = Some TaskRunSucceeded"
proof -
  obtain s s' s'' where x: "trial [trial_claim 20 ''a'', trial_result 30 ''a''] = Scheduling (Continue s)"
      "loop_iteration trial_engine (trial_claim 40 ''b'') s = Continue s'"
      "schedule_loop trial_engine [trial_result 50 ''b'', trial_step 60 (\<lambda>br. br) TimerEvent] s' = Return None s''"
    by (rule trial_states)
  have "Execute trial_engine (Context None) None (\<lambda>i. 10 + int i)
      ([trial_claim 20 ''a'', trial_result 30 ''a''] @ [trial_claim 40 ''b'', trial_result 50 ''b'', trial_step 60 (\<lambda>br. br) TimerEvent])
      ''r'' chain_workflow (empty_store [], []) NewInMemoryBroker = Scheduling (Return None s'')"
    unfolding Execute_append [OF x(1) [unfolded trial_def]] by (simp add: x(2) x(3) [simplified])
  then have fin: "trial [trial_claim 20 ''a'', trial_result 30 ''a'', trial_claim 40 ''b'', trial_result 50 ''b'', trial_step 60 (\<lambda>br. br) TimerEvent] =
      Scheduling (Return None s'')" by (simp add: trial_def)
  have "''b'' \<in> set (task_ids chain_workflow)" by code_simp
  then have "run_status (sc_run s'') = WorkflowRunSucceeded \<and> status_of (sc_run s'') ''b'' = Some TaskRunSucceeded"
    using success_complete [OF fin [unfolded trial_def], of number_codec] by (simp add: trial_engine_def)
  then show ?thesis using fin by blast
qed

text \<open>The same engine when the disk fills up as the first lease is saved.\<close>

definition torn_trial :: "(file_state, InMemoryBroker, memoryDelivery, unit) engine_result" where
  "torn_trial = Execute trial_engine (Context None) None (\<lambda>i. 10 + int i) [trial_claim 20 ''a''] ''r'' chain_workflow
     (empty_store [], [good_io, good_io, good_io, good_io, torn_io]) NewInMemoryBroker"

fun fails :: "('st, 'br, 'd, 'h) engine_result \<Rightarrow> ('st, 'br, 'd, 'h) sched option" where
  "fails (Scheduling (Return (Some _) s)) = Some s"
| "fails _ = None"

lemma torn_trial_fails:
  "map_option (\<lambda>s. (job_starts (sc_responses s), status_of (sc_run s) ''a'')) (fails torn_trial) = Some ([], Some TaskRunRunning)"
  by code_simp

lemma fails_Some: "fails r = Some s \<longleftrightarrow> (\<exists>err. r = Scheduling (Return (Some err) s))"
  by (cases r rule: fails.cases) auto


theorem jobs_bounded_witness:
  "\<exists>s. trial [trial_claim 20 ''a'', trial_result 30 ''a''] = Scheduling (Continue s) \<and>
     distinct (map snd (job_starts (sc_responses s)))"
proof -
  obtain s where x: "trial [trial_claim 20 ''a'', trial_result 30 ''a''] = Scheduling (Continue s)" by (rule trial_states)
  then show ?thesis using jobs_bounded [OF x [unfolded trial_def]] by auto
qed


section \<open>Submitting the run to a server\<close>

definition observed_engine :: "(file_state \<times> eventBroker, InMemoryBroker, memoryDelivery, unit) Engine" where
  "observed_engine = \<lparr>en_workerCount = 1, en_registry = [(''echo'', ())], en_store = observedStore (file_Store number_codec),
     en_config = en_config trial_engine, en_broker = memory_Broker, en_codec = trial_codec\<rparr>"

definition observed_store :: FileStore where
  "observed_store = snd (run_ops number_codec [(good_io, OpSaveWorkflow chain_workflow)] (empty_store []))"

definition observed_trial :: "(file_state \<times> eventBroker, InMemoryBroker, memoryDelivery, unit) engine_result" where
  "observed_trial = submit_run observed_engine (Context None) (Context None) None (\<lambda>i. 10 + int i) [] ''w'' ''r''
     ((observed_store, []), newEventBroker) NewInMemoryBroker"

lemma observed_trial_waits:
  "case waits observed_trial of None \<Rightarrow> False
   | Some s \<Rightarrow> map ev_Type (stream_events (snd (sc_store s)) ''r'') = [eventWorkflowStarted, eventTaskReady]"
  by code_simp

lemma observed_store_workflow: "map_option task_ids (mget (fs_workflows observed_store) ''w'') = Some [''a'', ''b'']"
  by code_simp

theorem events_tell_run_witness:
  "\<exists>s. observed_trial = Scheduling (Continue s) \<and>
     map ev_Type (stream_events (snd (sc_store s)) ''r'') = [eventWorkflowStarted, eventTaskReady] \<and>
     replay_task ''a'' (stream_events (snd (sc_store s)) ''r'') (Some TaskRunPending) = status_of (sc_run s) ''a''"
proof -
  obtain s where x: "observed_trial = Scheduling (Continue s)"
      "map ev_Type (stream_events (snd (sc_store s)) ''r'') = [eventWorkflowStarted, eventTaskReady]"
    using observed_trial_waits by (auto simp: waits_Some split: option.splits)
  obtain d where d: "mget (fs_workflows observed_store) ''w'' = Some d" "''a'' \<in> set (task_ids d)" using observed_store_workflow by auto
  obtain n where "store_path number_codec n (empty_store []) observed_store"
    unfolding observed_store_def using run_ops_path path_here by blast
  from store_path_wf [OF this fs_inv_empty store_wf_empty] have "store_wf observed_store" .
  then have "replay_task ''a'' (stream_events (snd (sc_store s)) ''r'') (Some TaskRunPending) = status_of (sc_run s) ''a''"
    using events_tell_run [OF x(1) [unfolded observed_trial_def], of number_codec d] d by (simp add: observed_engine_def newEventBroker_def)
  then show ?thesis using x by (intro exI [of _ s]) simp
qed

end
