(* ===== verification/Spec2Isabelle.thy ===== *)
theory Spec2Isabelle
  imports FF_BrokerSystem FF_RateLimit FF_Trial
begin

text \<open>
  \<^bold>\<open>ForgeFlow: a verification development\<close>

  ForgeFlow executes workflows. A workflow is a directed acyclic graph of tasks; a run executes every task once its
  dependencies have succeeded, hands attempts to workers under leases, retries failed attempts with a backoff, saves
  every step in a store and can be recovered from it after a crash. The parts of the program, all under \<open>src/internal\<close>,
  and the theories that model them:

  \<^item> \<^bold>\<open>Workflow definitions\<close> (\<open>workflow/definition.go\<close>, \<open>graph.go\<close>, \<open>errors.go\<close>): FF_Heap (container/heap of the Go
    library), FF_Workflow (definitions, validation, the dependency graph, topological sort, ready tasks, retry delays)
    and FF_Topology (their properties).
  \<^item> \<^bold>\<open>Runs\<close> (\<open>execution/run.go\<close>, \<open>reliability.go\<close>, \<open>store.go\<close>, \<open>errors.go\<close>): FF_Errors (errors as values), FF_Run (the run
    aggregate: one definition per operation, with its guards), FF_Reliability (operations as the step relation
    \<open>run_step\<close>, traces, task lifecycle, attempts), FF_Snapshot (snapshots, their validation, the invariant \<open>run_inv\<close>),
    FF_Restore (restoring a run from a snapshot), FF_Recovery (expired leases, heartbeats, deadlines), FF_Demo
    (concrete runs for the witnesses).
  \<^item> \<^bold>\<open>Brokers\<close> (\<open>broker/broker.go\<close>, \<open>memory.go\<close>): FF_Broker (messages, the in-memory broker) and FF_BrokerSystem (the
    locale of a message queue, interpreted by the in-memory broker, and receivers that block and are woken).
  \<^item> \<^bold>\<open>Security\<close> (\<open>security/model.go\<close>, \<open>auth.go\<close>, \<open>rate_limit.go\<close>): FF_Security (roles, validation, authentication, the
    fixed-window limiter) and FF_RateLimit (the limiter refines one counter per key).
  \<^item> \<^bold>\<open>File store\<close> (\<open>persistence/file_store.go\<close>): FF_FileStore (journal, replay, every operation), FF_Journal (crashes and
    reopening), FF_Codec (a codec that satisfies the laws for all records), FF_Integrity (referential integrity,
    versions).
  \<^item> \<^bold>\<open>Engine\<close> (\<open>execution/engine.go\<close>, \<open>engine_broker.go\<close>, \<open>options.go\<close>, \<open>handler.go\<close>): FF_Engine (Execute, Recover and the
    scheduler), FF_Scheduler (its invariant), FF_Driver (it drives the run through \<open>run_step\<close>), FF_Execution (what an
    execution on the file store and the in-memory broker guarantees), FF_Trial (a concrete execution and the
    witnesses of these properties).
  \<^item> \<^bold>\<open>Event streams\<close> (\<open>api/events.go\<close>, and of \<open>api/server.go\<close> the submission of a run and the loop of
    \<open>handleRunEvents\<close>): FF_Events.

  FF_Prelude holds what they share: Go maps, slices, errors, runes and decimal numerals.

  \<^bold>\<open>How code becomes definitions.\<close> A struct is a record with the fields of the source, prefixed by its initials; an enum
  is a datatype with a last constructor for values outside the declared ones. A Go map is an association list
  (\<open>gomap\<close>), of which lookups only are used where the source's iteration order is not fixed by sorting. A string is its
  list of bytes; \<open>runes\<close> decodes UTF-8 as a \<open>range\<close> loop does. Durations and versions are 64-bit words, times are
  integers of nanoseconds, \<open>int\<close> is \<open>int\<close>. A function that returns \<open>(T, error)\<close> is \<open>go_error + T\<close>; a method that changes
  its receiver returns the new value. What the environment decides is an argument: times, outcomes of system calls,
  cancelled contexts, the JSON, JWT and hash libraries (\<open>journal_codec\<close>, \<open>dispatch_codec\<close>, the token parser) with the laws
  the code relies on as named hypotheses. Of the JSON codec of the journal this is \<open>codec_laws codec R\<close>: what is encoded
  of the records in \<open>R\<close> is decoded to the same record. \<open>encoding/json\<close> replaces bytes that are not UTF-8, so that records
  with such texts are outside \<open>R\<close>; the property of recovery takes a codec that decodes every record it encodes, and does
  not cover task outputs that are not UTF-8. Every loop is a total function; the scheduler's loop is a function of the list
  of its iterations, each of which carries the event its \<open>select\<close> received and what workers have done to the broker before, so that its
  theorems hold for schedules of any length and there is no fuel.

  \<^bold>\<open>Contracts.\<close> \<open>run_store\<close>, \<open>workflow_store\<close> and \<open>recording_store\<close> (FF_Execution, FF_Events) state what the engine expects of
  a store; the file store interprets them, and the observed store interprets \<open>workflow_store\<close> whenever the store that it
  wraps does. \<open>durable_queue\<close> (FF_BrokerSystem) states what a broker
  promises, interpreted by the in-memory broker, and \<open>min_queue\<close> (FF_Heap) what the topological sort expects of its heap,
  interpreted by the heap of the Go library.

  \<^bold>\<open>What is shown.\<close> Of an execution: a job is handed out only after its dependencies succeeded, the scheduler refines the
  run aggregate, the attempts it starts being the jobs it hands out, and never stalls, all jobs together are bounded by the retry policies, the store holds the run whenever
  the scheduler waits, success means that every task succeeded, and a run recovered from the bytes of the journal file
  goes on where it stopped. These are stated for \<open>Execute\<close>. The server reaches the same scheduler through \<open>Recover\<close>:
  of a run submitted to it, the events that clients are sent tell the state of the run, each exactly once and in
  order, as long as the process lives. Of runs: an attempt completes at most
  once, terminal tasks stay as they are, attempts are within bounds and have distinct identities, snapshots of reachable
  runs are valid and restore to the same run, exactly the expired leases are recovered, and
  heartbeats keep those of their worker that have not expired. Of workflows: the topological
  order is the least one that respects dependencies, validation accepts exactly the acyclic well-formed definitions and
  its errors name real defects. Of the broker: no message is lost or duplicated, a rejected one is delivered
  again and its old delivery settles nothing any more. Of the store: reopening restores it as long as every append was complete or wrote nothing, a crash
  loses at most the record being written, what is stored stays valid and its references intact, no update is lost. Of the limiter: keys are independent and a period admits at most twice the limit. Some
  theorems state where the code falls short: a second lease for a worker cannot be saved, closing the broker can leave a
  receiver blocked, a torn append followed by another makes the journal unreadable.

  \<^bold>\<open>Not modelled.\<close> Between two iterations the scheduler has the store to itself: concurrent runs share the file store
  through its mutex, and other runs touch neither this run's record nor its stream. \<open>api/manager.go\<close> (goroutines around
  Recover), the rest of the HTTP handlers and transport types of \<open>api\<close> (routing, JSON and status codes; what they call is modelled),
  the PostgreSQL store (SQL run by a server), the NATS broker (calls of its client), \<open>observability\<close>, the system clock, the
  demonstration handlers, and the process wiring of \<open>app\<close> and \<open>cmd\<close>.
\<close>

end
